(* ===== verification/Py_Prelude.thy ===== *)
theory Py_Prelude
  imports Complex_Main "HOL-Library.AList" "HOL-Library.Char_ord" "HOL-Library.List_Lexorder"
    "HOL-Library.Product_Lexorder" "HOL-Library.Sublist" "HOL-Library.Multiset"
begin

text \<open>
  What the Python scripts use of the language itself, shared by every component:
  \<^item> exceptions as values (\<open>py_error\<close>, results of type \<open>'a res\<close>);
  \<^item> strings as lists of characters, a character being a code point below 256
    (\<open>strip\<close>, \<open>split\<close>, \<open>in\<close>, \<open>startswith\<close>, \<open>str\<close> and \<open>int\<close> on digit strings);
  \<^item> dictionaries in insertion order as association lists with \<^const>\<open>AList.update\<close>
    (a stored key keeps its place, a new key goes to the end, as Python guarantees);
  \<^item> \<open>collections.Counter\<close> and \<open>defaultdict(int)\<close> as such a dictionary with \<open>bump\<close>.
  Text printed on the console is not modelled.
\<close>

named_theorems py_simps \<open>rewrite rules that evaluate the Python primitives\<close>
named_theorems dict_simps \<open>lookups in dictionaries after updates\<close>

subsection \<open>Exceptions\<close>

datatype py_error =
    ValueError | TypeError | KeyError | IndexError | ZeroDivisionError | AttributeError
  | UnboundLocalError | NameError | FileNotFoundError | StopIteration | OverflowError
  | SystemExit string
  | RemoteError string

type_synonym 'a res = "py_error + 'a"

definition bind_res :: "'a res \<Rightarrow> ('a \<Rightarrow> 'b res) \<Rightarrow> 'b res" where
  "bind_res m f = (case m of Inl e \<Rightarrow> Inl e | Inr x \<Rightarrow> f x)"

lemma bind_res_simps [simp]: "bind_res (Inl e) f = Inl e" "bind_res (Inr x) f = f x"
  by (simp_all add: bind_res_def)

lemma bind_res_Inr_iff: "bind_res m f = Inr y \<longleftrightarrow> (\<exists>x. m = Inr x \<and> f x = Inr y)"
  by (cases m) auto

subsection \<open>Characters\<close>

definition code :: "char \<Rightarrow> int" where
  "code c = of_char c"

definition is_digit :: "char \<Rightarrow> bool" where
  "is_digit c \<longleftrightarrow> 48 \<le> code c \<and> code c \<le> 57"

text \<open>\<open>str.isspace\<close>, which is also what \<open>\s\<close> matches in a text pattern.\<close>

definition is_space :: "char \<Rightarrow> bool" where
  "is_space c \<longleftrightarrow> (9 \<le> code c \<and> code c \<le> 13) \<or> (28 \<le> code c \<and> code c \<le> 32)
     \<or> code c = 133 \<or> code c = 160"

text \<open>\<open>\w\<close>: letters, digits and numerals among the first 256 code points, and underscore.\<close>

definition is_word :: "char \<Rightarrow> bool" where
  "is_word c \<longleftrightarrow> is_digit c \<or> (65 \<le> code c \<and> code c \<le> 90) \<or> (97 \<le> code c \<and> code c \<le> 122)
     \<or> code c \<in> {95, 170, 178, 179, 181, 185, 186, 188, 189, 190}
     \<or> (192 \<le> code c \<and> code c \<le> 255 \<and> code c \<noteq> 215 \<and> code c \<noteq> 247)"

abbreviation newline :: char where "newline \<equiv> CHR 0x0A"

definition digit_char :: "int \<Rightarrow> char" where
  "digit_char d = char_of (48 + d)"

definition digit_val :: "char \<Rightarrow> int" where
  "digit_val c = code c - 48"

lemma code_digit_char: "0 \<le> d \<Longrightarrow> d < 10 \<Longrightarrow> code (digit_char d) = 48 + d"
  by (simp add: code_def digit_char_def)

lemma is_digit_digit_char [simp]: "0 \<le> d \<Longrightarrow> d < 10 \<Longrightarrow> is_digit (digit_char d)"
  by (simp add: is_digit_def code_digit_char)

lemma digit_val_digit_char [simp]: "0 \<le> d \<Longrightarrow> d < 10 \<Longrightarrow> digit_val (digit_char d) = d"
  by (simp add: digit_val_def code_digit_char)

lemma digit_val_bound: "is_digit c \<Longrightarrow> 0 \<le> digit_val c \<and> digit_val c < 10"
  by (auto simp: is_digit_def digit_val_def)

lemma is_digit_not_space: "is_digit c \<Longrightarrow> \<not> is_space c"
  by (auto simp: is_digit_def is_space_def)

subsection \<open>\<open>str(n)\<close> and \<open>int(s)\<close> on digits\<close>

function show_digits :: "int \<Rightarrow> string" where
  "show_digits n = (if n < 10 then [digit_char n] else show_digits (n div 10) @ [digit_char (n mod 10)])"
  by pat_completeness auto
termination
  by (relation "measure nat") auto

declare show_digits.simps [simp del]

definition show_int :: "int \<Rightarrow> string" where
  "show_int n = (if n < 0 then ''-'' @ show_digits (- n) else show_digits n)"

definition int_of_digits :: "string \<Rightarrow> int" where
  "int_of_digits s = foldl (\<lambda>a c. 10 * a + digit_val c) 0 s"

text \<open>Zero-padded to a width, as \<open>strftime\<close> prints months, days and times.\<close>

definition pad :: "nat \<Rightarrow> int \<Rightarrow> string" where
  "pad w n = replicate (w - length (show_int n)) (CHR ''0'') @ show_int n"

lemma int_of_digits_Nil [simp]: "int_of_digits [] = 0"
  by (simp add: int_of_digits_def)

lemma int_of_digits_snoc [simp]: "int_of_digits (s @ [c]) = 10 * int_of_digits s + digit_val c"
  by (simp add: int_of_digits_def)

lemma int_of_digits_nonneg: "list_all is_digit s \<Longrightarrow> 0 \<le> int_of_digits s"
  by (induction s rule: rev_induct) (auto dest: digit_val_bound)

lemma int_of_digits_show_digits: "0 \<le> n \<Longrightarrow> int_of_digits (show_digits n) = n"
proof (induction n rule: show_digits.induct)
  case (1 n)
  show ?case
  proof (cases "n < 10")
    case True
    with "1.prems" show ?thesis by (simp add: show_digits.simps [of n] int_of_digits_def)
  next
    case False
    with "1.IH" show ?thesis by (simp add: show_digits.simps [of n])
  qed
qed

lemma int_of_digits_show_int [simp]: "0 \<le> n \<Longrightarrow> int_of_digits (show_int n) = n"
  by (simp add: show_int_def int_of_digits_show_digits)

lemma show_digits_digits: "c \<in> set (show_digits n) \<Longrightarrow> 0 \<le> n \<Longrightarrow> is_digit c"
proof (induction n rule: show_digits.induct)
  case (1 n)
  then show ?case
    by (cases "n < 10") (auto simp: show_digits.simps [of n])
qed

lemma show_int_chars: "c \<in> set (show_int n) \<Longrightarrow> is_digit c \<or> c = CHR ''-''"
  using show_digits_digits [of c n] show_digits_digits [of c "- n"] by (auto simp: show_int_def split: if_splits)

lemma list_all_show_int: "0 \<le> n \<Longrightarrow> list_all is_digit (show_int n)"
  by (auto simp: list_all_iff show_int_def dest: show_digits_digits)

lemma show_int_nonempty [simp]: "show_int n \<noteq> []"
  by (simp add: show_int_def) (subst show_digits.simps, simp)

lemma show_int_inj: "0 \<le> m \<Longrightarrow> 0 \<le> n \<Longrightarrow> show_int m = show_int n \<longleftrightarrow> m = n"
  by (metis int_of_digits_show_int)

lemma int_of_digits_zeros [simp]: "int_of_digits (replicate k (CHR ''0'') @ s) = int_of_digits s"
proof (induction s rule: rev_induct)
  case Nil
  then show ?case by (induction k) (simp_all add: int_of_digits_def digit_val_def code_def)
next
  case (snoc c s)
  then show ?case by (metis append_assoc int_of_digits_snoc)
qed

lemma int_of_digits_pad [simp]: "0 \<le> n \<Longrightarrow> int_of_digits (pad w n) = n"
  by (simp add: pad_def)

lemma zero_is_digit [simp]: "is_digit (CHR ''0'')"
  by (simp add: is_digit_def code_def)

lemma list_all_pad: "0 \<le> n \<Longrightarrow> list_all is_digit (pad w n)"
  using list_all_show_int [of n] by (auto simp: pad_def list_all_iff)

lemma length_show_digits_le: "n < 10 ^ w \<Longrightarrow> 0 < w \<Longrightarrow> length (show_digits n) \<le> w"
proof (induction n arbitrary: w rule: show_digits.induct)
  case (1 n)
  show ?case
  proof (cases "n < 10")
    case True
    with "1.prems" show ?thesis by (simp add: show_digits.simps [of n])
  next
    case False
    then have "w \<noteq> 1" using "1.prems" by auto
    with "1.prems" obtain v where v: "w = Suc v" "0 < v" by (cases w) auto
    with False "1.prems"(1) have "n div 10 < 10 ^ v" by simp
    with False "1.IH" v show ?thesis by (simp add: show_digits.simps [of n])
  qed
qed

lemma length_pad: "0 \<le> n \<Longrightarrow> n < 10 ^ w \<Longrightarrow> 0 < w \<Longrightarrow> length (pad w n) = w"
  using length_show_digits_le [of n w] by (simp add: pad_def show_int_def)

subsection \<open>String methods\<close>

definition strip :: "string \<Rightarrow> string" where
  "strip s = rev (dropWhile is_space (rev (dropWhile is_space s)))"

text \<open>\<open>s.split(c)\<close> at a single separator character; always at least one part.\<close>

fun split_on :: "char \<Rightarrow> string \<Rightarrow> string list" where
  "split_on c [] = [[]]"
| "split_on c (x # xs) =
     (if x = c then [] # split_on c xs
      else (case split_on c xs of [] \<Rightarrow> [[x]] | w # ws \<Rightarrow> (x # w) # ws))"

text \<open>\<open>s.split()\<close>: maximal runs of non-space characters.\<close>

function split_ws :: "string \<Rightarrow> string list" where
  "split_ws [] = []"
| "split_ws (x # xs) =
     (if is_space x then split_ws xs
      else (x # takeWhile (\<lambda>c. \<not> is_space c) xs) # split_ws (dropWhile (\<lambda>c. \<not> is_space c) xs))"
  by pat_completeness auto
termination
  by (relation "measure length") (auto simp: less_Suc_eq_le length_dropWhile_le)

definition startswith :: "string \<Rightarrow> string \<Rightarrow> bool" where
  "startswith s pre = prefix pre s"

definition endswith :: "string \<Rightarrow> string \<Rightarrow> bool" where
  "endswith s suf = suffix suf s"

text \<open>Python's \<open>sub in s\<close>.\<close>

fun str_in :: "string \<Rightarrow> string \<Rightarrow> bool" where
  "str_in sub [] = (sub = [])"
| "str_in sub (c # cs) = (prefix sub (c # cs) \<or> str_in sub cs)"

lemma str_in_sublist: "str_in sub s \<longleftrightarrow> sublist sub s"
  by (induction sub s rule: str_in.induct) (auto simp: sublist_Cons_right)

lemma split_on_nonempty [simp]: "split_on c s \<noteq> []"
  by (induction s) (auto split: list.splits)

lemma split_on_no_sep: "c \<notin> set s \<Longrightarrow> split_on c s = [s]"
  by (induction s) auto

lemma split_on_append: "c \<notin> set s \<Longrightarrow> split_on c (s @ c # t) = s # split_on c t"
  by (induction s) auto

lemma strip_no_space:
  assumes "\<And>c. c \<in> set s \<Longrightarrow> \<not> is_space c"
  shows "strip s = s"
proof -
  have "dropWhile is_space s = s" "dropWhile is_space (rev s) = rev s"
    using assms by (cases "s = []"; simp add: dropWhile_eq_self_iff hd_rev)+
  then show ?thesis by (simp add: strip_def)
qed

subsection \<open>Dictionaries\<close>

type_synonym ('k, 'v) dict = "('k \<times> 'v) list"

definition dict_keys :: "('k, 'v) dict \<Rightarrow> 'k list" where
  "dict_keys d = map fst d"

definition dict_values :: "('k, 'v) dict \<Rightarrow> 'v list" where
  "dict_values d = map snd d"

definition dict_get :: "('k, 'v) dict \<Rightarrow> 'k \<Rightarrow> 'v \<Rightarrow> 'v" where
  "dict_get d k v = (case map_of d k of None \<Rightarrow> v | Some w \<Rightarrow> w)"

definition wf_dict :: "('k, 'v) dict \<Rightarrow> bool" where
  "wf_dict d \<longleftrightarrow> distinct (map fst d)"

text \<open>\<open>d[k] += n\<close> on a \<open>defaultdict(int)\<close> or a \<open>Counter\<close>.\<close>

definition bump_by :: "('k, 'v::comm_monoid_add) dict \<Rightarrow> 'k \<Rightarrow> 'v \<Rightarrow> ('k, 'v) dict" where
  "bump_by d k n = AList.update k (dict_get d k 0 + n) d"

definition bump :: "('k, nat) dict \<Rightarrow> 'k \<Rightarrow> ('k, nat) dict" where
  "bump d k = bump_by d k 1"

text \<open>\<open>d.setdefault(k, []).append(v)\<close>.\<close>

definition push :: "('k, 'v list) dict \<Rightarrow> 'k \<Rightarrow> 'v \<Rightarrow> ('k, 'v list) dict" where
  "push d k v = AList.update k (dict_get d k [] @ [v]) d"

lemma wf_dict_Nil [simp]: "wf_dict []"
  by (simp add: wf_dict_def)

lemma wf_dict_update [simp]: "wf_dict d \<Longrightarrow> wf_dict (AList.update k v d)"
  by (simp add: wf_dict_def distinct_update)

lemma wf_dict_bump_by [simp]: "wf_dict d \<Longrightarrow> wf_dict (bump_by d k n)"
  by (simp add: bump_by_def)

lemma wf_dict_push [simp]: "wf_dict d \<Longrightarrow> wf_dict (push d k v)"
  by (simp add: push_def)

lemma dict_get_update [dict_simps]:
  "dict_get (AList.update k v d) j w = (if j = k then v else dict_get d j w)"
  by (simp add: dict_get_def update_conv')

lemma dict_get_bump_by [dict_simps]:
  "dict_get (bump_by d k n) j 0 = dict_get d j 0 + (if j = k then n else 0)"
  by (simp add: bump_by_def dict_simps)

lemma dict_get_bump [dict_simps]:
  "dict_get (bump d k) j 0 = dict_get d j 0 + (if j = k then 1 else 0)"
  by (simp add: bump_def dict_simps)

lemma wf_dict_bump [simp]: "wf_dict d \<Longrightarrow> wf_dict (bump d k)"
  by (simp add: bump_def)

lemma dict_get_push [dict_simps]:
  "dict_get (push d k v) j [] = dict_get d j [] @ (if j = k then [v] else [])"
  by (simp add: push_def dict_simps)

lemma dict_get_Nil [simp]: "dict_get [] k v = v"
  by (simp add: dict_get_def)

lemma set_keys_update: "fst ` set (AList.update k v d) = insert k (fst ` set d)"
  by (induction d) auto

lemma set_keys_bump_by: "fst ` set (bump_by d k n) = insert k (fst ` set d)"
  by (simp add: bump_by_def set_keys_update)

lemma sum_values_update:
  "wf_dict d \<Longrightarrow> sum_list (map snd (AList.update k (v :: 'v::comm_monoid_add) d)) + dict_get d k 0
     = sum_list (map snd d) + v"
proof (induction d)
  case Nil
  then show ?case by simp
next
  case (Cons p d)
  obtain j w where p: "p = (j, w)" by force
  show ?case
  proof (cases "j = k")
    case True
    with p show ?thesis by (simp add: dict_get_def ac_simps)
  next
    case False
    with p Cons show ?thesis by (simp add: dict_get_def wf_dict_def ac_simps)
  qed
qed

lemma sum_values_bump_by:
  "wf_dict d \<Longrightarrow> sum_list (map snd (bump_by d k n)) = sum_list (map snd d) + (n :: 'v::cancel_comm_monoid_add)"
proof -
  assume "wf_dict d"
  from sum_values_update [OF this, of k "dict_get d k 0 + n"]
  have "sum_list (map snd (bump_by d k n)) + dict_get d k 0 = (sum_list (map snd d) + n) + dict_get d k 0"
    by (simp add: bump_by_def ac_simps)
  then show ?thesis by (rule add_right_imp_eq)
qed

lemma dict_get_mem: "wf_dict d \<Longrightarrow> (k, v) \<in> set d \<Longrightarrow> dict_get d k w = v"
  by (simp add: wf_dict_def dict_get_def)

text \<open>Every dictionary entry is positive once only positive amounts were added.\<close>

definition positive_dict :: "('k, nat) dict \<Rightarrow> bool" where
  "positive_dict d \<longleftrightarrow> (\<forall>(k, v) \<in> set d. 0 < v)"

lemma set_update_subset: "set (AList.update k v d) \<subseteq> insert (k, v) (set d)"
  by (induction d) auto

lemma positive_dict_bump: "positive_dict d \<Longrightarrow> 0 < n \<Longrightarrow> positive_dict (bump_by d k n)"
  unfolding positive_dict_def bump_by_def
  by (rule ballI, drule set_update_subset [THEN subsetD]) auto

subsection \<open>The counter interface\<close>

text \<open>
  What \<open>Counter\<close> and \<open>defaultdict(int)\<close> promise to their clients: a lookup after an
  increment. Counting a list of keys is proved once, from these laws.
\<close>

locale counter =
  fixes empty :: 'c
    and inc :: "'c \<Rightarrow> 'k \<Rightarrow> 'c"
    and look :: "'c \<Rightarrow> 'k \<Rightarrow> nat"
    and total :: "'c \<Rightarrow> nat"
    and invar :: "'c \<Rightarrow> bool"
  assumes look_empty: "look empty k = 0"
    and look_inc: "invar c \<Longrightarrow> look (inc c k) j = look c j + (if j = k then 1 else 0)"
    and total_empty: "total empty = 0"
    and total_inc: "invar c \<Longrightarrow> total (inc c k) = Suc (total c)"
    and invar_empty: "invar empty"
    and invar_inc: "invar c \<Longrightarrow> invar (inc c k)"
begin

lemma invar_foldl: "invar c \<Longrightarrow> invar (foldl inc c ks)"
  by (induction ks arbitrary: c) (auto simp: invar_inc)

lemma look_foldl: "invar c \<Longrightarrow> look (foldl inc c ks) j = look c j + count_list ks j"
  by (induction ks arbitrary: c) (auto simp: invar_inc look_inc)

lemma total_foldl: "invar c \<Longrightarrow> total (foldl inc c ks) = total c + length ks"
  by (induction ks arbitrary: c) (auto simp: invar_inc total_inc)

lemma look_count: "look (foldl inc empty ks) j = count_list ks j"
  by (simp add: look_foldl invar_empty look_empty)

lemma total_count: "total (foldl inc empty ks) = length ks"
  by (simp add: total_foldl invar_empty total_empty)

end

interpretation dict_counter: counter "[]" bump "\<lambda>d k. dict_get d k 0" "\<lambda>d. sum_list (map snd d)" wf_dict
  by unfold_locales (auto simp: dict_simps sum_values_bump_by bump_def)

text \<open>The keys of a counter are the counted elements.\<close>

lemma keys_foldl_bump: "fst ` set (foldl bump d ks) = fst ` set d \<union> set ks"
  by (induction ks arbitrary: d) (auto simp: set_keys_bump_by bump_def)

subsection \<open>Sorting dictionaries by key\<close>

lemma wf_dict_sort [simp]: "wf_dict d \<Longrightarrow> wf_dict (sort d)"
  by (simp add: wf_dict_def distinct_map)

lemma dict_get_sort: "wf_dict d \<Longrightarrow> dict_get (sort d) k v = dict_get d k v"
proof -
  assume d: "wf_dict d"
  then have "map_of (sort d) = map_of d"
    using wf_dict_sort [OF d] by (intro map_of_inject_set [THEN iffD2]) (auto simp: wf_dict_def)
  then show ?thesis by (simp add: dict_get_def)
qed

lemma sorted_keys_sort: "sorted (map fst (sort d))" for d :: "('k::linorder \<times> 'v::linorder) list"
  unfolding sorted_map by (rule sorted_wrt_mono_rel [OF _ sorted_sort]) (auto simp: less_eq_prod_def)

lemma sum_list_sort: "sum_list (map snd (sort d)) = sum_list (map snd (d :: ('k::linorder \<times> nat) list))"
  by (metis mset_map mset_sort sum_mset_sum_list)

text \<open>Storing the pairs of a list with distinct keys one after the other rebuilds the list.\<close>

text \<open>
  \<open>max(d, key=d.get)\<close> and \<open>counter.most_common(1)[0]\<close>: the first item, in insertion order,
  with the largest value.
\<close>

fun max_item :: "('k \<times> 'v::linorder) list \<Rightarrow> ('k \<times> 'v) option" where
  "max_item [] = None"
| "max_item (p # ps) = (case max_item ps of None \<Rightarrow> Some p
     | Some q \<Rightarrow> if snd p < snd q then Some q else Some p)"

lemma max_item_some: "d \<noteq> [] \<Longrightarrow> \<exists>p. max_item d = Some p"
  by (cases d) (auto split: option.splits)

lemma max_item_mem: "max_item d = Some p \<Longrightarrow> p \<in> set d"
  by (induction d arbitrary: p) (auto split: option.splits if_splits)

lemma max_item_max: "max_item d = Some p \<Longrightarrow> q \<in> set d \<Longrightarrow> snd q \<le> snd p"
proof (induction d arbitrary: p)
  case (Cons r d)
  show ?case
  proof (cases "max_item d")
    case None
    then have "d = []" using max_item_some [of d] by auto
    with Cons.prems show ?thesis by simp
  next
    case (Some m)
    from Cons.IH [OF Some] Some Cons.prems show ?thesis by (fastforce split: if_splits)
  qed
qed simp

text \<open>Nested loops are one loop.\<close>

lemma foldl_foldl: "foldl (\<lambda>s xs. foldl f s xs) s xss = foldl f s (concat xss)"
  by (induction xss arbitrary: s) simp_all

lemma map_filter_snoc [simp]:
  "List.map_filter f (xs @ [x]) = List.map_filter f xs @ (case f x of None \<Rightarrow> [] | Some y \<Rightarrow> [y])"
  by (simp add: map_filter_def split: option.splits)

lemma foldl_map_filter:
  "foldl (\<lambda>s x. case g x of None \<Rightarrow> s | Some y \<Rightarrow> f s y) s xs = foldl f s (List.map_filter g xs)"
  by (induction xs arbitrary: s) (auto simp: map_filter_def split: option.splits)

lemma fold_min_max:
  "fold min ns (n::'a::linorder) \<le> n \<and> n \<le> fold max ns n \<and> (\<forall>k \<in> set ns. fold min ns n \<le> k \<and> k \<le> fold max ns n)"
proof (induction ns arbitrary: n)
  case (Cons m ns)
  from Cons [of "min m n"] Cons [of "max m n"] show ?case by fastforce
qed simp

lemma map_of_foldl_update:
  "map_of (foldl (\<lambda>d p. AList.update (fst p) (snd p) d) d ps) = map_of d ++ map_of (rev ps)"
proof (induction ps arbitrary: d)
  case (Cons p ps)
  then show ?case by (cases p) (simp add: update_conv' map_add_upd_left fun_eq_iff map_add_def split: option.splits)
qed simp

lemma foldl_update_distinct:
  "distinct (map fst (d @ ps)) \<Longrightarrow> foldl (\<lambda>d p. AList.update (fst p) (snd p) d) d ps = d @ ps"
proof (induction ps arbitrary: d)
  case Nil
  then show ?case by simp
next
  case (Cons p ps)
  have "AList.update (fst p) (snd p) d = d @ [p]" if "fst p \<notin> fst ` set d" for d :: "('a \<times> 'b) list"
    using that by (induction d) auto
  with Cons show ?case by simp
qed

subsection \<open>\<open>int(s)\<close> on any string\<close>

text \<open>
  Surrounding space, one sign and single underscores between digits are accepted; anything
  else is a ValueError.
\<close>

definition digits_ok :: "string \<Rightarrow> bool" where
  "digits_ok s \<longleftrightarrow> list_all (\<lambda>w. w \<noteq> [] \<and> list_all is_digit w) (split_on (CHR ''_'') s)"

definition py_int :: "string \<Rightarrow> int res" where
  "py_int s =
     (let t = strip s; neg = (t \<noteq> [] \<and> hd t = CHR ''-'');
          u = (if t \<noteq> [] \<and> (hd t = CHR ''-'' \<or> hd t = CHR ''+'') then tl t else t)
      in if digits_ok u
         then Inr ((if neg then -1 else 1) * int_of_digits (filter is_digit u)) else Inl ValueError)"

lemma digit_chars: "is_digit c \<Longrightarrow> c \<noteq> CHR ''_'' \<and> c \<noteq> CHR ''-'' \<and> c \<noteq> CHR ''+'' \<and> c \<noteq> CHR '','' \<and> c \<noteq> newline
    \<and> c \<noteq> CHR 0x0D \<and> c \<noteq> CHR ''|'' \<and> c \<noteq> CHR ''<''"
  by (auto simp: is_digit_def code_def)

lemma py_int_digits:
  assumes "list_all is_digit s" "s \<noteq> []"
  shows "py_int s = Inr (int_of_digits s)"
proof -
  have d: "\<And>c. c \<in> set s \<Longrightarrow> is_digit c" using assms(1) by (simp add: list_all_iff)
  then have "strip s = s" by (intro strip_no_space is_digit_not_space)
  moreover have "hd s \<noteq> CHR ''-''" "hd s \<noteq> CHR ''+''"
    using d [of "hd s"] assms(2) digit_chars by auto
  moreover have "digits_ok s"
    using assms d digit_chars by (subst digits_ok_def, subst split_on_no_sep) auto
  moreover have "filter is_digit s = s" using assms(1) by (simp add: filter_id_conv list_all_iff)
  ultimately show ?thesis by (simp add: py_int_def)
qed

lemma py_int_show_int: "0 \<le> n \<Longrightarrow> py_int (show_int n) = Inr n"
  by (simp add: py_int_digits list_all_show_int)

lemma strip_show_int_newline: "0 \<le> n \<Longrightarrow> strip (show_int n @ [newline]) = show_int n"
proof -
  assume "0 \<le> n"
  then have "\<And>c. c \<in> set (show_int n) \<Longrightarrow> \<not> is_space c"
    using list_all_show_int [of n] is_digit_not_space by (auto simp: list_all_iff)
  then have "strip (show_int n) = show_int n" by (rule strip_no_space)
  moreover have "is_space newline" by (simp add: is_space_def code_def)
  ultimately show ?thesis by (simp add: strip_def dropWhile_append) (metis \<open>\<And>c. c \<in> set (show_int n) \<Longrightarrow> \<not> is_space c\<close> dropWhile_eq_self_iff hd_in_set show_int_nonempty)
qed

subsection \<open>Loops that may raise\<close>

fun res_fold :: "('s \<Rightarrow> 'a \<Rightarrow> 's res) \<Rightarrow> 'a list \<Rightarrow> 's \<Rightarrow> 's res" where
  "res_fold f [] s = Inr s"
| "res_fold f (x # xs) s = bind_res (f s x) (res_fold f xs)"

lemma res_fold_append: "res_fold f (xs @ ys) s = bind_res (res_fold f xs s) (res_fold f ys)"
  by (induction xs arbitrary: s) (auto simp: bind_res_def split: sum.splits)

lemma res_fold_concat: "res_fold (\<lambda>s xs. res_fold f xs s) xss s = res_fold f (concat xss) s"
  by (induction xss arbitrary: s) (auto simp: res_fold_append bind_res_def split: sum.splits)

lemma sort_key_Nil_iff: "sort_key f xs = [] \<longleftrightarrow> xs = []"
  by (metis set_empty set_sort)

subsection \<open>Grouping\<close>

text \<open>A loop that files what it keeps of its items under keys, with \<open>setdefault(key, []).append(value)\<close>.\<close>

definition pushes :: "('a \<Rightarrow> ('k \<times> 'v) option) \<Rightarrow> 'a list \<Rightarrow> ('k, 'v list) dict" where
  "pushes f xs = foldl (\<lambda>d x. case f x of None \<Rightarrow> d | Some (k, v) \<Rightarrow> push d k v) [] xs"

definition filed :: "('a \<Rightarrow> ('k \<times> 'v) option) \<Rightarrow> 'k \<Rightarrow> 'a list \<Rightarrow> 'v list" where
  "filed f k xs = map snd (filter (\<lambda>p. fst p = k) (List.map_filter f xs))"

lemma pushes_snoc: "pushes f (xs @ [x]) = (case f x of None \<Rightarrow> pushes f xs | Some (k, v) \<Rightarrow> push (pushes f xs) k v)"
  by (simp add: pushes_def split: option.splits)

lemma filed_snoc: "filed f k (xs @ [x]) = filed f k xs @ (case f x of None \<Rightarrow> [] | Some (j, v) \<Rightarrow> if j = k then [v] else [])"
  by (simp add: filed_def split: option.splits)

lemma filed_Nil [simp]: "filed f k [] = []"
  by (simp add: filed_def map_filter_def)

lemma filed_mem: "x \<in> set xs \<Longrightarrow> f x = Some (k, v) \<Longrightarrow> v \<in> set (filed f k xs)"
proof (induction xs rule: rev_induct)
  case (snoc y xs)
  then show ?case by (cases "f y") (auto simp: filed_snoc split: prod.splits)
qed simp

lemma wf_dict_pushes [simp]: "wf_dict (pushes f xs)"
proof (induction xs rule: rev_induct)
  case Nil
  then show ?case by (simp add: pushes_def)
next
  case (snoc x xs)
  then show ?case by (auto simp: pushes_snoc split: option.splits prod.splits)
qed

lemma map_of_pushes: "map_of (pushes f xs) k = (if filed f k xs = [] then None else Some (filed f k xs))"
proof (induction xs arbitrary: k rule: rev_induct)
  case Nil
  then show ?case by (simp add: pushes_def filed_def map_filter_def)
next
  case (snoc x xs)
  show ?case
  proof (cases "f x")
    case None
    with snoc show ?thesis by (simp add: pushes_snoc filed_snoc)
  next
    case (Some p)
    obtain j v where "p = (j, v)" by (cases p)
    moreover have "dict_get (pushes f xs) j [] = filed f j xs" using snoc [of j] by (simp add: dict_get_def)
    ultimately show ?thesis using snoc [of k] Some by (simp add: pushes_snoc filed_snoc push_def update_conv')
  qed
qed

lemma pushes_mem: "(k, vs) \<in> set (pushes f xs) \<longleftrightarrow> vs = filed f k xs \<and> vs \<noteq> []"
proof -
  have "distinct (map fst (pushes f xs))" using wf_dict_pushes [of f xs] unfolding wf_dict_def .
  then have "(k, vs) \<in> set (pushes f xs) \<longleftrightarrow> map_of (pushes f xs) k = Some vs" by (metis map_of_SomeD map_of_is_SomeI)
  then show ?thesis by (auto simp: map_of_pushes)
qed

lemma mset_push:
  "mset (concat (map snd (push d k v))) = add_mset v (mset (concat (map snd d)))"
proof -
  have "mset (concat (map snd (AList.update k (dict_get d k [] @ [v]) d))) = add_mset v (mset (concat (map snd d)))"
    by (induction d) (auto simp: dict_get_def split: option.splits)
  then show ?thesis by (simp add: push_def)
qed

lemma mset_pushes: "mset (concat (map snd (pushes f xs))) = mset (map snd (List.map_filter f xs))"
proof (induction xs rule: rev_induct)
  case Nil
  then show ?case by (simp add: pushes_def map_filter_def)
next
  case (snoc x xs)
  then show ?case by (auto simp: pushes_snoc mset_push split: option.splits)
qed

text \<open>Filing the items themselves under a computed key.\<close>

lemma filed_self: "filed (\<lambda>x. map_option (\<lambda>p. (fst p, x)) (g x)) k xs = filter (\<lambda>x. map_option fst (g x) = Some k) xs"
proof (induction xs rule: rev_induct)
  case (snoc x xs)
  then show ?case by (cases "g x") (auto simp: filed_snoc)
qed (simp add: filed_def map_filter_def)

lemma map_filter_self: "map snd (List.map_filter (\<lambda>x. map_option (\<lambda>p. (fst p, x)) (g x)) xs) = filter (\<lambda>x. g x \<noteq> None) xs"
proof (induction xs rule: rev_induct)
  case (snoc x xs)
  then show ?case by (cases "g x") simp_all
qed (simp add: map_filter_def)

end
