(* ===== verification/Py_Regex.thy ===== *)
theory Py_Regex
  imports Py_Prelude
begin

text \<open>
  Python's \<open>re\<close> as far as the scripts use it: a backtracking matcher over patterns built from
  character classes, sequence, alternation, greedy and lazy repetition, numbered groups and the
  anchors \<open>^\<close>, \<open>$\<close>, \<open>\b\<close>. \<open>rms\<close> lists the ways a pattern can match at a
  position in Python's priority order, so its first element is the match Python reports.
  \<open>rxm\<close> is the declarative reading of the same pattern language, and \<open>rms_iff\<close> shows
  that the matcher lists exactly the matches there are.
\<close>

datatype regex =
    Eps
  | Sym "char \<Rightarrow> bool"
  | Cat regex regex
  | Alt regex regex
  | Star regex
  | LStar regex
  | Cap nat regex
  | Bos
  | Eos
  | Wordb

type_synonym caps = "(nat \<times> string) list"

text \<open>A position: the character before it, the rest of the string, the groups so far.\<close>

type_synonym pos = "char option \<times> string \<times> caps"

abbreviation rest :: "pos \<Rightarrow> string" where "rest x \<equiv> fst (snd x)"
abbreviation groups :: "pos \<Rightarrow> caps" where "groups x \<equiv> snd (snd x)"

text \<open>\<open>$\<close> without MULTILINE: at the end, or before a newline that ends the string.\<close>

definition at_end :: "string \<Rightarrow> bool" where
  "at_end s \<longleftrightarrow> s = [] \<or> s = [newline]"

definition at_wordb :: "char option \<Rightarrow> string \<Rightarrow> bool" where
  "at_wordb p s \<longleftrightarrow>
     (case p of None \<Rightarrow> False | Some c \<Rightarrow> is_word c) \<noteq> (case s of [] \<Rightarrow> False | c # _ \<Rightarrow> is_word c)"

fun step_sym :: "(char \<Rightarrow> bool) \<Rightarrow> pos \<Rightarrow> pos list" where
  "step_sym P (p, [], g) = []"
| "step_sym P (p, c # cs, g) = (if P c then [(Some c, cs, g)] else [])"

definition close_group :: "nat \<Rightarrow> string \<Rightarrow> pos \<Rightarrow> pos" where
  "close_group n s y = (fst y, rest y, (n, take (length s - length (rest y)) s) # groups y)"

function rms :: "regex \<Rightarrow> pos \<Rightarrow> pos list" where
  "rms Eps x = [x]"
| "rms (Sym P) x = step_sym P x"
| "rms (Cat r q) x = concat (map (rms q) (rms r x))"
| "rms (Alt r q) x = rms r x @ rms q x"
| "rms (Star r) x =
     concat (map (\<lambda>y. if length (rest y) < length (rest x) then rms (Star r) y else []) (rms r x)) @ [x]"
| "rms (LStar r) x =
     x # concat (map (\<lambda>y. if length (rest y) < length (rest x) then rms (LStar r) y else []) (rms r x))"
| "rms (Cap n r) x = map (close_group n (rest x)) (rms r x)"
| "rms Bos x = (if fst x = None then [x] else [])"
| "rms Eos x = (if at_end (rest x) then [x] else [])"
| "rms Wordb x = (if at_wordb (fst x) (rest x) then [x] else [])"
  by pat_completeness auto
termination
  by (relation "measures [\<lambda>(r, x). size r, \<lambda>(r, x). length (rest x)]") auto

declare rms.simps(5,6) [simp del]

subsection \<open>The functions of the module\<close>

definition first_match :: "pos list \<Rightarrow> caps option" where
  "first_match ys = (case ys of [] \<Rightarrow> None | y # _ \<Rightarrow> Some (groups y))"

fun rsearch_from :: "regex \<Rightarrow> char option \<Rightarrow> string \<Rightarrow> caps option" where
  "rsearch_from r p [] = first_match (rms r (p, [], []))"
| "rsearch_from r p (c # cs) =
     (case first_match (rms r (p, c # cs, [])) of
        Some g \<Rightarrow> Some g
      | None \<Rightarrow> rsearch_from r (Some c) cs)"

definition re_search :: "regex \<Rightarrow> string \<Rightarrow> caps option" where
  "re_search r s = rsearch_from r None s"

definition re_match :: "regex \<Rightarrow> string \<Rightarrow> caps option" where
  "re_match r s = first_match (rms r (None, s, []))"

definition group :: "caps \<Rightarrow> nat \<Rightarrow> string" where
  "group g n = (case map_of g n of None \<Rightarrow> [] | Some w \<Rightarrow> w)"

subsection \<open>Pattern abbreviations\<close>

primrec lit :: "string \<Rightarrow> regex" where
  "lit [] = Eps"
| "lit (c # cs) = Cat (Sym (\<lambda>x. x = c)) (lit cs)"

definition lower :: "char \<Rightarrow> char" where
  "lower c = (if 65 \<le> code c \<and> code c \<le> 90 then char_of (code c + 32) else c)"

text \<open>A literal under \<open>re.IGNORECASE\<close>.\<close>

primrec lit_ci :: "string \<Rightarrow> regex" where
  "lit_ci [] = Eps"
| "lit_ci (c # cs) = Cat (Sym (\<lambda>x. lower x = lower c)) (lit_ci cs)"

primrec rseq :: "regex list \<Rightarrow> regex" where
  "rseq [] = Eps"
| "rseq (r # rs) = Cat r (rseq rs)"

primrec rep :: "nat \<Rightarrow> regex \<Rightarrow> regex" where
  "rep 0 r = Eps"
| "rep (Suc n) r = Cat r (rep n r)"

definition plus :: "regex \<Rightarrow> regex" where
  "plus r = Cat r (Star r)"

definition ropt :: "regex \<Rightarrow> regex" where
  "ropt r = Alt r Eps"

definition rdigit :: regex where "rdigit = Sym is_digit"
definition rspace :: regex where "rspace = Sym is_space"
definition rnonspace :: regex where "rnonspace = Sym (\<lambda>c. \<not> is_space c)"
definition rdot :: regex where "rdot = Sym (\<lambda>c. c \<noteq> newline)"
definition rnumber :: regex where "rnumber = Sym (\<lambda>c. is_digit c \<or> c = CHR ''.'')"

lemmas regex_defs = plus_def ropt_def rdigit_def rspace_def rnonspace_def rdot_def rnumber_def

subsection \<open>What a pattern matches\<close>

inductive rxm :: "regex \<Rightarrow> pos \<Rightarrow> pos \<Rightarrow> bool" where
  Eps: "rxm Eps x x"
| Sym: "P c \<Longrightarrow> rxm (Sym P) (p, c # cs, g) (Some c, cs, g)"
| Cat: "rxm r x y \<Longrightarrow> rxm q y z \<Longrightarrow> rxm (Cat r q) x z"
| AltL: "rxm r x y \<Longrightarrow> rxm (Alt r q) x y"
| AltR: "rxm q x y \<Longrightarrow> rxm (Alt r q) x y"
| Star_stop: "rxm (Star r) x x"
| Star_more: "rxm r (p, s, g) (p', s', g') \<Longrightarrow> length s' < length s \<Longrightarrow>
    rxm (Star r) (p', s', g') z \<Longrightarrow> rxm (Star r) (p, s, g) z"
| LStar_stop: "rxm (LStar r) x x"
| LStar_more: "rxm r (p, s, g) (p', s', g') \<Longrightarrow> length s' < length s \<Longrightarrow>
    rxm (LStar r) (p', s', g') z \<Longrightarrow> rxm (LStar r) (p, s, g) z"
| Cap: "rxm r (p, s, g) (p', s', g') \<Longrightarrow>
    rxm (Cap n r) (p, s, g) (p', s', (n, take (length s - length s') s) # g')"
| Bos: "rxm Bos (None, s, g) (None, s, g)"
| Eos: "at_end s \<Longrightarrow> rxm Eos (p, s, g) (p, s, g)"
| Wordb: "at_wordb p s \<Longrightarrow> rxm Wordb (p, s, g) (p, s, g)"

inductive_simps rxm_simps [simp]:
  "rxm Eps x y" "rxm (Sym P) x y" "rxm (Cat r q) x y" "rxm (Alt r q) x y" "rxm Bos x y"
  "rxm Eos x y" "rxm Wordb x y"

inductive_simps rxm_Cap [simp]: "rxm (Cap n r) x y"

inductive_cases rxm_StarE: "rxm (Star r) x y"
inductive_cases rxm_LStarE: "rxm (LStar r) x y"

lemma rms_sound: "y \<in> set (rms r x) \<Longrightarrow> rxm r x y"
proof (induction r x arbitrary: y rule: rms.induct)
  case (2 P x)
  then show ?case by (cases "(P, x)" rule: step_sym.cases) (auto split: if_splits)
next
  case (3 r q x)
  then obtain z where z: "z \<in> set (rms r x)" "y \<in> set (rms q z)" by auto
  from rxm.Cat [OF "3.IH"(1) [OF z(1)] "3.IH"(2) [OF z]] show ?case .
next
  case (5 r x)
  obtain p s g where x: "x = (p, s, g)" by (cases x)
  from "5.prems" consider "y = x"
    | z where "z \<in> set (rms r x)" "length (rest z) < length (rest x)" "y \<in> set (rms (Star r) z)"
    by (auto simp: rms.simps(5) [of r x] split: if_splits)
  then show ?case
  proof cases
    case 1
    then show ?thesis by (simp add: rxm.Star_stop)
  next
    case (2 z)
    then show ?thesis
      using "5.IH" rxm.Star_more [of r p s g "fst z" "rest z" "groups z" y] by (simp add: x)
  qed
next
  case (6 r x)
  obtain p s g where x: "x = (p, s, g)" by (cases x)
  from "6.prems" consider "y = x"
    | z where "z \<in> set (rms r x)" "length (rest z) < length (rest x)" "y \<in> set (rms (LStar r) z)"
    by (auto simp: rms.simps(6) [of r x] split: if_splits)
  then show ?case
  proof cases
    case 1
    then show ?thesis by (simp add: rxm.LStar_stop)
  next
    case (2 z)
    then show ?thesis
      using "6.IH" rxm.LStar_more [of r p s g "fst z" "rest z" "groups z" y] by (simp add: x)
  qed
next
  case (7 n r x)
  then show ?case by (cases x) (force simp: close_group_def)
next
  case (8 x)
  then show ?case by (cases x) (auto split: if_splits)
next
  case (9 x)
  then show ?case by (cases x) (auto split: if_splits)
next
  case (10 x)
  then show ?case by (cases x) (auto split: if_splits)
qed auto

lemma rms_complete: "rxm r x y \<Longrightarrow> y \<in> set (rms r x)"
proof (induction rule: rxm.induct)
  case (Star_more r p s g p' s' g' z)
  then show ?case
    by (subst rms.simps(5)) (auto intro!: bexI [of _ "(p', s', g')"])
next
  case (LStar_more r p s g p' s' g' z)
  then show ?case
    by (subst rms.simps(6)) (auto intro!: bexI [of _ "(p', s', g')"])
next
  case (Star_stop r x)
  show ?case by (subst rms.simps(5)) simp
next
  case (LStar_stop r x)
  show ?case by (subst rms.simps(6)) simp
next
  case (Cap r p s g p' s' g' n)
  then show ?case by (force simp: close_group_def)
qed auto

lemma rms_iff: "y \<in> set (rms r x) \<longleftrightarrow> rxm r x y"
  using rms_sound rms_complete by blast

lemma first_match_sound: "first_match (rms r x) = Some g \<Longrightarrow> \<exists>p s. rxm r x (p, s, g)"
  by (cases "rms r x") (auto simp: first_match_def rms_iff [symmetric], metis list.set_intros(1) prod.collapse)

lemma first_match_complete: "rxm r x y \<Longrightarrow> first_match (rms r x) \<noteq> None"
  by (cases "rms r x") (auto simp: first_match_def rms_iff [symmetric])

text \<open>
  \<open>re.match\<close> succeeds exactly when the pattern matches at the start, and \<open>re.search\<close>
  exactly when it matches at some position.
\<close>

definition prev_char :: "string \<Rightarrow> char option" where
  "prev_char u = (if u = [] then None else Some (last u))"

lemma re_match_sound: "re_match r s = Some g \<Longrightarrow> \<exists>p' s'. rxm r (None, s, []) (p', s', g)"
  unfolding re_match_def by (rule first_match_sound)

lemma re_match_iff: "re_match r s \<noteq> None \<longleftrightarrow> (\<exists>y. rxm r (None, s, []) y)"
  using re_match_sound [of r s] first_match_complete [of r "(None, s, [])"] unfolding re_match_def by blast

lemma rsearch_from_sound:
  "rsearch_from r p s = Some g \<Longrightarrow>
     \<exists>u t p' s'. s = u @ t \<and> rxm r (if u = [] then p else prev_char u, t, []) (p', s', g)"
proof (induction s arbitrary: p)
  case Nil
  then show ?case by (auto dest: first_match_sound)
next
  case (Cons c cs)
  show ?case
  proof (cases "first_match (rms r (p, c # cs, []))")
    case None
    with Cons.prems Cons.IH [of "Some c"] obtain u t p' s'
      where "cs = u @ t" "rxm r (if u = [] then Some c else prev_char u, t, []) (p', s', g)"
      by auto
    then show ?thesis
      by (intro exI [of _ "c # u"] exI [of _ t]) (auto simp: prev_char_def split: if_splits)
  next
    case (Some h)
    then obtain p' s' where "rxm r (p, c # cs, []) (p', s', h)"
      using first_match_sound by blast
    with Cons.prems Some show ?thesis
      by (intro exI [of _ "[]"] exI [of _ "c # cs"] exI) auto
  qed
qed

lemma rsearch_from_complete:
  "rxm r (if u = [] then p else prev_char u, t, []) y \<Longrightarrow> rsearch_from r p (u @ t) \<noteq> None"
proof (induction u arbitrary: p)
  case Nil
  then have "first_match (rms r (p, t, [])) \<noteq> None"
    by (intro first_match_complete) simp
  then show ?case by (cases t) (auto split: option.splits)
next
  case (Cons c u)
  then have "rxm r (if u = [] then Some c else prev_char u, t, []) y"
    by (auto simp: prev_char_def split: if_splits)
  from Cons.IH [OF this] show ?case by (auto split: option.splits)
qed

lemma re_search_sound:
  "re_search r s = Some g \<Longrightarrow> \<exists>u t p' s'. s = u @ t \<and> rxm r (prev_char u, t, []) (p', s', g)"
  unfolding re_search_def by (drule rsearch_from_sound) (auto simp: prev_char_def split: if_splits)

lemma re_search_iff:
  "re_search r s \<noteq> None \<longleftrightarrow> (\<exists>u t y. s = u @ t \<and> rxm r (prev_char u, t, []) y)"
proof
  assume "re_search r s \<noteq> None"
  then show "\<exists>u t y. s = u @ t \<and> rxm r (prev_char u, t, []) y"
    using re_search_sound by fastforce
next
  assume "\<exists>u t y. s = u @ t \<and> rxm r (prev_char u, t, []) y"
  then obtain u t y where "s = u @ t" "rxm r (prev_char u, t, []) y" by blast
  then show "re_search r s \<noteq> None"
    using rsearch_from_complete [of r u None t y]
    by (auto simp: re_search_def prev_char_def split: if_splits)
qed

subsection \<open>Literals, repetitions of a class and counted repetitions\<close>

lemma rxm_lit:
  "rxm (lit w) (p, s, g) y \<longleftrightarrow>
     (\<exists>t. s = w @ t \<and> y = (if w = [] then p else Some (last w), t, g))"
  by (induction w arbitrary: p s) auto

lemma rxm_star_sym:
  assumes "rxm (Star (Sym P)) (p, s, g) (p', s', g')"
  shows "\<exists>w. s = w @ s' \<and> list_all P w \<and> g' = g"
proof -
  have "rxm r x y \<Longrightarrow> r = Star (Sym P) \<Longrightarrow>
      \<exists>w. fst (snd x) = w @ fst (snd y) \<and> list_all P w \<and> snd (snd y) = snd (snd x)" for r x y
  proof (induction rule: rxm.induct)
    case (Star_more r p s g p' s' g' z)
    then obtain c where "s = c # s'" "P c" "g' = g" by auto
    moreover from Star_more obtain w
      where "s' = w @ fst (snd z)" "list_all P w" "snd (snd z) = g'" by auto
    ultimately show ?case by (intro exI [of _ "c # w"]) auto
  qed auto
  from this [OF assms] show ?thesis by simp
qed

lemma rxm_plus_sym:
  "rxm (plus (Sym P)) (p, s, g) (p', s', g') \<Longrightarrow>
     \<exists>w. s = w @ s' \<and> w \<noteq> [] \<and> list_all P w \<and> g' = g"
  by (force simp: plus_def dest!: rxm_star_sym)

lemma rxm_rep_sym:
  "rxm (rep n (Sym P)) (p, s, g) (p', s', g') \<Longrightarrow>
     \<exists>w. s = w @ s' \<and> length w = n \<and> list_all P w \<and> g' = g"
proof (induction n arbitrary: p s)
  case (Suc n)
  then obtain c cs where "s = c # cs" "P c" "rxm (rep n (Sym P)) (Some c, cs, g) (p', s', g')"
    by auto
  with Suc.IH [OF this(3)] show ?case by (metis append_Cons length_Cons list.pred_inject(2))
qed auto

text \<open>Every match consumes a prefix of what is left of the string.\<close>

lemma rxm_suffix: "rxm r x y \<Longrightarrow> suffix (fst (snd y)) (fst (snd x))"
  by (induction rule: rxm.induct) (auto intro: suffix_order.trans simp: suffix_ConsI)

lemma rxm_cap_taken:
  "rxm r (p, w @ s', g) (p', s', g') \<Longrightarrow> take (length (w @ s') - length s') (w @ s') = w"
  by simp

text \<open>A literal search is Python's \<open>in\<close>.\<close>

lemma re_search_lit: "re_search (lit w) s \<noteq> None \<longleftrightarrow> str_in w s"
  unfolding re_search_iff rxm_lit str_in_sublist sublist_def by auto

text \<open>Every literal of a sequence occurs in a string that the sequence matches.\<close>

lemma rxm_Cat_lit_infix:
  assumes "rxm (Cat r (Cat (lit w) q)) (p, s, g) y"
  shows "sublist w s"
proof -
  from assms obtain p1 s1 g1 p2 s2 g2 where
    1: "rxm r (p, s, g) (p1, s1, g1)" and 2: "rxm (lit w) (p1, s1, g1) (p2, s2, g2)" by auto
  from rxm_suffix [OF 1] have "suffix s1 s" by simp
  moreover from 2 have "prefix w s1" by (auto simp: rxm_lit)
  ultimately show ?thesis by (metis prefix_imp_sublist suffix_imp_sublist sublist_order.order_trans)
qed

lemma rxm_rseq_lit: "rxm (rseq rs) (p, s, g) y \<Longrightarrow> lit w \<in> set rs \<Longrightarrow> sublist w s"
proof (induction rs arbitrary: p s g)
  case (Cons r rs)
  from Cons.prems(1) obtain p' s' g' where
    1: "rxm r (p, s, g) (p', s', g')" and 2: "rxm (rseq rs) (p', s', g') y" by auto
  show ?case
  proof (cases "lit w = r")
    case True
    with 1 show ?thesis by (auto simp: rxm_lit)
  next
    case False
    with Cons.prems(2) Cons.IH [OF 2] have "sublist w s'" by auto
    with rxm_suffix [OF 1] show ?thesis by (auto intro: sublist_order.order_trans)
  qed
qed simp

lemma re_search_rseq_lit:
  assumes "re_search (rseq rs) s \<noteq> None" "lit w \<in> set rs"
  shows "str_in w s"
proof -
  from assms(1) obtain u t y where "s = u @ t" "rxm (rseq rs) (prev_char u, t, []) y"
    unfolding re_search_iff by blast
  with rxm_rseq_lit [OF this(2) assms(2)] show ?thesis
    unfolding str_in_sublist by (auto intro: sublist_order.order_trans)
qed

lemma str_in_trans: "str_in a b \<Longrightarrow> str_in b c \<Longrightarrow> str_in a c"
  unfolding str_in_sublist by (rule sublist_order.order_trans)

subsection \<open>What a group can hold\<close>

text \<open>Every subexpression captured as group \<open>n\<close> only takes strings with the property \<open>Q\<close>.\<close>

primrec cap_ok :: "nat \<Rightarrow> (string \<Rightarrow> bool) \<Rightarrow> regex \<Rightarrow> bool" where
  "cap_ok n Q Eps \<longleftrightarrow> True"
| "cap_ok n Q (Sym P) \<longleftrightarrow> True"
| "cap_ok n Q (Cat r q) \<longleftrightarrow> cap_ok n Q r \<and> cap_ok n Q q"
| "cap_ok n Q (Alt r q) \<longleftrightarrow> cap_ok n Q r \<and> cap_ok n Q q"
| "cap_ok n Q (Star r) \<longleftrightarrow> cap_ok n Q r"
| "cap_ok n Q (LStar r) \<longleftrightarrow> cap_ok n Q r"
| "cap_ok n Q (Cap m r) \<longleftrightarrow> cap_ok n Q r \<and>
     (m = n \<longrightarrow> (\<forall>p w s g p' g'. rxm r (p, w @ s, g) (p', s, g') \<longrightarrow> Q w))"
| "cap_ok n Q Bos \<longleftrightarrow> True"
| "cap_ok n Q Eos \<longleftrightarrow> True"
| "cap_ok n Q Wordb \<longleftrightarrow> True"

lemma cap_ok_lit [simp]: "cap_ok n Q (lit w)"
  by (induction w) auto

lemma cap_ok_rep [simp]: "cap_ok n Q r \<Longrightarrow> cap_ok n Q (rep k r)"
  by (induction k) auto

lemma rxm_groups:
  "rxm r x y \<Longrightarrow> cap_ok n Q r \<Longrightarrow> (n, w) \<in> set (groups y) \<Longrightarrow> (n, w) \<in> set (groups x) \<or> Q w"
proof (induction arbitrary: w rule: rxm.induct)
  case (Cat r x y q z)
  from Cat.prems Cat.IH(2) [of w] Cat.IH(1) [of w] show ?case by simp blast
next
  case (Star_more r p s g p' s' g' z)
  from Star_more.prems Star_more.IH(2) [of w] Star_more.IH(1) [of w] show ?case by simp blast
next
  case (LStar_more r p s g p' s' g' z)
  from LStar_more.prems LStar_more.IH(2) [of w] LStar_more.IH(1) [of w] show ?case by simp blast
next
  case (Cap r p s g p' s' g' m)
  from rxm_suffix [OF Cap.hyps] obtain v where v: "s = v @ s'" by (auto elim: suffixE)
  with Cap.prems Cap.hyps Cap.IH [of w] show ?case by simp blast
qed simp_all

lemma group_prop:
  assumes "re_search r s = Some m" "cap_ok n Q r" "Q []"
  shows "Q (group m n)"
proof -
  from re_search_sound [OF assms(1)] obtain u t p' s' where "rxm r (prev_char u, t, []) (p', s', m)" by blast
  from rxm_groups [OF this assms(2)] have "Q w" if "(n, w) \<in> set m" for w
    using that by simp
  with assms(3) show ?thesis by (auto simp: group_def split: option.splits dest: map_of_SomeD)
qed

lemma cap_ok_digits: "cap_ok n (list_all is_digit) (Cap m (plus rdigit))"
  using rxm_plus_sym [of is_digit] by (fastforce simp: plus_def rdigit_def)

lemma cap_ok_numbers: "cap_ok n (list_all (\<lambda>c. is_digit c \<or> c = CHR ''.'')) (Cap m (plus rnumber))"
  using rxm_plus_sym [of "\<lambda>c. is_digit c \<or> c = CHR ''.''"] by (fastforce simp: plus_def rnumber_def)

lemma match_group_prop:
  assumes "re_match r s = Some m" "cap_ok n Q r" "Q []"
  shows "Q (group m n)"
proof -
  from re_match_sound [OF assms(1)] obtain p' s' where "rxm r (None, s, []) (p', s', m)" by blast
  from rxm_groups [OF this assms(2)] have "Q w" if "(n, w) \<in> set m" for w
    using that by simp
  with assms(3) show ?thesis by (auto simp: group_def split: option.splits dest: map_of_SomeD)
qed

subsection \<open>The match that is reported\<close>

text \<open>\<open>y\<close> is the first match at \<open>x\<close>; sequences of literals and greedy classes are matched without a step back.\<close>

definition rfirst :: "regex \<Rightarrow> pos \<Rightarrow> pos \<Rightarrow> bool" where
  "rfirst r x y \<longleftrightarrow> (\<exists>ys. rms r x = y # ys)"

lemma first_Eps: "rfirst Eps x x"
  by (simp add: rfirst_def)

lemma first_Cat: "rfirst r x y \<Longrightarrow> rfirst q y z \<Longrightarrow> rfirst (Cat r q) x z"
  by (auto simp: rfirst_def)

lemma first_rseq: "rfirst r x y \<Longrightarrow> rfirst (rseq rs) y z \<Longrightarrow> rfirst (rseq (r # rs)) x z"
  by (simp add: first_Cat)

lemma rms_lit: "rms (lit w) (p, w @ s, g) = [(if w = [] then p else Some (last w), s, g)]"
  by (induction w arbitrary: p) auto

lemma first_lit: "rfirst (lit w) (p, w @ s, g) (if w = [] then p else Some (last w), s, g)"
  by (simp add: rfirst_def rms_lit)

lemma first_star:
  "list_all P w \<Longrightarrow> s = [] \<or> \<not> P (hd s) \<Longrightarrow> rfirst (Star (Sym P)) (p, w @ s, g) (if w = [] then p else Some (last w), s, g)"
proof (induction w arbitrary: p)
  case Nil
  then show ?case by (cases s) (auto simp: rfirst_def rms.simps(5))
next
  case (Cons c w)
  then have "rfirst (Star (Sym P)) (Some c, w @ s, g) (if w = [] then Some c else Some (last w), s, g)" by simp
  then show ?case using Cons.prems(1) by (auto simp: rfirst_def rms.simps(5) [of _ "(p, c # _, _)"])
qed

lemma first_cap_plus:
  assumes "w \<noteq> []" "list_all P w" "s = [] \<or> \<not> P (hd s)"
  shows "rfirst (Cap n (plus (Sym P))) (p, w @ s, g) (Some (last w), s, (n, w) # g)"
proof -
  obtain c v where w: "w = c # v" using assms(1) by (cases w) auto
  have "rfirst (Star (Sym P)) (Some c, v @ s, g) (if v = [] then Some c else Some (last v), s, g)"
    using assms(2,3) by (intro first_star) (auto simp: w)
  then have "rfirst (plus (Sym P)) (p, w @ s, g) (Some (last w), s, g)"
    using assms(2) by (auto simp: rfirst_def plus_def w)
  then show ?thesis by (auto simp: rfirst_def close_group_def)
qed

text \<open>A pattern whose matches all capture the same reports that.\<close>

lemma first_unique:
  assumes "rxm r x y" "\<And>z. rxm r x z \<Longrightarrow> groups z = G"
  shows "\<exists>z. rfirst r x z \<and> groups z = G"
proof -
  from rms_complete [OF assms(1)] obtain z zs where z: "rms r x = z # zs" by (cases "rms r x") auto
  then have "rxm r x z" by (simp add: rms_iff [symmetric])
  with assms(2) z show ?thesis by (auto simp: rfirst_def)
qed

lemma re_match_first: "rfirst r (None, s, []) y \<Longrightarrow> re_match r s = Some (groups y)"
  by (auto simp: rfirst_def re_match_def first_match_def)

lemma re_search_first: "rfirst r (None, s, []) y \<Longrightarrow> re_search r s = Some (groups y)"
  by (cases s) (auto simp: rfirst_def re_search_def first_match_def)

text \<open>Along a sequence.\<close>

lemma first_rseq_lit:
  "rfirst (rseq rs) (if w = [] then p else Some (last w), s, g) z \<Longrightarrow> rfirst (rseq (lit w # rs)) (p, w @ s, g) z"
  by (rule first_rseq [OF first_lit])

lemma first_rseq_end: "rfirst (rseq [lit w]) (p, w, g) (if w = [] then p else Some (last w), [], g)"
  using first_rseq_lit [of "[]" w p "[]" g] by (simp add: first_Eps)

lemma first_rseq_plus:
  assumes "w \<noteq> []" "list_all P w" "s \<noteq> []" "\<not> P (hd s)" "rfirst (rseq rs) (Some (last w), s, (n, w) # g) z"
  shows "rfirst (rseq (Cap n (plus (Sym P)) # rs)) (p, w @ s, g) z"
  using assms by (intro first_rseq [OF first_cap_plus]) auto

lemma rxm_star_symI: "list_all P w \<Longrightarrow> rxm (Star (Sym P)) (p, w @ s, g) (if w = [] then p else Some (last w), s, g)"
proof (induction w arbitrary: p)
  case Nil
  then show ?case by (simp add: rxm.Star_stop)
next
  case (Cons c w)
  then have "rxm (Star (Sym P)) (Some c, w @ s, g) (if w = [] then Some c else Some (last w), s, g)" by simp
  with Cons.prems show ?case
    using rxm.Star_more [of "Sym P" p "c # w @ s" g "Some c" "w @ s" g "(if w = [] then Some c else Some (last w), s, g)"] by auto
qed

text \<open>A number that is followed by a literal starting with a dot: the pattern gives the dot back.\<close>

lemma first_number_dot:
  assumes "w \<noteq> []" "list_all (\<lambda>c. is_digit c \<or> c = CHR ''.'') w" "\<not> (is_digit c \<or> c = CHR ''.'')"
  shows "\<exists>z. rfirst (rseq [Cap n (plus rnumber), lit (CHR ''.'' # c # t)]) (p, w @ CHR ''.'' # c # t, g) z \<and> groups z = (n, w) # g"
proof (rule first_unique)
  let ?N = "\<lambda>c. is_digit c \<or> c = CHR ''.''" and ?e = "CHR ''.'' # c # t"
  obtain a v where w: "w = a # v" using assms(1) by (cases w) auto
  have "rxm (plus (Sym ?N)) (p, w @ ?e, g) (Some (last w), ?e, g)"
    using rxm_star_symI [of ?N v "Some a" ?e g] assms(2) by (auto simp: plus_def w)
  then have "rxm (Cap n (plus rnumber)) (p, w @ ?e, g) (Some (last w), ?e, (n, w) # g)" by (auto simp: rnumber_def)
  moreover have "rxm (lit ?e) (Some (last w), ?e, (n, w) # g) (Some (last ?e), [], (n, w) # g)" by (simp only: rxm_lit) simp
  ultimately show "rxm (rseq [Cap n (plus rnumber), lit ?e]) (p, w @ ?e, g) (Some (last ?e), [], (n, w) # g)"
    unfolding rseq.simps using rxm.Eps by (blast intro: rxm.Cat)
  fix z assume "rxm (rseq [Cap n (plus rnumber), lit ?e]) (p, w @ ?e, g) z"
  then obtain p1 s1 g1 where 1: "rxm (plus rnumber) (p, w @ ?e, g) (p1, s1, g1)"
    and 2: "rxm (lit ?e) (p1, s1, (n, take (length (w @ ?e) - length s1) (w @ ?e)) # g1) z"
    unfolding rseq.simps by auto
  from rxm_plus_sym [OF 1 [unfolded rnumber_def]] obtain u where u: "w @ ?e = u @ s1" "list_all ?N u" "g1 = g" by blast
  from 2 obtain r where r: "s1 = ?e @ r" "groups z = (n, take (length (w @ ?e) - length s1) (w @ ?e)) # g1" unfolding rxm_lit by auto
  have tw: "takeWhile ?N (x @ CHR ''.'' # c # y) = x @ ''.''" if "list_all ?N x" for x y
    using that assms(3) by (induction x) auto
  from u(1) r(1) have "takeWhile ?N (w @ ?e) = takeWhile ?N (u @ CHR ''.'' # c # t @ r)" by simp
  then have "u = w" unfolding tw [OF assms(2)] tw [OF u(2)] by simp
  with u r show "groups z = (n, w) # g" by simp
qed

end
