(* ===== verification/Py_Time.thy ===== *)
theory Py_Time
  imports Py_Regex
begin

text \<open>
  Python's \<open>datetime\<close> as the log analysers use it: naive timestamps with their field ranges,
  the field-wise order, the microsecond count behind differences and sums with a
  \<open>timedelta\<close>, \<open>strptime\<close> for the glog prefix \<open>YYYYMMDD HH:MM:SS.ffffff\<close>, and
  \<open>strftime\<close>/\<open>fromisoformat\<close> for the CSV column \<open>YYYY-MM-DD HH:MM:SS\<close>.
  \<open>us_of_less_iff\<close> shows that comparing fields and comparing microsecond counts agree, and
  \<open>fromisoformat_strftime\<close> is the round trip through the CSV text.
\<close>

datatype datetime = Datetime (dt_year: int) (dt_month: int) (dt_day: int)
  (dt_hour: int) (dt_minute: int) (dt_second: int) (dt_us: int)

subsection \<open>Order\<close>

definition dt_key :: "datetime \<Rightarrow> int \<times> int \<times> int \<times> int \<times> int \<times> int \<times> int" where
  "dt_key d = (dt_year d, dt_month d, dt_day d, dt_hour d, dt_minute d, dt_second d, dt_us d)"

lemma dt_key_inject: "dt_key a = dt_key b \<longleftrightarrow> a = b"
  by (cases a; cases b) (auto simp: dt_key_def)

instantiation datetime :: linorder
begin

definition less_eq_datetime :: "datetime \<Rightarrow> datetime \<Rightarrow> bool" where
  "less_eq_datetime a b \<longleftrightarrow> dt_key a \<le> dt_key b"

definition less_datetime :: "datetime \<Rightarrow> datetime \<Rightarrow> bool" where
  "less_datetime a b \<longleftrightarrow> dt_key a < dt_key b"

instance
  by intro_classes
    (auto simp: less_eq_datetime_def less_datetime_def less_le_not_le simp flip: dt_key_inject)

end

subsection \<open>The calendar\<close>

definition is_leap :: "int \<Rightarrow> bool" where
  "is_leap y \<longleftrightarrow> 4 dvd y \<and> (\<not> 100 dvd y \<or> 400 dvd y)"

definition days_in_month :: "int \<Rightarrow> int \<Rightarrow> int" where
  "days_in_month y m =
     (if m = 2 then (if is_leap y then 29 else 28)
      else if m = 4 \<or> m = 6 \<or> m = 9 \<or> m = 11 then 30 else 31)"

definition days_before_month :: "int \<Rightarrow> int \<Rightarrow> int" where
  "days_before_month y m = sum_list (map (days_in_month y) [1..m - 1])"

definition days_before_year :: "int \<Rightarrow> int" where
  "days_before_year y = (let n = y - 1 in n * 365 + n div 4 - n div 100 + n div 400)"

definition toordinal :: "datetime \<Rightarrow> int" where
  "toordinal d = days_before_year (dt_year d)
     + days_before_month (dt_year d) (dt_month d) + dt_day d"

definition valid_dt :: "datetime \<Rightarrow> bool" where
  "valid_dt d \<longleftrightarrow> 1 \<le> dt_year d \<and> dt_year d \<le> 9999 \<and> 1 \<le> dt_month d \<and> dt_month d \<le> 12
     \<and> 1 \<le> dt_day d \<and> dt_day d \<le> days_in_month (dt_year d) (dt_month d)
     \<and> 0 \<le> dt_hour d \<and> dt_hour d < 24 \<and> 0 \<le> dt_minute d \<and> dt_minute d < 60
     \<and> 0 \<le> dt_second d \<and> dt_second d < 60 \<and> 0 \<le> dt_us d \<and> dt_us d < 1000000"

text \<open>Microseconds since the (virtual) midnight before day 0 of the calendar.\<close>

definition us_of :: "datetime \<Rightarrow> int" where
  "us_of d = ((toordinal d * 24 + dt_hour d) * 60 + dt_minute d) * 60 * 1000000
     + dt_second d * 1000000 + dt_us d"

definition us_min :: int where "us_min = us_of (Datetime 1 1 1 0 0 0 0)"
definition us_max :: int where "us_max = us_of (Datetime 9999 12 31 23 59 59 999999)"

text \<open>\<open>timedelta(seconds=k)\<close>, in microseconds; at most 999999999 days either way.\<close>

definition timedelta :: "int \<Rightarrow> int res" where
  "timedelta k = (if \<bar>k div 86400\<bar> \<le> 999999999 then Inr (k * 1000000) else Inl OverflowError)"

text \<open>\<open>d + delta\<close>, as its microsecond count; a result outside the calendar raises.\<close>

definition add_delta :: "datetime \<Rightarrow> int \<Rightarrow> int res" where
  "add_delta d us =
     (let u = us_of d + us in if us_min \<le> u \<and> u \<le> us_max then Inr u else Inl OverflowError)"

text \<open>\<open>(a - b).total_seconds()\<close>.\<close>

definition total_seconds :: "datetime \<Rightarrow> datetime \<Rightarrow> real" where
  "total_seconds a b = real_of_int (us_of a - us_of b) / 1000000"

subsection \<open>Text to time and back\<close>

definition mk_datetime :: "int \<Rightarrow> int \<Rightarrow> int \<Rightarrow> int \<Rightarrow> int \<Rightarrow> int \<Rightarrow> int \<Rightarrow> datetime res" where
  "mk_datetime y mo d h mi s us =
     (let t = Datetime y mo d h mi s us in if valid_dt t then Inr t else Inl ValueError)"

text \<open>
  \<open>datetime.strptime(s, '%Y%m%d %H:%M:%S.%f')\<close> on the strings the callers' patterns let
  through: eight digits, a space, three two-digit fields, and one or more digits of a fraction.
  More than six digits of fraction, or a field out of its range, is a ValueError.
\<close>

definition glog_shape :: "string \<Rightarrow> bool" where
  "glog_shape s \<longleftrightarrow> 19 \<le> length s \<and> list_all is_digit (take 8 s) \<and> s ! 8 = CHR '' ''
     \<and> list_all is_digit (take 2 (drop 9 s)) \<and> s ! 11 = CHR '':''
     \<and> list_all is_digit (take 2 (drop 12 s)) \<and> s ! 14 = CHR '':''
     \<and> list_all is_digit (take 2 (drop 15 s)) \<and> s ! 17 = CHR ''.''
     \<and> list_all is_digit (drop 18 s) \<and> length s \<le> 24"

definition num_at :: "nat \<Rightarrow> nat \<Rightarrow> string \<Rightarrow> int" where
  "num_at i w s = int_of_digits (take w (drop i s))"

definition fraction :: "string \<Rightarrow> int" where
  "fraction f = int_of_digits (f @ replicate (6 - length f) (CHR ''0''))"

definition strptime :: "string \<Rightarrow> datetime res" where
  "strptime s =
     (if glog_shape s
      then mk_datetime (num_at 0 4 s) (num_at 4 2 s) (num_at 6 2 s)
             (num_at 9 2 s) (num_at 12 2 s) (num_at 15 2 s) (fraction (drop 18 s))
      else Inl ValueError)"

text \<open>\<open>dt.strftime('%Y-%m-%d %H:%M:%S')\<close>.\<close>

definition strftime_csv :: "datetime \<Rightarrow> string" where
  "strftime_csv d = show_int (dt_year d) @ ''-'' @ pad 2 (dt_month d) @ ''-'' @ pad 2 (dt_day d)
     @ '' '' @ pad 2 (dt_hour d) @ '':'' @ pad 2 (dt_minute d) @ '':'' @ pad 2 (dt_second d)"

text \<open>
  \<open>datetime.fromisoformat\<close> on the 19-character form; the other ISO forms that some Python
  versions accept are not written by any script and count as a ValueError here.
\<close>

definition iso_shape :: "string \<Rightarrow> bool" where
  "iso_shape s \<longleftrightarrow> length s = 19 \<and> list_all is_digit (take 4 s) \<and> s ! 4 = CHR ''-''
     \<and> list_all is_digit (take 2 (drop 5 s)) \<and> s ! 7 = CHR ''-''
     \<and> list_all is_digit (take 2 (drop 8 s))
     \<and> list_all is_digit (take 2 (drop 11 s)) \<and> s ! 13 = CHR '':''
     \<and> list_all is_digit (take 2 (drop 14 s)) \<and> s ! 16 = CHR '':''
     \<and> list_all is_digit (take 2 (drop 17 s))"

definition fromisoformat :: "string \<Rightarrow> datetime res" where
  "fromisoformat s =
     (if iso_shape s
      then mk_datetime (num_at 0 4 s) (num_at 5 2 s) (num_at 8 2 s)
             (num_at 11 2 s) (num_at 14 2 s) (num_at 17 2 s) 0
      else Inl ValueError)"

text \<open>\<open>dt.replace(microsecond=0)\<close>.\<close>

definition trunc_second :: "datetime \<Rightarrow> datetime" where
  "trunc_second d = Datetime (dt_year d) (dt_month d) (dt_day d) (dt_hour d) (dt_minute d) (dt_second d) 0"

subsection \<open>Facts\<close>

lemma mk_datetime_valid: "mk_datetime y mo d h mi s us = Inr t \<Longrightarrow> valid_dt t"
  by (auto simp: mk_datetime_def Let_def split: if_splits)

lemma mk_datetime_Inl: "mk_datetime y mo d h mi s us = Inl e \<Longrightarrow> e = ValueError"
  by (auto simp: mk_datetime_def Let_def split: if_splits)

lemma strptime_valid: "strptime s = Inr t \<Longrightarrow> valid_dt t"
  by (auto simp: strptime_def split: if_splits dest: mk_datetime_valid)

lemma strptime_Inl: "strptime s = Inl e \<Longrightarrow> e = ValueError"
  by (auto simp: strptime_def split: if_splits dest: mk_datetime_Inl)

lemma trunc_second_valid [simp]: "valid_dt d \<Longrightarrow> valid_dt (trunc_second d)"
  by (simp add: valid_dt_def trunc_second_def)

lemma trunc_second_le: "valid_dt d \<Longrightarrow> trunc_second d \<le> d"
  by (simp add: valid_dt_def less_eq_datetime_def dt_key_def trunc_second_def)

lemma us_of_trunc_second: "us_of (trunc_second d) = us_of d - dt_us d"
  by (simp add: us_of_def trunc_second_def toordinal_def)

lemma days_before_month_step: "1 \<le> m \<Longrightarrow> days_before_month y (m + 1) = days_before_month y m + days_in_month y m"
  by (simp add: days_before_month_def upto_rec2)

lemma days_in_month_pos: "0 < days_in_month y m"
  by (simp add: days_in_month_def)

lemma days_before_month_nonneg: "0 \<le> days_before_month y m"
  unfolding days_before_month_def using days_in_month_pos [of y]
  by (intro sum_list_nonneg) (auto simp: less_imp_le)

lemma days_before_month_mono:
  "m < m' \<Longrightarrow> 1 \<le> m \<Longrightarrow> days_before_month y m + days_in_month y m \<le> days_before_month y m'"
proof (induction m' rule: int_gr_induct [of m, consumes 1])
  case base
  then show ?case by (simp add: days_before_month_step)
next
  case (step k)
  then show ?case using days_in_month_pos [of y k] by (simp add: days_before_month_step)
qed

definition days_in_year :: "int \<Rightarrow> int" where
  "days_in_year y = (if is_leap y then 366 else 365)"

lemma div_step:
  assumes m: "0 < (m :: int)"
  shows "y div m - (y - 1) div m = (if m dvd y then 1 else 0)"
proof -
  define q r where "q = (y - 1) div m" and "r = (y - 1) mod m"
  have y: "y = q * m + (r + 1)" and r: "0 \<le> r" "r < m"
    using m by (simp_all add: q_def r_def)
  have dvd: "m dvd y \<longleftrightarrow> r + 1 = m"
  proof -
    have "m dvd y \<longleftrightarrow> m dvd (r + 1)" unfolding y by (rule dvd_add_right_iff) simp
    also have "\<dots> \<longleftrightarrow> r + 1 = m" using r zdvd_imp_le [of m "r + 1"] by auto
    finally show ?thesis .
  qed
  have "y div m = q + (if r + 1 = m then 1 else 0)"
    unfolding y using m r by (auto simp: div_pos_pos_trivial)
  then show ?thesis by (simp add: dvd q_def)
qed

lemma days_before_year_step: "days_before_year (y + 1) = days_before_year y + days_in_year y"
proof -
  have "(100::int) dvd y \<Longrightarrow> 4 dvd y" "(400::int) dvd y \<Longrightarrow> 100 dvd y"
    by (rule dvd_trans [rotated], assumption, simp)+
  moreover have "days_before_year (y + 1) - days_before_year y = 365 + (y div 4 - (y - 1) div 4)
      - (y div 100 - (y - 1) div 100) + (y div 400 - (y - 1) div 400)"
    by (simp add: days_before_year_def Let_def algebra_simps)
  then have "days_before_year (y + 1) - days_before_year y = 365 + (if 4 dvd y then 1 else 0)
      - (if 100 dvd y then 1 else 0) + (if 400 dvd y then 1 else 0)"
    by (simp only: div_step zero_less_numeral)
  ultimately show ?thesis
    by (cases "4 dvd y"; cases "100 dvd y"; cases "400 dvd y") (simp_all add: days_in_year_def is_leap_def)
qed

lemma days_before_year_mono: "y < y' \<Longrightarrow> days_before_year y + days_in_year y \<le> days_before_year y'"
proof (induction y' rule: int_gr_induct [of y, consumes 1])
  case base
  then show ?case by (simp add: days_before_year_step)
next
  case (step k)
  then show ?case by (simp add: days_before_year_step days_in_year_def split: if_splits)
qed

lemma day_of_year_bound:
  assumes "1 \<le> m" "m \<le> 12" "d \<le> days_in_month y m"
  shows "days_before_month y m + d \<le> days_in_year y"
proof -
  have "days_before_month y m + days_in_month y m \<le> days_before_month y 13"
    using assms by (intro days_before_month_mono) auto
  also have "\<dots> = days_in_year y"
    by (simp add: days_before_month_def days_in_month_def days_in_year_def upto_rec1)
  finally show ?thesis using assms by simp
qed

lemma toordinal_less:
  assumes "valid_dt a" "valid_dt b"
    and "(dt_year a, dt_month a, dt_day a) < (dt_year b, dt_month b, dt_day b)"
  shows "toordinal a < toordinal b"
proof -
  consider (y) "dt_year a < dt_year b"
    | (m) "dt_year a = dt_year b" "dt_month a < dt_month b"
    | (d) "dt_year a = dt_year b" "dt_month a = dt_month b" "dt_day a < dt_day b"
    using assms(3) by (auto simp: le_less)
  then show ?thesis
  proof cases
    case y
    from assms(1) have "days_before_month (dt_year a) (dt_month a) + dt_day a \<le> days_in_year (dt_year a)"
      by (intro day_of_year_bound) (auto simp: valid_dt_def)
    with days_before_year_mono [OF y] assms(2) days_before_month_nonneg [of "dt_year b" "dt_month b"]
    show ?thesis by (simp add: toordinal_def valid_dt_def)
  next
    case m
    with days_before_month_mono [of "dt_month a" "dt_month b" "dt_year a"] assms show ?thesis
      by (simp add: toordinal_def valid_dt_def)
  next
    case d
    then show ?thesis by (simp add: toordinal_def)
  qed
qed

lemma us_of_mono:
  assumes "valid_dt a" "valid_dt b" "a < b"
  shows "us_of a < us_of b"
proof -
  consider (d) "(dt_year a, dt_month a, dt_day a) < (dt_year b, dt_month b, dt_day b)"
    | (t) "(dt_year a, dt_month a, dt_day a) = (dt_year b, dt_month b, dt_day b)"
      "(dt_hour a, dt_minute a, dt_second a, dt_us a) < (dt_hour b, dt_minute b, dt_second b, dt_us b)"
    using assms(3) by (auto simp: less_datetime_def dt_key_def le_less)
  then show ?thesis
  proof cases
    case d
    from toordinal_less [OF assms(1,2) d] assms(1,2) show ?thesis
      by (simp add: us_of_def valid_dt_def)
  next
    case t
    then have "toordinal a = toordinal b" by (simp add: toordinal_def)
    with t(2) assms(1,2) show ?thesis
      by (auto simp: us_of_def valid_dt_def)
  qed
qed

lemma us_of_less_iff: "valid_dt a \<Longrightarrow> valid_dt b \<Longrightarrow> us_of a < us_of b \<longleftrightarrow> a < b"
  using us_of_mono [of a b] us_of_mono [of b a] by (cases a b rule: linorder_cases) auto

lemma us_of_le_iff: "valid_dt a \<Longrightarrow> valid_dt b \<Longrightarrow> us_of a \<le> us_of b \<longleftrightarrow> a \<le> b"
  using us_of_less_iff [of b a] by (auto simp: not_less [symmetric])

lemma us_of_inj: "valid_dt a \<Longrightarrow> valid_dt b \<Longrightarrow> us_of a = us_of b \<longleftrightarrow> a = b"
  using us_of_less_iff [of a b] us_of_less_iff [of b a] by (cases a b rule: linorder_cases) auto

lemma pad2: "0 \<le> n \<Longrightarrow> n < 100 \<Longrightarrow> length (pad 2 n) = 2"
  by (intro length_pad) auto

lemma length_show_year:
  assumes "1000 \<le> y" "y \<le> 9999"
  shows "length (show_int y) = 4"
proof -
  have "\<not> y < 10" "\<not> y div 10 < 10" "\<not> y div 100 < 10" "y div 1000 < 10"
    using assms by linarith+
  then show ?thesis
    by (simp add: show_int_def show_digits.simps [of y] show_digits.simps [of "y div 10"]
        show_digits.simps [of "y div 100"] show_digits.simps [of "y div 1000"] flip: zdiv_zmult2_eq)
qed

lemma days_in_month_le: "days_in_month y m \<le> 31"
  by (simp add: days_in_month_def)

lemma fromisoformat_strftime:
  assumes "valid_dt d" "1000 \<le> dt_year d"
  shows "fromisoformat (strftime_csv d) = Inr (trunc_second d)"
proof -
  have b: "0 \<le> dt_month d" "dt_month d < 100" "0 \<le> dt_day d" "dt_day d < 100" "0 \<le> dt_hour d"
    "dt_hour d < 100" "0 \<le> dt_minute d" "dt_minute d < 100" "0 \<le> dt_second d" "dt_second d < 100"
    "0 \<le> dt_year d"
    using assms(1) days_in_month_le [of "dt_year d" "dt_month d"] by (auto simp: valid_dt_def)
  have y: "length (show_int (dt_year d)) = 4"
    using assms by (intro length_show_year) (auto simp: valid_dt_def)
  obtain y1 y2 y3 y4 where ys: "show_int (dt_year d) = [y1, y2, y3, y4]"
    using y by (auto simp: length_Suc_conv eval_nat_numeral)
  obtain m1 m2 where ms: "pad 2 (dt_month d) = [m1, m2]"
    using pad2 [OF b(1,2)] by (auto simp: length_Suc_conv eval_nat_numeral)
  obtain d1 d2 where ds: "pad 2 (dt_day d) = [d1, d2]"
    using pad2 [OF b(3,4)] by (auto simp: length_Suc_conv eval_nat_numeral)
  obtain h1 h2 where hs: "pad 2 (dt_hour d) = [h1, h2]"
    using pad2 [OF b(5,6)] by (auto simp: length_Suc_conv eval_nat_numeral)
  obtain i1 i2 where mi: "pad 2 (dt_minute d) = [i1, i2]"
    using pad2 [OF b(7,8)] by (auto simp: length_Suc_conv eval_nat_numeral)
  obtain s1 s2 where ss: "pad 2 (dt_second d) = [s1, s2]"
    using pad2 [OF b(9,10)] by (auto simp: length_Suc_conv eval_nat_numeral)
  note parts = ys ms ds hs mi ss
  have s: "strftime_csv d = [y1, y2, y3, y4, CHR ''-'', m1, m2, CHR ''-'', d1, d2, CHR '' '',
      h1, h2, CHR '':'', i1, i2, CHR '':'', s1, s2]"
    by (simp add: strftime_csv_def parts)
  have dig: "list_all is_digit [y1, y2, y3, y4]" "list_all is_digit [m1, m2]" "list_all is_digit [d1, d2]"
    "list_all is_digit [h1, h2]" "list_all is_digit [i1, i2]" "list_all is_digit [s1, s2]"
    using list_all_show_int [of "dt_year d"] list_all_pad b by (metis parts)+
  have vals: "int_of_digits [y1, y2, y3, y4] = dt_year d" "int_of_digits [m1, m2] = dt_month d"
    "int_of_digits [d1, d2] = dt_day d" "int_of_digits [h1, h2] = dt_hour d"
    "int_of_digits [i1, i2] = dt_minute d" "int_of_digits [s1, s2] = dt_second d"
    using b by (metis parts int_of_digits_show_int int_of_digits_pad)+
  have "iso_shape (strftime_csv d)" using dig by (simp add: iso_shape_def s)
  then have "fromisoformat (strftime_csv d) = mk_datetime (dt_year d) (dt_month d) (dt_day d)
      (dt_hour d) (dt_minute d) (dt_second d) 0"
    by (simp add: fromisoformat_def num_at_def s vals)
  also have "\<dots> = Inr (trunc_second d)"
    using trunc_second_valid [OF assms(1)] by (simp add: mk_datetime_def trunc_second_def)
  finally show ?thesis .
qed

end
