(* ===== verification/Py_Stats.thy ===== *)
theory Py_Stats
  imports Py_Prelude
begin

text \<open>
  The statistics the scripts compute with \<open>statistics\<close>, \<open>numpy\<close> or by hand, over exact
  reals: a Python float is modelled by the real number it stands for, and rounding and the
  printed precision (\<open>:.3f\<close>) are not modelled. \<open>float\<close> is read from the digit-and-dot
  strings the patterns capture. \<open>pooled_mean\<close> and \<open>pooled_variance\<close> are the laws behind
  combining per-node statistics into one.
\<close>

subsection \<open>\<open>float(s)\<close> on a captured number\<close>

text \<open>
  A string of digits and dots is a float literal when it has one dot at most and a digit at
  least; anything else (\<open>"1.2.3"\<close>, \<open>"."\<close>) is a ValueError.
\<close>

definition float_number :: "string \<Rightarrow> real res" where
  "float_number s =
     (case split_on (CHR ''.'') s of
        [a] \<Rightarrow> if a \<noteq> [] \<and> list_all is_digit a then Inr (real_of_int (int_of_digits a)) else Inl ValueError
      | [a, b] \<Rightarrow>
          if (a \<noteq> [] \<or> b \<noteq> []) \<and> list_all is_digit a \<and> list_all is_digit b
          then Inr (real_of_int (int_of_digits (a @ b)) / 10 ^ length b) else Inl ValueError
      | _ \<Rightarrow> Inl ValueError)"

subsection \<open>Mean and deviation\<close>

definition mean_of :: "real list \<Rightarrow> real" where
  "mean_of xs = sum_list xs / real (length xs)"

definition pvariance :: "real list \<Rightarrow> real" where
  "pvariance xs = (\<Sum>t\<leftarrow>xs. (t - mean_of xs)\<^sup>2) / real (length xs)"

definition pstdev :: "real list \<Rightarrow> real" where
  "pstdev xs = sqrt (pvariance xs)"

text \<open>\<open>statistics.stdev\<close>: the sample deviation; fewer than two values raise.\<close>

definition stdev :: "real list \<Rightarrow> real res" where
  "stdev xs = (if length xs < 2 then Inl ValueError
     else Inr (sqrt ((\<Sum>t\<leftarrow>xs. (t - mean_of xs)\<^sup>2) / (real (length xs) - 1))))"

lemma sum_list_diff_mean: "xs \<noteq> [] \<Longrightarrow> (\<Sum>t\<leftarrow>xs. t - mean_of xs) = 0"
  by (simp add: sum_list_subtractf sum_list_triv mean_of_def)

lemma sum_list_squares_nonneg: "0 \<le> (\<Sum>t\<leftarrow>xs. (t - (c::real))\<^sup>2)"
  by (induction xs) auto

lemma pvariance_nonneg: "0 \<le> pvariance xs"
  by (simp add: pvariance_def sum_list_squares_nonneg)

lemma pstdev_square [simp]: "(pstdev xs)\<^sup>2 = pvariance xs"
  by (simp add: pstdev_def pvariance_nonneg)

text \<open>Deviation around any centre, from the deviation around the mean.\<close>

lemma sum_squares_shift:
  "(\<Sum>t\<leftarrow>xs. (t - c)\<^sup>2) = real (length xs) * (pvariance xs + (mean_of xs - c)\<^sup>2)"
proof (cases "xs = []")
  case True
  then show ?thesis by simp
next
  case False
  let ?m = "mean_of xs"
  have "(\<Sum>t\<leftarrow>xs. (t - c)\<^sup>2) = (\<Sum>t\<leftarrow>xs. (t - ?m)\<^sup>2 + (2 * (?m - c) * (t - ?m) + (?m - c)\<^sup>2))"
    by (rule arg_cong [of _ _ sum_list], rule map_cong) (auto simp: power2_eq_square algebra_simps)
  also have "\<dots> = (\<Sum>t\<leftarrow>xs. (t - ?m)\<^sup>2) + 2 * (?m - c) * (\<Sum>t\<leftarrow>xs. t - ?m)
      + real (length xs) * (?m - c)\<^sup>2"
    by (simp add: sum_list_addf sum_list_const_mult sum_list_triv)
  also have "\<dots> = real (length xs) * (pvariance xs + (?m - c)\<^sup>2)"
    using False by (simp add: sum_list_diff_mean pvariance_def algebra_simps)
  finally show ?thesis .
qed

lemma length_mean: "real (length xs) * mean_of xs = sum_list xs"
  by (cases "xs = []") (simp_all add: mean_of_def)

lemma sum_list_concat_real: "sum_list (concat xss) = (\<Sum>xs\<leftarrow>xss. sum_list xs)" for xss :: "real list list"
  by (induction xss) auto

lemma pooled_mean:
  "(\<Sum>xs\<leftarrow>xss. real (length xs) * mean_of xs) / real (length (concat xss)) = mean_of (concat xss)"
  unfolding length_mean sum_list_concat_real [symmetric] by (simp add: mean_of_def)

lemma pooled_variance:
  "(\<Sum>xs\<leftarrow>xss. real (length xs) * ((pstdev xs)\<^sup>2 + (mean_of xs - mean_of (concat xss))\<^sup>2))
     / real (length (concat xss)) = pvariance (concat xss)"
proof -
  have "(\<Sum>xs\<leftarrow>xss. \<Sum>t\<leftarrow>xs. (t - c)\<^sup>2) = (\<Sum>t\<leftarrow>concat xss. (t - c)\<^sup>2)" for c :: real
    by (induction xss) auto
  then show ?thesis
    unfolding pstdev_square sum_squares_shift [symmetric] pvariance_def [of "concat xss"] by simp
qed

lemma mean_of_bounds:
  assumes "xs \<noteq> []" "\<And>t. t \<in> set xs \<Longrightarrow> a \<le> t \<and> t \<le> b"
  shows "a \<le> mean_of xs \<and> mean_of xs \<le> b"
proof -
  have "real (length xs) * a \<le> sum_list xs \<and> sum_list xs \<le> real (length xs) * b"
    using assms(2) by (induction xs) (auto simp: algebra_simps intro!: add_mono)
  then show ?thesis using assms(1) by (simp add: mean_of_def field_simps)
qed

end
