(* ===== verification/Log_Window.thy ===== *)
theory Log_Window
  imports Py_Time Py_Stats
begin

text \<open>
  What the log analysers share: the glog timestamp at the start of a line, the scan for the first
  and the last timestamp, and the contract of the time window that drops the first and the last
  seconds of a log. Each script states its window in its own way (a difference compared with a
  \<open>timedelta\<close>, two cut-off times); \<open>window\<close> is the interface they all meet, and what follows
  from it is proved once.
\<close>

subsection \<open>A timestamped prefix\<close>

text \<open>\<open>(\d{2}:\d{2}:\d{2}\.\d{6})\<close> without the group.\<close>

definition clock_re :: regex where
  "clock_re = rseq [rep 2 rdigit, lit '':'', rep 2 rdigit, lit '':'', rep 2 rdigit, lit ''.'', rep 6 rdigit]"

text \<open>The first and the last of the timestamps seen, as the scripts keep them.\<close>

definition note_ts :: "datetime option \<times> datetime option \<Rightarrow> datetime option \<Rightarrow> datetime option \<times> datetime option" where
  "note_ts fl t = (case t of None \<Rightarrow> fl
     | Some d \<Rightarrow> (case fst fl of None \<Rightarrow> (Some d, Some d) | Some f \<Rightarrow> (Some f, Some d)))"

text \<open>A scan over the lines that stops at the first exception.\<close>

fun scan_ts :: "('l \<Rightarrow> datetime option res) \<Rightarrow> 'l list \<Rightarrow> datetime option \<times> datetime option
  \<Rightarrow> (datetime option \<times> datetime option) res" where
  "scan_ts p [] fl = Inr fl"
| "scan_ts p (l # ls) fl = bind_res (p l) (\<lambda>t. scan_ts p ls (note_ts fl t))"

definition raises :: "('l \<Rightarrow> 'a res) \<Rightarrow> 'l \<Rightarrow> bool" where
  "raises p l = (case p l of Inl _ \<Rightarrow> True | Inr _ \<Rightarrow> False)"

definition stamp :: "('l \<Rightarrow> datetime option res) \<Rightarrow> 'l \<Rightarrow> datetime option" where
  "stamp p l = (case p l of Inl _ \<Rightarrow> None | Inr t \<Rightarrow> t)"

lemma raises_simps [simp]: "p l = Inl e \<Longrightarrow> raises p l" "p l = Inr t \<Longrightarrow> \<not> raises p l"
  by (simp_all add: raises_def)

lemma stamp_Inr: "p l = Inr t \<Longrightarrow> stamp p l = t"
  by (simp add: stamp_def)

lemma not_raises_iff: "\<not> raises p l \<longleftrightarrow> p l = Inr (stamp p l)"
  by (cases "p l") (simp_all add: raises_def stamp_def)

definition first_last :: "datetime list \<Rightarrow> datetime option \<times> datetime option" where
  "first_last ts = (if ts = [] then (None, None) else (Some (hd ts), Some (last ts)))"

lemma foldl_note_ts:
  "foldl note_ts (first_last ts) us = first_last (ts @ List.map_filter id us)"
proof (induction us arbitrary: ts)
  case Nil
  then show ?case by simp
next
  case (Cons u us)
  have "note_ts (first_last ts) u = first_last (ts @ List.map_filter id [u])"
    by (cases u) (auto simp: note_ts_def first_last_def map_filter_def)
  with Cons.IH [of "ts @ List.map_filter id [u]"] show ?case
    by (cases u) (simp_all add: map_filter_def)
qed

lemma scan_ts_ok:
  "\<forall>l \<in> set ls. \<not> raises p l \<Longrightarrow> scan_ts p ls fl = Inr (foldl note_ts fl (map (stamp p) ls))"
proof (induction ls arbitrary: fl)
  case Nil
  then show ?case by simp
next
  case (Cons l ls)
  then obtain t where "p l = Inr t" by (auto simp: raises_def split: sum.splits)
  with Cons show ?case by (simp add: stamp_Inr)
qed

lemma scan_ts_raises:
  assumes "\<exists>l \<in> set ls. raises p l" "\<And>l e. l \<in> set ls \<Longrightarrow> p l = Inl e \<Longrightarrow> e = ValueError"
  shows "scan_ts p ls fl = Inl ValueError"
  using assms
proof (induction ls arbitrary: fl)
  case Nil
  then show ?case by simp
next
  case (Cons l ls)
  show ?case
  proof (cases "p l")
    case (Inl e)
    with Cons.prems(2) [of l e] show ?thesis by simp
  next
    case (Inr t)
    with Cons.prems(1) have "\<exists>l \<in> set ls. raises p l" by auto
    then have "scan_ts p ls (note_ts fl t) = Inl ValueError"
      by (rule Cons.IH) (use Cons.prems(2) in auto)
    with Inr show ?thesis by simp
  qed
qed

text \<open>The timestamps of a log, in file order.\<close>

definition stamps :: "('l \<Rightarrow> datetime option res) \<Rightarrow> 'l list \<Rightarrow> datetime list" where
  "stamps p ls = List.map_filter (stamp p) ls"

lemma scan_ts_spec:
  assumes "\<And>l e. p l = Inl e \<Longrightarrow> e = ValueError"
  shows "scan_ts p ls (None, None) =
    (if \<exists>l \<in> set ls. raises p l then Inl ValueError else Inr (first_last (stamps p ls)))"
proof -
  have "foldl note_ts (None, None) (map (stamp p) ls) = first_last (stamps p ls)"
    using foldl_note_ts [of "[]" "map (stamp p) ls"]
    by (simp add: first_last_def stamps_def map_filter_def filter_map o_def)
  then show ?thesis
    using scan_ts_ok [of ls p "(None, None)"] scan_ts_raises [of ls p "(None, None)"] assms by auto
qed

subsection \<open>The window contract\<close>

text \<open>
  \<open>keep a b f l t\<close>: a line stamped \<open>t\<close> is kept when the first \<open>a\<close> and the last
  \<open>b\<close> seconds of a log that runs from \<open>f\<close> to \<open>l\<close> are dropped.
\<close>

locale window =
  fixes keep :: "int \<Rightarrow> int \<Rightarrow> datetime \<Rightarrow> datetime \<Rightarrow> datetime \<Rightarrow> bool"
  assumes keep_iff: "keep a b f l t \<longleftrightarrow>
    us_of f + a * 1000000 \<le> us_of t \<and> us_of t \<le> us_of l - b * 1000000"
begin

lemma keep_antimono: "a \<le> a' \<Longrightarrow> b \<le> b' \<Longrightarrow> keep a' b' f l t \<Longrightarrow> keep a b f l t"
  by (auto simp: keep_iff)

lemma keep_narrow: "us_of l - us_of f < (a + b) * 1000000 \<Longrightarrow> \<not> keep a b f l t"
  by (auto simp: keep_iff algebra_simps)

lemma keep_whole:
  "valid_dt f \<Longrightarrow> valid_dt l \<Longrightarrow> valid_dt t \<Longrightarrow> keep 0 0 f l t \<longleftrightarrow> f \<le> t \<and> t \<le> l"
  by (simp add: keep_iff us_of_le_iff)

lemma keep_interior:
  "keep a b f l t \<Longrightarrow> keep a b f l u \<Longrightarrow> \<bar>us_of t - us_of u\<bar> \<le> us_of l - us_of f - (a + b) * 1000000"
  by (auto simp: keep_iff algebra_simps)

end

end
