(* ===== verification/Count_Timeouts.thy ===== *)
theory Count_Timeouts
  imports Log_Window
begin

text \<open>
  \<open>scripts/remote_count_timeouts.py\<close>: count the election-timeout lines of a Raft log, without the
  first and the last seconds. \<open>count_main\<close> is the script's \<open>main\<close> on the lines of the
  file and the two options; its result is the number written to the output file, or the
  exception that ends the script.
\<close>

definition count_PATTERN :: regex where
  "count_PATTERN = lit ''Election timeout occurred. Starting leader election''"

definition count_TS_RE :: regex where
  "count_TS_RE = rseq [Bos, lit ''I'', Cap 1 (rep 8 rdigit), plus rspace, Cap 2 clock_re]"

definition count_parse_ts :: "string \<Rightarrow> datetime option res" where
  "count_parse_ts line =
     (case re_match count_TS_RE line of
        None \<Rightarrow> Inr None
      | Some m \<Rightarrow> bind_res (strptime (group m 1 @ '' '' @ group m 2)) (\<lambda>t. Inr (Some t)))"

text \<open>The second pass; \<open>skip_first\<close> and \<open>skip_last\<close> in seconds.\<close>

fun count_loop :: "int \<Rightarrow> int \<Rightarrow> datetime \<Rightarrow> datetime \<Rightarrow> string list \<Rightarrow> nat \<Rightarrow> nat res" where
  "count_loop a b first_ts last_ts [] n = Inr n"
| "count_loop a b first_ts last_ts (line # lines) n =
     bind_res (count_parse_ts line) (\<lambda>ts. case ts of
        None \<Rightarrow> count_loop a b first_ts last_ts lines n
      | Some t \<Rightarrow>
          bind_res (timedelta a) (\<lambda>da.
          if us_of t - us_of first_ts < da then count_loop a b first_ts last_ts lines n
          else bind_res (timedelta b) (\<lambda>db.
          if us_of last_ts - us_of t < db then count_loop a b first_ts last_ts lines n
          else if re_search count_PATTERN line \<noteq> None
               then count_loop a b first_ts last_ts lines (n + 1)
               else count_loop a b first_ts last_ts lines n)))"

definition count_main :: "string list \<Rightarrow> int \<Rightarrow> int \<Rightarrow> nat res" where
  "count_main lines skip_first skip_last =
     (if lines = [] then Inl (SystemExit ''Empty log.'')
      else bind_res (scan_ts count_parse_ts lines (None, None)) (\<lambda>fl. case fl of
        (Some first_ts, Some last_ts) \<Rightarrow> count_loop skip_first skip_last first_ts last_ts lines 0
      | _ \<Rightarrow> Inl (SystemExit ''No valid timestamps found.'')))"

subsection \<open>The window of this script\<close>

definition count_keep :: "int \<Rightarrow> int \<Rightarrow> datetime \<Rightarrow> datetime \<Rightarrow> datetime \<Rightarrow> bool" where
  "count_keep a b f l t \<longleftrightarrow>
     \<not> us_of t - us_of f < a * 1000000 \<and> \<not> us_of l - us_of t < b * 1000000"

interpretation count_window: window count_keep
  by unfold_locales (auto simp: count_keep_def)

definition counted :: "int \<Rightarrow> int \<Rightarrow> datetime \<Rightarrow> datetime \<Rightarrow> string \<Rightarrow> bool" where
  "counted a b f l line \<longleftrightarrow> (case stamp count_parse_ts line of None \<Rightarrow> False
     | Some t \<Rightarrow> count_keep a b f l t \<and> str_in ''Election timeout occurred. Starting leader election'' line)"

lemma count_parse_ts_Inl: "count_parse_ts l = Inl e \<Longrightarrow> e = ValueError"
  by (auto simp: count_parse_ts_def bind_res_def split: option.splits sum.splits dest: strptime_Inl)

lemma count_PATTERN_iff: "re_search count_PATTERN line \<noteq> None \<longleftrightarrow>
    str_in ''Election timeout occurred. Starting leader election'' line"
  unfolding count_PATTERN_def by (rule re_search_lit)

lemma count_loop_spec:
  assumes "\<forall>l \<in> set lines. \<not> raises count_parse_ts l"
    and "timedelta a = Inr da" "timedelta b = Inr db"
  shows "count_loop a b f l lines c = Inr (c + length (filter (counted a b f l) lines))"
  using assms(1)
proof (induction lines arbitrary: c)
  case Nil
  then show ?case by simp
next
  case (Cons line lines)
  have d: "da = a * 1000000" "db = b * 1000000"
    using assms(2,3) by (auto simp: timedelta_def split: if_splits)
  from Cons.prems have ok: "count_parse_ts line = Inr (stamp count_parse_ts line)"
    by (simp add: not_raises_iff)
  from Cons have IH: "count_loop a b f l lines c = Inr (c + length (filter (counted a b f l) lines))" for c
    by simp
  show ?case
  proof (cases "stamp count_parse_ts line")
    case None
    with ok have "count_parse_ts line = Inr None" by simp
    with None show ?thesis by (simp add: IH counted_def [of a b f l line])
  next
    case (Some t)
    with ok have "count_parse_ts line = Inr (Some t)" by simp
    with Some show ?thesis
      using count_PATTERN_iff [of line] assms(2,3)
      by (simp add: IH counted_def [of a b f l line] count_keep_def d del: not_None_eq)
  qed
qed

subsection \<open>What the script computes\<close>

text \<open>
  C33: On a log whose timestamps all parse and of which there is at least one, the
  script writes the number of lines that carry a timestamp, contain the election-timeout text,
  and lie at least \<open>skip_first\<close> seconds after the first and \<open>skip_last\<close> seconds before the
  last timestamp of the log.
\<close>

theorem count_main_counts:
  assumes "\<forall>line \<in> set lines. \<not> raises count_parse_ts line" "stamps count_parse_ts lines \<noteq> []"
    and "\<bar>skip_first div 86400\<bar> \<le> 999999999" "\<bar>skip_last div 86400\<bar> \<le> 999999999"
  shows "count_main lines skip_first skip_last =
    Inr (length (filter (counted skip_first skip_last (hd (stamps count_parse_ts lines))
       (last (stamps count_parse_ts lines))) lines))"
proof -
  have "lines \<noteq> []" using assms(2) by (auto simp: stamps_def map_filter_def)
  moreover have "scan_ts count_parse_ts lines (None, None) =
      Inr (Some (hd (stamps count_parse_ts lines)), Some (last (stamps count_parse_ts lines)))"
    using assms(1,2) by (subst scan_ts_spec) (auto simp: first_last_def dest: count_parse_ts_Inl)
  ultimately show ?thesis
    using count_loop_spec [OF assms(1), of skip_first _ skip_last] assms(3,4)
    by (simp add: count_main_def timedelta_def)
qed

definition sample_log :: "string list" where
  "sample_log =
     [''I20250422 13:17:00.000000 7 node.cpp:1] start'' @ [newline],
      ''I20250422 13:17:40.000000 7 node.cpp:2] Election timeout occurred. Starting leader election'' @ [newline],
      ''I20250422 13:17:50.000000 7 node.cpp:3] other'' @ [newline],
      ''not a log line'' @ [newline],
      ''I20250422 13:18:30.000000 7 node.cpp:4] Election timeout occurred. Starting leader election'' @ [newline]]"

lemma sample_log_stamps:
  "map count_parse_ts sample_log =
     [Inr (Some (Datetime 2025 4 22 13 17 0 0)), Inr (Some (Datetime 2025 4 22 13 17 40 0)),
      Inr (Some (Datetime 2025 4 22 13 17 50 0)), Inr None, Inr (Some (Datetime 2025 4 22 13 18 30 0))]"
  by code_simp

theorem count_main_counts_witness:
  "count_main sample_log 30 10 = Inr 1"
proof -
  note st = sample_log_stamps [unfolded sample_log_def, simplified]
  have 1: "\<forall>line \<in> set sample_log. \<not> raises count_parse_ts line"
    using sample_log_stamps by (auto simp: sample_log_def raises_def)
  have 2: "stamps count_parse_ts sample_log = [Datetime 2025 4 22 13 17 0 0, Datetime 2025 4 22 13 17 40 0,
      Datetime 2025 4 22 13 17 50 0, Datetime 2025 4 22 13 18 30 0]"
    using sample_log_stamps by (simp add: stamps_def sample_log_def map_filter_def stamp_def)
  have 3: "length (filter (counted 30 10 (Datetime 2025 4 22 13 17 0 0) (Datetime 2025 4 22 13 18 30 0)) sample_log) = 1"
    by code_simp
  show ?thesis using count_main_counts [OF 1, of 30 10] 3 by (simp add: 2)
qed

end
