(* ===== verification/Detect_Stats.thy ===== *)
theory Detect_Stats
  imports Log_Window
begin

text \<open>
  \<open>scripts/remote_detect_stats.py\<close>: collect the election-timeout values of a Raft log between two
  cut-off times and write their number, mean and population deviation. \<open>detect_main\<close> is the
  script's \<open>main\<close> on the lines of the file and the two options; the triple it returns is the
  line written to the output file, before its six-digit rounding.
\<close>

definition detect_PAT_LINE :: regex where
  "detect_PAT_LINE = rseq [lit ''Using Raft estimation for election timeout:'', plus rspace,
     Cap 1 (plus rnumber), plus rspace, lit ''Milliseconds'']"

definition detect_TS_RE :: regex where
  "detect_TS_RE = rseq [Bos, lit ''I'', Cap 1 (rep 8 rdigit), plus rspace, Cap 2 clock_re]"

definition detect_parse_ts :: "string \<Rightarrow> datetime option res" where
  "detect_parse_ts line =
     (case re_match detect_TS_RE line of
        None \<Rightarrow> Inr None
      | Some m \<Rightarrow> bind_res (strptime (group m 1 @ '' '' @ group m 2)) (\<lambda>t. Inr (Some t)))"

fun detect_loop :: "int \<Rightarrow> int \<Rightarrow> string list \<Rightarrow> real list \<Rightarrow> real list res" where
  "detect_loop low_cut high_cut [] samples = Inr samples"
| "detect_loop low_cut high_cut (line # lines) samples =
     bind_res (detect_parse_ts line) (\<lambda>ts. case ts of
        None \<Rightarrow> detect_loop low_cut high_cut lines samples
      | Some t \<Rightarrow>
          if \<not> (low_cut \<le> us_of t \<and> us_of t \<le> high_cut) then detect_loop low_cut high_cut lines samples
          else (case re_search detect_PAT_LINE line of
            None \<Rightarrow> detect_loop low_cut high_cut lines samples
          | Some m \<Rightarrow> bind_res (float_number (group m 1)) (\<lambda>x.
              detect_loop low_cut high_cut lines (samples @ [x]))))"

definition detect_summary :: "real list \<Rightarrow> nat \<times> real \<times> real" where
  "detect_summary samples =
     (length samples,
      if samples \<noteq> [] then mean_of samples else 0,
      if samples \<noteq> [] then (if 1 < length samples then pstdev samples else 0) else 0)"

definition detect_main :: "string list \<Rightarrow> int \<Rightarrow> int \<Rightarrow> (nat \<times> real \<times> real) res" where
  "detect_main lines skip_first skip_last =
     (if lines = [] then Inl (SystemExit ''Empty log.'')
      else bind_res (scan_ts detect_parse_ts lines (None, None)) (\<lambda>fl. case fl of
        (Some first_ts, Some last_ts) \<Rightarrow>
          bind_res (timedelta skip_first) (\<lambda>da.
          bind_res (add_delta first_ts da) (\<lambda>low_cut.
          bind_res (timedelta skip_last) (\<lambda>db.
          bind_res (add_delta last_ts (- db)) (\<lambda>high_cut.
          bind_res (detect_loop low_cut high_cut lines []) (\<lambda>samples.
          Inr (detect_summary samples))))))
      | _ \<Rightarrow> Inl (SystemExit ''No timestamps found.'')))"

subsection \<open>The window of this script\<close>

definition detect_keep :: "int \<Rightarrow> int \<Rightarrow> datetime \<Rightarrow> datetime \<Rightarrow> datetime \<Rightarrow> bool" where
  "detect_keep a b f l t \<longleftrightarrow> us_of f + a * 1000000 \<le> us_of t \<and> us_of t \<le> us_of l + - (b * 1000000)"

interpretation detect_window: window detect_keep
  by unfold_locales (auto simp: detect_keep_def)

text \<open>The number a line reports, if it is stamped inside the window and reports one.\<close>

definition reported :: "int \<Rightarrow> int \<Rightarrow> datetime \<Rightarrow> datetime \<Rightarrow> string \<Rightarrow> real res option" where
  "reported a b f l line = (case stamp detect_parse_ts line of None \<Rightarrow> None
     | Some t \<Rightarrow> if detect_keep a b f l t
         then map_option (\<lambda>m. float_number (group m 1)) (re_search detect_PAT_LINE line) else None)"

definition samples_of :: "int \<Rightarrow> int \<Rightarrow> datetime \<Rightarrow> datetime \<Rightarrow> string list \<Rightarrow> real list" where
  "samples_of a b f l lines =
     List.map_filter (\<lambda>line. case reported a b f l line of Some (Inr x) \<Rightarrow> Some x | _ \<Rightarrow> None) lines"

lemma detect_parse_ts_Inl: "detect_parse_ts l = Inl e \<Longrightarrow> e = ValueError"
  by (auto simp: detect_parse_ts_def bind_res_def split: option.splits sum.splits dest: strptime_Inl)

lemma detect_summary_eq: "detect_summary s = (length s, mean_of s, pstdev s)"
proof (cases s)
  case Nil
  then show ?thesis by (simp add: detect_summary_def mean_of_def pstdev_def pvariance_def)
next
  case (Cons x xs)
  then show ?thesis
    by (cases xs) (simp_all add: detect_summary_def mean_of_def pstdev_def pvariance_def)
qed

lemma detect_loop_spec:
  assumes "\<forall>line \<in> set lines. \<not> raises detect_parse_ts line"
    and "\<forall>line \<in> set lines. \<forall>e. reported a b f l line \<noteq> Some (Inl e)"
  shows "detect_loop (us_of f + a * 1000000) (us_of l + - (b * 1000000)) lines s =
     Inr (s @ samples_of a b f l lines)"
  using assms
proof (induction lines arbitrary: s)
  case Nil
  then show ?case by (simp add: samples_of_def map_filter_def)
next
  case (Cons line lines)
  from Cons.prems(1) have ok: "detect_parse_ts line = Inr (stamp detect_parse_ts line)"
    by (simp add: not_raises_iff)
  from Cons have IH: "detect_loop (us_of f + a * 1000000) (us_of l + - (b * 1000000)) lines s =
     Inr (s @ samples_of a b f l lines)" for s by simp
  note defs = reported_def [of a b f l line] detect_keep_def samples_of_def map_filter_def
  show ?case
  proof (cases "stamp detect_parse_ts line")
    case None
    with ok have "detect_parse_ts line = Inr None" by simp
    with None IH show ?thesis by (simp add: defs)
  next
    case (Some t)
    with ok have p: "detect_parse_ts line = Inr (Some t)" by simp
    show ?thesis
    proof (cases "detect_keep a b f l t \<and> re_search detect_PAT_LINE line \<noteq> None")
      case False
      with p Some IH show ?thesis by (auto simp: defs split: option.splits)
    next
      case True
      then obtain m where m: "re_search detect_PAT_LINE line = Some m" by blast
      have "reported a b f l line = Some (float_number (group m 1))"
        using True Some m by (simp add: reported_def)
      moreover from this Cons.prems(2) obtain x where "float_number (group m 1) = Inr x"
        by (cases "float_number (group m 1)") auto
      ultimately show ?thesis using p True m IH by (simp add: detect_keep_def samples_of_def map_filter_def)
    qed
  qed
qed

subsection \<open>What the script computes\<close>

text \<open>
  On a log whose timestamps and reported numbers all parse, with cut-off times
  inside the calendar, the script writes the number, the mean and the population standard
  deviation of exactly the values reported by lines stamped between the two cut-off times, in
  file order (zero, 0 and 0 when there is none).
\<close>

theorem detect_main_stats:
  fixes lines :: "string list" and a b :: int
  defines "f \<equiv> hd (stamps detect_parse_ts lines)" and "l \<equiv> last (stamps detect_parse_ts lines)"
  assumes "\<forall>line \<in> set lines. \<not> raises detect_parse_ts line" "stamps detect_parse_ts lines \<noteq> []"
    and "\<forall>line \<in> set lines. \<forall>e. reported a b f l line \<noteq> Some (Inl e)"
    and "timedelta a = Inr da" "add_delta f da = Inr lo" "timedelta b = Inr db" "add_delta l (- db) = Inr hi"
  shows "detect_main lines a b =
    Inr (length (samples_of a b f l lines), mean_of (samples_of a b f l lines), pstdev (samples_of a b f l lines))"
proof -
  have "lines \<noteq> []" using assms(4) by (auto simp: stamps_def map_filter_def)
  moreover have "scan_ts detect_parse_ts lines (None, None) = Inr (Some f, Some l)"
    using assms(3,4) by (subst scan_ts_spec) (auto simp: first_last_def f_def l_def dest: detect_parse_ts_Inl)
  moreover have "lo = us_of f + a * 1000000" "hi = us_of l + - (b * 1000000)"
    using assms(6-9) by (auto simp: timedelta_def add_delta_def Let_def split: if_splits)
  ultimately show ?thesis
    using detect_loop_spec [OF assms(3,5), of "[]"] assms(6-9)
    by (simp add: detect_main_def detect_summary_eq)
qed

text \<open>A four-line log for the witness; the lines are kept folded in the proofs.\<close>

definition dlog1 :: string where
  "dlog1 = ''I20250422 13:17:00.000000 7 node.cpp:1] start'' @ [newline]"
definition dlog2 :: string where
  "dlog2 = ''I20250422 13:17:40.000000 7 node.cpp:2] Using Raft estimation for election timeout: 267.5 Milliseconds''"
definition dlog3 :: string where
  "dlog3 = ''I20250422 13:17:41.000000 7 node.cpp:2] Using Raft estimation for election timeout: 268.5 Milliseconds''"
definition dlog4 :: string where
  "dlog4 = ''I20250422 13:18:30.000000 7 node.cpp:4] Using Raft estimation for election timeout: 900 Milliseconds''"

definition detect_log :: "string list" where
  "detect_log = [dlog1, dlog2, dlog3, dlog4]"

lemma dlog_ts:
  "detect_parse_ts dlog1 = Inr (Some (Datetime 2025 4 22 13 17 0 0))"
  "detect_parse_ts dlog2 = Inr (Some (Datetime 2025 4 22 13 17 40 0))"
  "detect_parse_ts dlog3 = Inr (Some (Datetime 2025 4 22 13 17 41 0))"
  "detect_parse_ts dlog4 = Inr (Some (Datetime 2025 4 22 13 18 30 0))"
  by code_simp+

lemma dlog_search:
  "re_search detect_PAT_LINE dlog2 = Some [(1, ''267.5'')]"
  "re_search detect_PAT_LINE dlog3 = Some [(1, ''268.5'')]"
  by code_simp+

lemma dlog_us:
  "us_of (Datetime 2025 4 22 13 17 0 0) = 63881011020000000"
  "us_of (Datetime 2025 4 22 13 17 40 0) = 63881011060000000"
  "us_of (Datetime 2025 4 22 13 17 41 0) = 63881011061000000"
  "us_of (Datetime 2025 4 22 13 18 30 0) = 63881011110000000"
  "us_min = 86400000000" "us_max = 315537983999999999"
  by code_simp+

lemma dlog_float: "float_number ''267.5'' = Inr (535 / 2)" "float_number ''268.5'' = Inr (537 / 2)"
  by (simp_all add: float_number_def is_digit_def code_def int_of_digits_def digit_val_def)

lemmas dlog = dlog_ts dlog_search dlog_us dlog_float detect_log_def

lemma detect_log_stamps:
  "\<forall>line \<in> set detect_log. \<not> raises detect_parse_ts line"
  "stamps detect_parse_ts detect_log = [Datetime 2025 4 22 13 17 0 0, Datetime 2025 4 22 13 17 40 0,
     Datetime 2025 4 22 13 17 41 0, Datetime 2025 4 22 13 18 30 0]"
  by (simp_all add: dlog raises_def stamps_def map_filter_def stamp_def)

lemma detect_log_reported:
  "map (reported 30 10 (Datetime 2025 4 22 13 17 0 0) (Datetime 2025 4 22 13 18 30 0)) detect_log =
     [None, Some (Inr (535 / 2)), Some (Inr (537 / 2)), None]"
  by (simp add: dlog reported_def stamp_def detect_keep_def group_def)

theorem detect_main_stats_witness: "detect_main detect_log 30 10 = Inr (2, 268, 1 / 2)"
proof -
  let ?f = "Datetime 2025 4 22 13 17 0 0" and ?l = "Datetime 2025 4 22 13 18 30 0"
  have r: "\<forall>line \<in> set detect_log. \<forall>e. reported 30 10 ?f ?l line \<noteq> Some (Inl e)"
    using detect_log_reported by (simp add: detect_log_def)
  have s: "samples_of 30 10 ?f ?l detect_log = [535 / 2, 537 / 2]"
    using detect_log_reported by (simp add: samples_of_def List.map_filter_simps detect_log_def)
  have st: "mean_of [535 / 2, 537 / 2 :: real] = 268" "pstdev [535 / 2, 537 / 2] = 1 / 2"
  proof -
    show m: "mean_of [535 / 2, 537 / 2 :: real] = 268" by (simp add: mean_of_def)
    have "pvariance [535 / 2, 537 / 2] = (1 / 2)\<^sup>2"
      by (simp add: pvariance_def mean_of_def power2_eq_square)
    then show "pstdev [535 / 2, 537 / 2] = 1 / 2" by (simp add: pstdev_def real_sqrt_abs)
  qed
  have "timedelta 30 = Inr 30000000" "timedelta 10 = Inr 10000000" by code_simp+
  moreover have "add_delta ?f 30000000 = Inr 63881011050000000" "add_delta ?l (- 10000000) = Inr 63881011100000000"
    by (simp_all add: add_delta_def dlog)
  ultimately show ?thesis
    using detect_main_stats [OF detect_log_stamps(1), where a = 30 and b = 10] r
    by (simp add: detect_log_stamps(2) s st)
qed

end
