(* ===== verification/Throughput.thy ===== *)
theory Throughput
  imports Log_Window
begin

text \<open>
  The throughput pipeline: \<open>scripts/remote_thp_summary.py\<close> turns a client log into a CSV of
  successful responses per second, \<open>scripts/merge_thp_summaries.py\<close> adds the CSVs of several
  nodes. The CSV text is the interface between the two scripts; \<open>csv_cell\<close> states what a cell
  must satisfy to survive it, and the two columns are interpretations of it.
\<close>

subsection \<open>remote_thp_summary.py\<close>

definition thp_RE_LINE :: regex where
  "thp_RE_LINE = rseq [Bos, lit ''I'', Cap 1 (rep 8 rdigit), plus rspace, Cap 2 clock_re, rspace,
     LStar rdot, lit ''Received ClientResponse:'', LStar rdot, Wordb, lit ''success=1'', Wordb]"

text \<open>The generator, run to its end by \<open>sorted\<close>: an impossible date raises there.\<close>

fun parse_success_timestamps :: "string list \<Rightarrow> datetime list res" where
  "parse_success_timestamps [] = Inr []"
| "parse_success_timestamps (line # lines) =
     (case re_search thp_RE_LINE line of
        None \<Rightarrow> parse_success_timestamps lines
      | Some m \<Rightarrow> bind_res (strptime (group m 1 @ '' '' @ group m 2)) (\<lambda>t.
          bind_res (parse_success_timestamps lines) (\<lambda>ts. Inr (t # ts))))"

definition thp_buckets :: "datetime list \<Rightarrow> (datetime, nat) dict" where
  "thp_buckets ts = foldl (\<lambda>per_sec t. bump per_sec (trunc_second t)) [] ts"

definition thp_row :: "datetime \<times> nat \<Rightarrow> string" where
  "thp_row r = strftime_csv (fst r) @ '','' @ show_int (int (snd r)) @ [newline]"

definition thp_rows :: "string list \<Rightarrow> int \<Rightarrow> (datetime, nat) dict res" where
  "thp_rows lines trim =
     bind_res (parse_success_timestamps lines) (\<lambda>ts0.
     let ts = sort ts0 in
     if ts = [] then Inl (SystemExit ''No successful responses found.'')
     else bind_res (timedelta trim) (\<lambda>d.
          bind_res (add_delta (hd ts) d) (\<lambda>start_ok.
          bind_res (add_delta (last ts) (- d)) (\<lambda>end_ok.
          let kept = filter (\<lambda>t. start_ok \<le> us_of t \<and> us_of t \<le> end_ok) ts in
          if kept = [] then Inl (SystemExit ''All samples trimmed away.'')
          else Inr (sort (thp_buckets kept))))))"

definition thp_main :: "string list \<Rightarrow> int \<Rightarrow> string list res" where
  "thp_main lines trim =
     bind_res (thp_rows lines trim) (\<lambda>per_sec.
       Inr ((''timestamp,throughput'' @ [newline]) # map thp_row per_sec))"

subsection \<open>merge_thp_summaries.py\<close>

text \<open>
  \<open>csv.DictReader\<close> over the lines of a file without quoted cells: the first row that is not
  blank names the columns, blank rows are skipped, a missing cell is \<open>None\<close>.
\<close>

definition chomp :: "string \<Rightarrow> string" where
  "chomp l = takeWhile (\<lambda>c. c \<noteq> newline \<and> c \<noteq> CHR 0x0D) l"

definition csv_cells :: "string \<Rightarrow> string list" where
  "csv_cells l = (if chomp l = [] then [] else split_on (CHR '','') (chomp l))"

definition cell :: "string list \<Rightarrow> string list \<Rightarrow> string \<Rightarrow> string option res" where
  "cell header row name =
     (if name \<notin> set header then Inl KeyError else Inr (map_of (rev (zip header row)) name))"

fun read_rows :: "string list \<Rightarrow> string list list \<Rightarrow> (datetime, int) dict \<Rightarrow> (datetime, int) dict res" where
  "read_rows header [] d = Inr d"
| "read_rows header (row # rows) d =
     bind_res (cell header row ''timestamp'') (\<lambda>c1. case c1 of
       None \<Rightarrow> Inl TypeError
     | Some s1 \<Rightarrow> bind_res (fromisoformat s1) (\<lambda>ts.
         bind_res (cell header row ''throughput'') (\<lambda>c2. case c2 of
           None \<Rightarrow> Inl TypeError
         | Some s2 \<Rightarrow> bind_res (py_int s2) (\<lambda>n. read_rows header rows (AList.update ts n d)))))"

definition read_summary :: "string list \<Rightarrow> (datetime, int) dict res" where
  "read_summary lines =
     (case filter (\<lambda>r. r \<noteq> []) (map csv_cells lines) of
        [] \<Rightarrow> Inr []
      | header # rows \<Rightarrow> read_rows header rows [])"

definition add_all :: "(datetime, int) dict \<Rightarrow> (datetime, int) dict \<Rightarrow> (datetime, int) dict" where
  "add_all merged data = foldl (\<lambda>m p. bump_by m (fst p) (snd p)) merged data"

fun merge_files :: "string list list \<Rightarrow> (datetime, int) dict \<Rightarrow> (datetime, int) dict res" where
  "merge_files [] merged = Inr merged"
| "merge_files (f # fs) merged = bind_res (read_summary f) (\<lambda>data. merge_files fs (add_all merged data))"

text \<open>The rows of the merged CSV (and of the plot), in time order.\<close>

definition merge_main :: "string list list \<Rightarrow> (datetime, int) dict res" where
  "merge_main csv_files =
     (if length csv_files < 2 then Inl (SystemExit ''Need at least two CSV files to merge.'')
      else bind_res (merge_files csv_files []) (\<lambda>merged.
        if merged = [] then Inl (SystemExit ''No data to merge.'') else Inr (sort merged)))"

subsection \<open>The cells of the CSV\<close>

text \<open>A column: how a value is written, how it is read back, and which values it is for.\<close>

locale csv_cell =
  fixes enc :: "'a \<Rightarrow> string" and dec :: "string \<Rightarrow> 'b res" and val :: "'a \<Rightarrow> 'b" and ok :: "'a \<Rightarrow> bool"
  assumes dec_enc: "ok x \<Longrightarrow> dec (enc x) = Inr (val x)"
    and enc_clean: "ok x \<Longrightarrow> c \<in> set (enc x) \<Longrightarrow> c \<noteq> CHR '','' \<and> c \<noteq> newline \<and> c \<noteq> CHR 0x0D"
    and enc_nonempty: "ok x \<Longrightarrow> enc x \<noteq> []"
begin

lemma chomp_clean: "ok x \<Longrightarrow> chomp (enc x @ s) = enc x @ chomp s"
  using enc_clean [of x] by (simp add: chomp_def takeWhile_append)

lemma split_enc: "ok x \<Longrightarrow> split_on (CHR '','') (enc x @ CHR '','' # s) = enc x # split_on (CHR '','') s"
  using enc_clean [of x] by (intro split_on_append) auto

lemma split_enc_end: "ok x \<Longrightarrow> split_on (CHR '','') (enc x) = [enc x]"
  using enc_clean [of x] by (intro split_on_no_sep) auto

end

definition second_ok :: "datetime \<Rightarrow> bool" where
  "second_ok d \<longleftrightarrow> valid_dt d \<and> 1000 \<le> dt_year d \<and> dt_us d = 0"

lemma second_ok_trunc: "second_ok d \<Longrightarrow> trunc_second d = d"
  by (cases d) (simp add: second_ok_def trunc_second_def)

lemma strftime_chars:
  assumes "valid_dt d" "c \<in> set (strftime_csv d)"
  shows "is_digit c \<or> c = CHR ''-'' \<or> c = CHR '' '' \<or> c = CHR '':''"
proof -
  have "0 \<le> dt_year d" "0 \<le> dt_month d" "0 \<le> dt_day d" "0 \<le> dt_hour d" "0 \<le> dt_minute d" "0 \<le> dt_second d"
    using assms(1) by (auto simp: valid_dt_def)
  then show ?thesis
    using assms(2) list_all_show_int list_all_pad [of _ 2]
    by (fastforce simp: strftime_csv_def list_all_iff)
qed

interpretation time_cell: csv_cell strftime_csv fromisoformat "\<lambda>d. d" second_ok
proof
  fix x c
  assume ok: "second_ok x"
  then show "fromisoformat (strftime_csv x) = Inr x"
    using fromisoformat_strftime [of x] second_ok_trunc [of x] by (simp add: second_ok_def)
  show "strftime_csv x \<noteq> []" by (simp add: strftime_csv_def)
  assume "c \<in> set (strftime_csv x)"
  then show "c \<noteq> CHR '','' \<and> c \<noteq> newline \<and> c \<noteq> CHR 0x0D"
    using strftime_chars [of x c] ok digit_chars by (auto simp: second_ok_def)
qed

interpretation count_cell: csv_cell "\<lambda>n. show_int (int n)" py_int int "\<lambda>_. True"
proof
  fix x c
  show "py_int (show_int (int x)) = Inr (int x)" by (simp add: py_int_show_int)
  show "show_int (int x) \<noteq> []" by simp
  assume "c \<in> set (show_int (int x))"
  then show "c \<noteq> CHR '','' \<and> c \<noteq> newline \<and> c \<noteq> CHR 0x0D"
    using list_all_show_int [of "int x"] digit_chars by (auto simp: list_all_iff)
qed

lemma csv_cells_row: "second_ok (fst r) \<Longrightarrow> csv_cells (thp_row r) = [strftime_csv (fst r), show_int (int (snd r))]"
proof -
  assume ok: "second_ok (fst r)"
  have "chomp (CHR '','' # show_int (int (snd r)) @ [newline]) = CHR '','' # show_int (int (snd r))"
    using count_cell.chomp_clean [of "snd r" "[newline]"] by (simp add: chomp_def)
  then have "chomp (thp_row r) = strftime_csv (fst r) @ CHR '','' # show_int (int (snd r))"
    unfolding thp_row_def using time_cell.chomp_clean [OF ok] by simp
  then show ?thesis
    using time_cell.split_enc [OF ok] count_cell.split_enc_end by (simp add: csv_cells_def)
qed

lemma csv_cells_header: "csv_cells (''timestamp,throughput'' @ [newline]) = [''timestamp'', ''throughput'']"
  by code_simp

lemma read_rows_written:
  "\<forall>r \<in> set rows. second_ok (fst r) \<Longrightarrow>
     read_rows [''timestamp'', ''throughput''] (map (\<lambda>r. csv_cells (thp_row r)) rows) d
       = Inr (foldl (\<lambda>d p. AList.update (fst p) (snd p) d) d (map (\<lambda>r. (fst r, int (snd r))) rows))"
  by (induction rows arbitrary: d)
    (auto simp: csv_cells_row cell_def time_cell.dec_enc count_cell.dec_enc)

subsection \<open>Summaries: what is counted\<close>

definition thp_keep :: "int \<Rightarrow> int \<Rightarrow> datetime \<Rightarrow> datetime \<Rightarrow> datetime \<Rightarrow> bool" where
  "thp_keep a b f l t \<longleftrightarrow> us_of f + a * 1000000 \<le> us_of t \<and> us_of t \<le> us_of l + - (b * 1000000)"

interpretation thp_window: window thp_keep
  by unfold_locales (auto simp: thp_keep_def)

text \<open>The timestamps that survive the trimming, in the order of the log.\<close>

definition kept :: "int \<Rightarrow> datetime list \<Rightarrow> datetime list" where
  "kept trim ts = filter (thp_keep trim trim (hd (sort ts)) (last (sort ts))) ts"

lemma parse_success_valid:
  "parse_success_timestamps lines = Inr ts \<Longrightarrow> t \<in> set ts \<Longrightarrow> valid_dt t"
  by (induction lines arbitrary: ts)
    (auto simp: bind_res_Inr_iff split: option.splits dest: strptime_valid)

lemma thp_buckets_eq: "thp_buckets ts = foldl bump [] (map trunc_second ts)"
  by (simp add: thp_buckets_def foldl_map)

lemma wf_thp_buckets: "wf_dict (thp_buckets ts)"
  unfolding thp_buckets_eq by (rule dict_counter.invar_foldl) simp

lemma thp_rows_Inr:
  assumes "parse_success_timestamps lines = Inr ts" "thp_rows lines trim = Inr rows"
  shows "rows = sort (thp_buckets (sort (kept trim ts))) \<and> kept trim ts \<noteq> []"
proof -
  from assms obtain lo hi where
    "sort ts \<noteq> []" "lo = us_of (hd (sort ts)) + trim * 1000000" "hi = us_of (last (sort ts)) + - (trim * 1000000)"
    and r: "filter (\<lambda>t. lo \<le> us_of t \<and> us_of t \<le> hi) (sort ts) \<noteq> []"
    "rows = sort (thp_buckets (filter (\<lambda>t. lo \<le> us_of t \<and> us_of t \<le> hi) (sort ts)))"
    by (auto simp: thp_rows_def Let_def bind_res_Inr_iff timedelta_def add_delta_def split: if_splits)
  then have "(\<lambda>t. lo \<le> us_of t \<and> us_of t \<le> hi) = thp_keep trim trim (hd (sort ts)) (last (sort ts))"
    by (auto simp: thp_keep_def)
  with r show ?thesis
    by (simp add: kept_def filter_sort) (metis filter_sort sort_key_simps(1))
qed

lemma thp_rows_keys:
  assumes "parse_success_timestamps lines = Inr ts" "thp_rows lines trim = Inr rows"
  shows "fst ` set rows = trunc_second ` set (kept trim ts)" "wf_dict rows"
  using thp_rows_Inr [OF assms] wf_thp_buckets
  by (auto simp: thp_buckets_eq keys_foldl_bump)

lemma count_list_map_filter: "count_list (map f xs) y = length (filter (\<lambda>x. f x = y) xs)"
  by (induction xs) auto

lemma count_list_sort: "count_list (map f (sort xs)) y = count_list (map f xs) y"
  by (metis count_mset mset_map mset_sort)

lemma thp_rows_count:
  assumes "parse_success_timestamps lines = Inr ts" "thp_rows lines trim = Inr rows"
  shows "dict_get rows s 0 = length (filter (\<lambda>t. trunc_second t = s) (kept trim ts))"
    and "sum_list (map snd rows) = length (kept trim ts)"
proof -
  have rows: "rows = sort (thp_buckets (sort (kept trim ts)))" using thp_rows_Inr [OF assms] ..
  have "dict_get rows s 0 = count_list (map trunc_second (sort (kept trim ts))) s"
    unfolding rows thp_buckets_eq
    by (subst dict_get_sort) (simp_all add: dict_counter.look_count dict_counter.invar_foldl)
  then show "dict_get rows s 0 = length (filter (\<lambda>t. trunc_second t = s) (kept trim ts))"
    by (simp only: count_list_sort) (simp add: count_list_map_filter)
  show "sum_list (map snd rows) = length (kept trim ts)"
    unfolding rows sum_list_sort thp_buckets_eq by (simp add: dict_counter.total_count)
qed

text \<open>
  The per-second summary of a client log has one row per second in which a
  successful response survived the trimming, in strictly increasing time order; the row of a
  second holds the number of surviving responses of that second, and the counts of all rows add
  up to the number of surviving responses.
\<close>

theorem thp_rows_summary:
  assumes "parse_success_timestamps lines = Inr ts" "thp_rows lines trim = Inr rows"
  shows "sorted (map fst rows) \<and> distinct (map fst rows) \<and> set (map fst rows) = trunc_second ` set (kept trim ts)
    \<and> (\<forall>s. dict_get rows s 0 = length (filter (\<lambda>t. trunc_second t = s) (kept trim ts)))
    \<and> sum_list (map snd rows) = length (kept trim ts)"
proof -
  have "sorted (map fst rows)" using thp_rows_Inr [OF assms] sorted_keys_sort by blast
  with thp_rows_keys [OF assms] thp_rows_count [OF assms] show ?thesis
    by (simp add: wf_dict_def)
qed

text \<open>A client log with four successful responses and one failure, for the witnesses.\<close>

definition clog :: "string \<Rightarrow> string \<Rightarrow> string" where
  "clog clock ok = ''I20250422 '' @ clock @ '' 9 client.cpp:1] Received ClientResponse: latency= 6.7, success='' @ ok
     @ '', from=127.0.0.4'' @ [newline]"

definition clog1 :: string where "clog1 = clog ''13:17:00.000000'' ''1''"
definition clog2 :: string where "clog2 = clog ''13:17:15.200000'' ''1''"
definition clog3 :: string where "clog3 = clog ''13:17:15.900000'' ''1''"
definition clog4 :: string where "clog4 = clog ''13:17:16.000000'' ''0''"
definition clog5 :: string where "clog5 = clog ''13:17:30.000000'' ''1''"

definition client_log :: "string list" where
  "client_log = [clog5, clog1, clog2, clog3, clog4]"

lemma client_log_ts:
  "parse_success_timestamps client_log = Inr [Datetime 2025 4 22 13 17 30 0, Datetime 2025 4 22 13 17 0 0,
     Datetime 2025 4 22 13 17 15 200000, Datetime 2025 4 22 13 17 15 900000]"
  by code_simp

lemma client_log_rows: "thp_rows client_log 10 = Inr [(Datetime 2025 4 22 13 17 15 0, 2)]"
  by code_simp

theorem thp_rows_summary_witness:
  "dict_get [(Datetime 2025 4 22 13 17 15 0, 2)] (Datetime 2025 4 22 13 17 15 0) 0
     = length (filter (\<lambda>t. trunc_second t = Datetime 2025 4 22 13 17 15 0)
         (kept 10 [Datetime 2025 4 22 13 17 30 0, Datetime 2025 4 22 13 17 0 0,
            Datetime 2025 4 22 13 17 15 200000, Datetime 2025 4 22 13 17 15 900000]))"
  using thp_rows_summary [OF client_log_ts client_log_rows] by blast

subsection \<open>Through the CSV and into the merge\<close>

definition recent :: "datetime list \<Rightarrow> bool" where
  "recent ts \<longleftrightarrow> (\<forall>t \<in> set ts. 1000 \<le> dt_year t)"

lemma thp_rows_second_ok:
  assumes "parse_success_timestamps lines = Inr ts" "recent ts" "thp_rows lines trim = Inr rows"
  shows "\<forall>r \<in> set rows. second_ok (fst r)"
proof
  fix r
  assume "r \<in> set rows"
  then obtain t where t: "t \<in> set ts" "fst r = trunc_second t"
    using thp_rows_keys [OF assms(1,3)] by (force simp: kept_def)
  then show "second_ok (fst r)"
    using parse_success_valid [OF assms(1)] trunc_second_valid [of t] assms(2)
    by (auto simp: second_ok_def recent_def) (simp_all add: trunc_second_def)
qed

lemma thp_main_Inr:
  "thp_main lines trim = Inr csv \<longleftrightarrow>
     (\<exists>rows. thp_rows lines trim = Inr rows \<and> csv = (''timestamp,throughput'' @ [newline]) # map thp_row rows)"
  by (auto simp: thp_main_def bind_res_Inr_iff)

lemma read_summary_written:
  assumes "parse_success_timestamps lines = Inr ts" "recent ts" "thp_rows lines trim = Inr rows"
  shows "read_summary ((''timestamp,throughput'' @ [newline]) # map thp_row rows) = Inr (map (\<lambda>r. (fst r, int (snd r))) rows)"
proof -
  let ?csv = "(''timestamp,throughput'' @ [newline]) # map thp_row rows"
  have ok: "\<forall>r \<in> set rows. second_ok (fst r)" by (rule thp_rows_second_ok [OF assms])
  then have "filter (\<lambda>r. r \<noteq> []) (map csv_cells ?csv)
      = [''timestamp'', ''throughput''] # map (\<lambda>r. csv_cells (thp_row r)) rows"
    using csv_cells_header by (auto simp: csv_cells_row filter_id_conv simp del: append.simps)
  then have "read_summary ?csv = Inr (foldl (\<lambda>d p. AList.update (fst p) (snd p) d) [] (map (\<lambda>r. (fst r, int (snd r))) rows))"
    by (simp add: read_summary_def read_rows_written [OF ok])
  also have "\<dots> = Inr (map (\<lambda>r. (fst r, int (snd r))) rows)"
    using thp_rows_keys(2) [OF assms(1,3)] by (subst foldl_update_distinct) (auto simp: wf_dict_def o_def)
  finally show ?thesis .
qed

text \<open>
  C34: What the merge script reads back from the CSV a summary run writes is the
  summary itself: the same seconds, in the same order, with the same counts.
\<close>

theorem read_summary_thp_main:
  assumes "parse_success_timestamps lines = Inr ts" "recent ts" "thp_main lines trim = Inr csv"
  shows "\<exists>rows. thp_rows lines trim = Inr rows \<and> read_summary csv = Inr (map (\<lambda>r. (fst r, int (snd r))) rows)"
  using read_summary_written [OF assms(1,2)] assms(3) unfolding thp_main_Inr by blast

theorem read_summary_thp_main_witness:
  "\<exists>csv. thp_main client_log 10 = Inr csv \<and> read_summary csv = Inr [(Datetime 2025 4 22 13 17 15 0, 2)]"
proof -
  obtain csv where c: "thp_main client_log 10 = Inr csv"
    by (simp add: thp_main_def client_log_rows)
  from read_summary_thp_main [OF client_log_ts _ c] show ?thesis
    by (auto simp: recent_def client_log_rows c)
qed

lemma wf_add_all: "wf_dict m \<Longrightarrow> wf_dict (add_all m d)"
  unfolding add_all_def by (induction d arbitrary: m) auto

lemma keys_add_all: "fst ` set (add_all m d) = fst ` set m \<union> fst ` set d"
  unfolding add_all_def by (induction d arbitrary: m) (auto simp: set_keys_bump_by)

lemma dict_get_add_all:
  "wf_dict d \<Longrightarrow> dict_get (add_all m d) s 0 = dict_get m s 0 + dict_get d s 0"
proof (induction d arbitrary: m)
  case Nil
  then show ?case by (simp add: add_all_def)
next
  case (Cons p d)
  obtain k n where p: "p = (k, n)" by force
  from Cons.prems have wf: "wf_dict d" and k: "k \<notin> fst ` set d" by (auto simp: wf_dict_def p)
  have "add_all m (p # d) = add_all (bump_by m k n) d" by (simp add: add_all_def p)
  moreover have "dict_get (p # d) s 0 = (if s = k then n else dict_get d s 0)" by (simp add: dict_get_def p)
  moreover have "dict_get d k 0 = 0" using k by (auto simp: dict_get_def map_of_eq_None_iff [symmetric])
  ultimately show ?case using Cons.IH [OF wf, of "bump_by m k n"] by (auto simp: dict_simps)
qed

lemma merge_files_spec:
  assumes "list_all2 (\<lambda>f d. read_summary f = Inr d \<and> wf_dict d) files datas" "wf_dict m"
  shows "\<exists>m'. merge_files files m = Inr m' \<and> wf_dict m'
    \<and> (\<forall>s. dict_get m' s 0 = dict_get m s 0 + (\<Sum>d\<leftarrow>datas. dict_get d s 0))
    \<and> fst ` set m' = fst ` set m \<union> (\<Union>d \<in> set datas. fst ` set d)"
  using assms
proof (induction files datas arbitrary: m rule: list_all2_induct)
  case Nil
  then show ?case by simp
next
  case (Cons f fs d ds)
  from Cons.IH [OF wf_add_all [OF Cons.prems], of d] Cons.hyps(1) show ?case
    by (auto simp: dict_get_add_all keys_add_all ac_simps)
qed

lemma merge_main_run:
  assumes "list_all2 (\<lambda>f d. read_summary f = Inr d \<and> wf_dict d) files datas"
    and "2 \<le> length files" "\<exists>d \<in> set datas. d \<noteq> []"
  shows "\<exists>m. merge_main files = Inr m \<and> sorted (map fst m) \<and> wf_dict m
    \<and> fst ` set m = (\<Union>d \<in> set datas. fst ` set d)
    \<and> (\<forall>s. dict_get m s 0 = (\<Sum>d\<leftarrow>datas. dict_get d s 0))"
proof -
  from merge_files_spec [OF assms(1), of "[]"] obtain m where
    m: "merge_files files [] = Inr m" "wf_dict m" "\<forall>s. dict_get m s 0 = (\<Sum>d\<leftarrow>datas. dict_get d s 0)"
    "fst ` set m = (\<Union>d \<in> set datas. fst ` set d)" by auto
  from assms(3) have "(\<Union>d \<in> set datas. fst ` set d) \<noteq> {}" by simp
  with m(4) have "m \<noteq> []" by auto
  with m(1) assms(2) have "merge_main files = Inr (sort m)" by (simp add: merge_main_def)
  then show ?thesis
    using m sorted_keys_sort [of m] wf_dict_sort [OF m(2)] dict_get_sort [OF m(2)] by simp
qed

text \<open>
  Merging at least two readable summaries, not all of them empty, gives in
  increasing time order exactly the seconds that occur in one of them, and the value of each
  second is the sum of its values in all the summaries (0 where a summary lacks it).
\<close>

theorem merge_main_sums:
  assumes "list_all2 (\<lambda>f d. read_summary f = Inr d \<and> wf_dict d) files datas"
    and "2 \<le> length files" "\<exists>d \<in> set datas. d \<noteq> []"
  shows "\<exists>m. merge_main files = Inr m \<and> sorted (map fst m) \<and> distinct (map fst m)
    \<and> set (map fst m) = (\<Union>d \<in> set datas. set (map fst d))
    \<and> (\<forall>s. dict_get m s 0 = (\<Sum>d\<leftarrow>datas. dict_get d s 0))"
  using merge_main_run [OF assms] by (simp add: wf_dict_def)

definition csv_a :: "string list" where
  "csv_a = [''timestamp,throughput'' @ [newline], ''2025-04-22 13:17:15,2'' @ [newline]]"
definition csv_b :: "string list" where
  "csv_b = [''timestamp,throughput'' @ [newline], ''2025-04-22 13:17:16,5'' @ [newline], ''2025-04-22 13:17:15,40'' @ [newline]]"

lemma csv_ab_read:
  "read_summary csv_a = Inr [(Datetime 2025 4 22 13 17 15 0, 2)]"
  "read_summary csv_b = Inr [(Datetime 2025 4 22 13 17 16 0, 5), (Datetime 2025 4 22 13 17 15 0, 40)]"
  by code_simp+

theorem merge_main_sums_witness:
  "\<exists>m. merge_main [csv_a, csv_b] = Inr m \<and> dict_get m (Datetime 2025 4 22 13 17 15 0) 0 = 42
    \<and> dict_get m (Datetime 2025 4 22 13 17 16 0) 0 = 5"
proof -
  have "list_all2 (\<lambda>f d. read_summary f = Inr d \<and> wf_dict d) [csv_a, csv_b]
      [[(Datetime 2025 4 22 13 17 15 0, 2)], [(Datetime 2025 4 22 13 17 16 0, 5), (Datetime 2025 4 22 13 17 15 0, 40)]]"
    by (simp add: csv_ab_read wf_dict_def)
  from merge_main_sums [OF this] show ?thesis by (auto simp: dict_get_def)
qed

end
