(* ===== verification/Consistency.thy ===== *)
theory Consistency
  imports Py_Regex
begin

text \<open>
  \<open>scripts/verify_consistency.py\<close>: read the Raft log dumps of the nodes and check that every log
  index has a value (or an absence) on which a quorum of the nodes agrees. The script votes with
  strings; \<open>vote_inject\<close> shows that the strings stand for the opinions faithfully, so that
  \<open>majority_consistent\<close> decides the quorum condition on the entries themselves. \<open>majority\<close>
  is the interface of a quorum size: what follows from two quorums meeting is proved in it.
\<close>

definition ip_parts :: "int list" where
  "ip_parts = [2, 3, 4, 5, 6]"

definition dump_filenames :: "string list" where
  "dump_filenames = map (\<lambda>p. ''raftlog_dump_127.0.0.'' @ show_int p @ ''.log'') ip_parts"

definition N_NODES :: nat where
  "N_NODES = length dump_filenames"

definition QUORUM :: nat where
  "QUORUM = N_NODES div 2 + 1"

type_synonym entries = "(int, int \<times> string) dict"

definition dump_LINE_RE :: regex where
  "dump_LINE_RE = rseq [lit ''Index:'', Star rspace, Cap 1 (plus rdigit), lit '','', Star rspace,
     lit ''Term:'', Star rspace, Cap 2 (plus rdigit), lit '','', Star rspace, lit ''Command:'', Star rspace,
     Cap 3 (plus (Sym (\<lambda>c. c \<noteq> CHR '','')))]"

definition parse_dump_line :: "string \<Rightarrow> (int \<times> int \<times> string) option" where
  "parse_dump_line line =
     map_option (\<lambda>m. (int_of_digits (group m 1), int_of_digits (group m 2), strip (group m 3)))
       (re_search dump_LINE_RE line)"

definition parse_dump :: "string list \<Rightarrow> entries" where
  "parse_dump lines = foldl (\<lambda>entries line. case parse_dump_line line of
       None \<Rightarrow> entries
     | Some (idx, term, cmd) \<Rightarrow> AList.update idx (term, cmd) entries) [] lines"

text \<open>One file: an absent file counts as an empty log.\<close>

definition load_dump :: "string list option \<Rightarrow> entries" where
  "load_dump f = (case f of None \<Rightarrow> [] | Some lines \<Rightarrow> parse_dump lines)"

definition load_logs :: "(string \<Rightarrow> string list option) \<Rightarrow> (string, entries) dict" where
  "load_logs files = map (\<lambda>fname. (fname, load_dump (files fname))) dump_filenames"

subsection \<open>The majority check\<close>

definition MISSING :: string where "MISSING = ''<MISSING>''"

definition PRESENT :: "int \<times> string \<Rightarrow> string" where
  "PRESENT t_c = show_int (fst t_c) @ ''|'' @ snd t_c"

definition vote :: "int \<Rightarrow> entries \<Rightarrow> string" where
  "vote idx ent = (case map_of ent idx of None \<Rightarrow> MISSING | Some t_c \<Rightarrow> PRESENT t_c)"

definition votes_for :: "(string, entries) dict \<Rightarrow> int \<Rightarrow> (string, nat) dict" where
  "votes_for all_logs idx = foldl (\<lambda>c ent. bump c (vote idx ent)) [] (map snd all_logs)"

definition index_ok :: "(string, entries) dict \<Rightarrow> int \<Rightarrow> bool" where
  "index_ok all_logs idx \<longleftrightarrow>
     (case max_item (votes_for all_logs idx) of None \<Rightarrow> False | Some (val, votes) \<Rightarrow> QUORUM \<le> votes)"

definition all_indices :: "(string, entries) dict \<Rightarrow> int list" where
  "all_indices all_logs = sort (remdups (concat (map (\<lambda>d. map fst (snd d)) all_logs)))"

definition majority_consistent :: "(string, entries) dict \<Rightarrow> bool" where
  "majority_consistent all_logs =
     foldl (\<lambda>overall_ok idx. if index_ok all_logs idx then overall_ok else False) True (all_indices all_logs)"

subsection \<open>Quorums meet\<close>

locale majority =
  fixes n q :: nat
  assumes more_than_half: "n < 2 * q"
begin

lemma quorum_unique:
  assumes "length xs = n" "q \<le> length (filter (\<lambda>x. x = a) xs)" "q \<le> length (filter (\<lambda>x. x = b) xs)"
  shows "a = b"
proof (rule ccontr)
  assume "a \<noteq> b"
  then have "length (filter (\<lambda>x. x = a) xs) + length (filter (\<lambda>x. x = b) xs) \<le> length xs"
    by (induction xs) auto
  with assms more_than_half show False by simp
qed

text \<open>Two quorums of the same set share a member.\<close>

lemma quorums_meet:
  assumes "finite U" "card U = n" "A \<subseteq> U" "B \<subseteq> U" "q \<le> card A" "q \<le> card B"
  shows "A \<inter> B \<noteq> {}"
proof
  assume "A \<inter> B = {}"
  then have "card (A \<union> B) = card A + card B" using assms(1,3,4) by (intro card_Un_disjoint) (auto intro: finite_subset)
  moreover have "card (A \<union> B) \<le> n" using assms(1-4) card_mono [of U "A \<union> B"] by simp
  ultimately show False using assms(5,6) more_than_half by simp
qed

lemma quorum_positive: "0 < q"
  using more_than_half by simp

end

interpretation dump_majority: majority N_NODES QUORUM
  by unfold_locales (simp add: QUORUM_def)

lemma N_NODES_eq: "N_NODES = 5" and QUORUM_eq: "QUORUM = 3"
  by (simp_all add: QUORUM_def N_NODES_def dump_filenames_def ip_parts_def)

subsection \<open>Votes are opinions\<close>

definition terms_ok :: "entries \<Rightarrow> bool" where
  "terms_ok ent \<longleftrightarrow> (\<forall>(idx, term, cmd) \<in> set ent. 0 \<le> term)"

lemma show_int_bar:
  assumes "0 \<le> m" "0 \<le> n" "show_int m @ CHR ''|'' # s = show_int n @ CHR ''|'' # t"
  shows "m = n \<and> s = t"
proof -
  have no_bar: "CHR ''|'' \<notin> set (show_int k)" if "0 \<le> k" for k
    using list_all_show_int [OF that] by (auto simp: list_all_iff is_digit_def code_def)
  have "takeWhile (\<lambda>c. c \<noteq> CHR ''|'') (show_int k @ CHR ''|'' # u) = show_int k" if "0 \<le> k" for k u
    using no_bar [OF that] by (subst takeWhile_append2) auto
  then have "show_int m = show_int n"
    using assms by metis
  with assms show ?thesis by (simp add: show_int_inj)
qed

lemma PRESENT_inject: "0 \<le> fst a \<Longrightarrow> 0 \<le> fst b \<Longrightarrow> PRESENT a = PRESENT b \<longleftrightarrow> a = b"
  using show_int_bar [of "fst a" "fst b" "snd a" "snd b"] by (auto simp: PRESENT_def prod_eq_iff)

lemma PRESENT_not_MISSING: "0 \<le> fst a \<Longrightarrow> PRESENT a \<noteq> MISSING"
proof
  assume a: "0 \<le> fst a" "PRESENT a = MISSING"
  then have "hd (show_int (fst a)) = CHR ''<''"
    by (metis MISSING_def PRESENT_def hd_append2 list.sel(1) show_int_nonempty)
  moreover have "is_digit (hd (show_int (fst a)))"
    using list_all_show_int [OF a(1)] by (simp add: list_all_iff)
  ultimately show False by (simp add: is_digit_def code_def)
qed

text \<open>What a node says of an index: its entry, or that it has none.\<close>

definition ballot :: "(int \<times> string) option \<Rightarrow> string" where
  "ballot opinion = (case opinion of None \<Rightarrow> MISSING | Some t_c \<Rightarrow> PRESENT t_c)"

lemma vote_ballot: "vote idx ent = ballot (map_of ent idx)"
  by (simp add: vote_def ballot_def)

definition opinion_ok :: "(int \<times> string) option \<Rightarrow> bool" where
  "opinion_ok opinion \<longleftrightarrow> (\<forall>t_c. opinion = Some t_c \<longrightarrow> 0 \<le> fst t_c)"

lemma ballot_inject: "opinion_ok a \<Longrightarrow> opinion_ok b \<Longrightarrow> ballot a = ballot b \<longleftrightarrow> a = b"
  using PRESENT_not_MISSING not_sym [OF PRESENT_not_MISSING]
  by (auto simp: ballot_def opinion_ok_def PRESENT_inject split: option.splits)

lemma terms_ok_opinion: "terms_ok ent \<Longrightarrow> opinion_ok (map_of ent idx)"
  by (auto simp: opinion_ok_def terms_ok_def dest!: map_of_SomeD)

lemma vote_inject: "terms_ok d \<Longrightarrow> terms_ok e \<Longrightarrow> vote idx d = vote idx e \<longleftrightarrow> map_of d idx = map_of e idx"
  by (simp add: vote_ballot ballot_inject terms_ok_opinion)

lemma parse_dump_terms_ok: "terms_ok (parse_dump lines)"
proof -
  have "cap_ok 2 (list_all is_digit) dump_LINE_RE"
    using cap_ok_digits [of 2 2] by (simp add: dump_LINE_RE_def plus_def rspace_def rdigit_def)
  then have digits: "0 \<le> t" if "parse_dump_line line = Some (i, t, c)" for line i t c
    using that group_prop [of dump_LINE_RE line _ 2 "list_all is_digit"]
    by (auto simp: parse_dump_line_def intro: int_of_digits_nonneg)
  have "terms_ok (foldl (\<lambda>entries line. case parse_dump_line line of
       None \<Rightarrow> entries | Some (idx, term, cmd) \<Rightarrow> AList.update idx (term, cmd) entries) d lines)"
    if "terms_ok d" for d
    using that
  proof (induction lines arbitrary: d)
    case (Cons line lines)
    have "terms_ok (AList.update i (t, c) d)" if "parse_dump_line line = Some (i, t, c)" for i t c
      using Cons.prems digits [OF that] set_update_subset [of i "(t, c)" d]
      by (auto simp: terms_ok_def)
    with Cons show ?case by (auto split: option.splits)
  qed simp
  from this [of "[]"] show ?thesis by (simp add: parse_dump_def terms_ok_def)
qed

lemma load_dump_terms_ok: "terms_ok (load_dump f)"
  using parse_dump_terms_ok by (cases f) (auto simp: load_dump_def terms_ok_def)

subsection \<open>The check decides the quorum condition\<close>

lemma max_item_ge:
  assumes "wf_dict d" "0 < k"
  shows "(case max_item d of None \<Rightarrow> False | Some (v, n) \<Rightarrow> k \<le> n) \<longleftrightarrow> (\<exists>v. k \<le> dict_get d v 0)"
proof (cases "max_item d")
  case None
  then have "d = []" using max_item_some [of d] by auto
  with None \<open>0 < k\<close> show ?thesis by simp
next
  case (Some p)
  have "k \<le> snd p" if "k \<le> dict_get d v 0" for v
  proof -
    from that \<open>0 < k\<close> obtain n where "map_of d v = Some n" "k \<le> n"
      by (auto simp: dict_get_def split: option.splits)
    with max_item_max [OF Some, of "(v, n)"] show ?thesis by (auto dest: map_of_SomeD)
  qed
  moreover have "dict_get d (fst p) 0 = snd p"
    using max_item_mem [OF Some] assms(1) by (metis dict_get_mem prod.collapse)
  ultimately show ?thesis using Some by (auto split: prod.splits)
qed

lemma votes_for_count:
  "dict_get (votes_for logs idx) v 0 = length (filter (\<lambda>e. vote idx (snd e) = v) logs)"
proof -
  have "votes_for logs idx = foldl bump [] (map (\<lambda>e. vote idx (snd e)) logs)"
    by (simp add: votes_for_def foldl_map o_def)
  then show ?thesis
    by (simp add: dict_counter.look_count count_list_eq_length_filter filter_map o_def eq_commute)
qed

lemma wf_votes_for: "wf_dict (votes_for logs idx)"
  using dict_counter.invar_foldl [of "[]" "map (\<lambda>e. vote idx (snd e)) logs"]
  by (simp add: votes_for_def foldl_map o_def)

lemma index_ok_iff:
  assumes "\<forall>e \<in> set logs. terms_ok (snd e)"
  shows "index_ok logs idx \<longleftrightarrow> (\<exists>opinion. QUORUM \<le> length (filter (\<lambda>e. map_of (snd e) idx = opinion) logs))"
proof -
  have "index_ok logs idx \<longleftrightarrow> (\<exists>v. QUORUM \<le> length (filter (\<lambda>e. vote idx (snd e) = v) logs))"
    unfolding index_ok_def using max_item_ge [OF wf_votes_for dump_majority.quorum_positive]
    by (simp add: votes_for_count)
  also have "\<dots> \<longleftrightarrow> (\<exists>opinion. QUORUM \<le> length (filter (\<lambda>e. map_of (snd e) idx = opinion) logs))"
  proof
    assume "\<exists>v. QUORUM \<le> length (filter (\<lambda>e. vote idx (snd e) = v) logs)"
    then obtain v where v: "QUORUM \<le> length (filter (\<lambda>e. vote idx (snd e) = v) logs)" ..
    then have "filter (\<lambda>e. vote idx (snd e) = v) logs \<noteq> []"
      using dump_majority.quorum_positive by (intro notI) simp
    then obtain e where e: "e \<in> set logs" "vote idx (snd e) = v"
      by (auto simp: filter_empty_conv)
    have "filter (\<lambda>d. vote idx (snd d) = v) logs = filter (\<lambda>d. map_of (snd d) idx = map_of (snd e) idx) logs"
      using assms e vote_inject [of _ "snd e" idx] by (intro filter_cong refl) auto
    with v show "\<exists>opinion. QUORUM \<le> length (filter (\<lambda>e. map_of (snd e) idx = opinion) logs)" by metis
  next
    assume "\<exists>opinion. QUORUM \<le> length (filter (\<lambda>e. map_of (snd e) idx = opinion) logs)"
    then obtain opinion where "QUORUM \<le> length (filter (\<lambda>e. map_of (snd e) idx = opinion) logs)" ..
    moreover have "length (filter (\<lambda>e. map_of (snd e) idx = opinion) logs)
        \<le> length (filter (\<lambda>e. vote idx (snd e) = ballot opinion) logs)"
      by (induction logs) (auto simp: vote_ballot)
    ultimately show "\<exists>v. QUORUM \<le> length (filter (\<lambda>e. vote idx (snd e) = v) logs)"
      using le_trans by blast
  qed
  finally show ?thesis .
qed

lemma foldl_all: "foldl (\<lambda>ok x. if P x then ok else False) b xs \<longleftrightarrow> b \<and> (\<forall>x \<in> set xs. P x)"
  by (induction xs arbitrary: b) auto

lemma index_missing:
  "idx \<notin> set (all_indices logs) \<Longrightarrow> filter (\<lambda>e. map_of (snd e) idx = None) logs = logs"
  by (auto simp: all_indices_def filter_id_conv map_of_eq_None_iff)

lemma majority_consistent_iff:
  "majority_consistent (load_logs files) \<longleftrightarrow>
     (\<forall>idx. \<exists>!opinion. QUORUM \<le>
        length (filter (\<lambda>fname. map_of (load_dump (files fname)) idx = opinion) dump_filenames))"
proof -
  let ?logs = "load_logs files"
  let ?n = "\<lambda>idx opinion. length (filter (\<lambda>fname. map_of (load_dump (files fname)) idx = opinion) dump_filenames)"
  have n: "length (filter (\<lambda>e. map_of (snd e) idx = opinion) ?logs) = ?n idx opinion" for idx opinion
    by (simp add: load_logs_def filter_map o_def)
  have ok: "\<forall>e \<in> set ?logs. terms_ok (snd e)"
    by (auto simp: load_logs_def load_dump_terms_ok)
  have uniq: "a = b" if "QUORUM \<le> ?n idx a" "QUORUM \<le> ?n idx b" for idx a b
    using dump_majority.quorum_unique [of "map (\<lambda>fname. map_of (load_dump (files fname)) idx) dump_filenames" a b]
      that by (simp add: N_NODES_def filter_map o_def)
  have "\<exists>opinion. QUORUM \<le> ?n idx opinion" if "idx \<notin> set (all_indices ?logs)" for idx
    using index_missing [OF that] n [of idx None]
    by (intro exI [of _ None]) (simp add: load_logs_def QUORUM_eq N_NODES_eq N_NODES_def [symmetric])
  then have "majority_consistent ?logs \<longleftrightarrow> (\<forall>idx. \<exists>opinion. QUORUM \<le> ?n idx opinion)"
    using index_ok_iff [OF ok] by (auto simp: majority_consistent_def foldl_all n)
  with uniq show ?thesis by metis
qed

text \<open>
  C6: on the dumps of the five nodes the script answers yes exactly when for every log index there
  is one and only one opinion (an entry with its term and command, or absence) that a quorum of the
  nodes holds: indices it never enumerates and the textual votes it counts make no difference.
\<close>

theorem majority_consistent_quorum:
  "majority_consistent (load_logs files) \<longleftrightarrow>
     (\<forall>idx. \<exists>!opinion. QUORUM \<le>
        length (filter (\<lambda>fname. map_of (load_dump (files fname)) idx = opinion) dump_filenames))"
  by (rule majority_consistent_iff)

text \<open>
  A parsed dump is a dictionary, and it holds for an index the entry of the last line of the file
  that carries the index (later duplicates overwrite earlier ones); lines of another shape are skipped.
\<close>

lemma parse_dump_map_of:
  "wf_dict (parse_dump lines) \<and>
   map_of (parse_dump lines) idx = map_of (rev (List.map_filter parse_dump_line lines)) idx"
proof -
  have "parse_dump lines =
      foldl (\<lambda>d p. AList.update (fst p) (snd p) d) [] (List.map_filter parse_dump_line lines)"
  proof -
    have "foldl (\<lambda>entries line. case parse_dump_line line of None \<Rightarrow> entries
        | Some (idx, term, cmd) \<Rightarrow> AList.update idx (term, cmd) entries) d lines =
      foldl (\<lambda>d p. AList.update (fst p) (snd p) d) d (List.map_filter parse_dump_line lines)" for d
      by (induction lines arbitrary: d) (auto simp: map_filter_def split: option.splits)
    then show ?thesis by (simp add: parse_dump_def)
  qed
  moreover have "wf_dict (foldl (\<lambda>d p. AList.update (fst p) (snd p) d) d ps)" if "wf_dict d" for d :: entries and ps
    using that by (induction ps arbitrary: d) auto
  ultimately show ?thesis by (simp add: map_of_foldl_update)
qed

end
