(* ===== verification/Views.thy ===== *)
theory Views
  imports Log_Window
begin

text \<open>
  The views of a node, as \<open>plot_view_durations\<close> of \<open>scripts/extract_failure.py\<close> and
  \<open>parse_log_file\<close> of \<open>scripts/parse_plot_log.py\<close> recover them from a log: a view opens at
  the first line that shows the node in another role and closes when the next one opens, and it
  carries the heartbeats logged meanwhile. Both scripts hold the same state (\<open>vstate\<close>) and take
  the same step per line; they differ in which lines reach it. \<open>segs\<close> is what a sequence of
  views should be, by cutting the events into runs, and \<open>finish_run\<close> shows that the machine
  computes it. \<open>view_log\<close> is the interface between a script and the consequences.
\<close>

subsection \<open>State and steps\<close>

datatype role = Follower | Leader

record view =
  v_role :: role
  v_start :: datetime
  v_end :: datetime
  v_duration :: real
  v_beats :: nat

text \<open>
  \<open>vs_now\<close> is the variable \<open>timestamp\<close> of the loop: the last timestamp that parsed, whether
  or not its line was skipped afterwards.
\<close>

record vstate =
  vs_views :: "view list"
  vs_current :: "(role \<times> datetime) option"
  vs_beats :: nat
  vs_now :: "datetime option"

definition vs_init :: vstate where
  "vs_init = \<lparr>vs_views = [], vs_current = None, vs_beats = 0, vs_now = None\<rparr>"

lemma vs_init_simps [simp]:
  "vs_views vs_init = []" "vs_current vs_init = None" "vs_beats vs_init = 0" "vs_now vs_init = None"
  by (simp_all add: vs_init_def)

definition follower_pattern :: regex where
  "follower_pattern = lit ''Received append entries message.''"

definition leader_pattern :: regex where
  "leader_pattern = lit ''[LEADER] Sent heartbeat''"

definition heartbeat_pattern :: regex where
  "heartbeat_pattern = Cat (Cap 1 (Alt (lit ''Sent'') (lit ''Received''))) (lit '' heartbeat'')"

definition line_role :: "string \<Rightarrow> role option" where
  "line_role line =
     (if re_search follower_pattern line \<noteq> None then Some Follower
      else if re_search leader_pattern line \<noteq> None then Some Leader else None)"

definition line_beat :: "string \<Rightarrow> bool" where
  "line_beat line \<longleftrightarrow> re_search heartbeat_pattern line \<noteq> None"

definition close_view :: "role \<times> datetime \<Rightarrow> datetime \<Rightarrow> nat \<Rightarrow> view" where
  "close_view cur t n = \<lparr>v_role = fst cur, v_start = snd cur, v_end = t,
     v_duration = total_seconds t (snd cur), v_beats = n\<rparr>"

definition enter_role :: "role \<Rightarrow> datetime \<Rightarrow> vstate \<Rightarrow> vstate" where
  "enter_role r t s =
     (case vs_current s of
        None \<Rightarrow> s\<lparr>vs_current := Some (r, t)\<rparr>
      | Some cur \<Rightarrow>
          if fst cur \<noteq> r
          then s\<lparr>vs_views := vs_views s @ [close_view cur t (vs_beats s)], vs_beats := 0, vs_current := Some (r, t)\<rparr>
          else s)"

definition view_step :: "datetime \<Rightarrow> role option \<Rightarrow> bool \<Rightarrow> vstate \<Rightarrow> vstate" where
  "view_step t r beat s =
     (let s1 = (case r of None \<Rightarrow> s | Some r' \<Rightarrow> enter_role r' t s) in
      if vs_current s1 \<noteq> None \<and> beat then s1\<lparr>vs_beats := Suc (vs_beats s1)\<rparr> else s1)"

definition view_line :: "string \<Rightarrow> datetime \<Rightarrow> vstate \<Rightarrow> vstate" where
  "view_line line t s = view_step t (line_role line) (line_beat line) s"

text \<open>After the loop: the open view ends at the last timestamp read.\<close>

definition finish :: "vstate \<Rightarrow> view list res" where
  "finish s =
     (case vs_current s of
        None \<Rightarrow> Inr (vs_views s)
      | Some cur \<Rightarrow> (case vs_now s of
            None \<Rightarrow> Inl UnboundLocalError
          | Some t \<Rightarrow> Inr (vs_views s @ [close_view cur t (vs_beats s)])))"

subsection \<open>What the views of a sequence of events are\<close>

type_synonym event = "datetime \<times> role option \<times> bool"

abbreviation ev_time :: "event \<Rightarrow> datetime" where "ev_time e \<equiv> fst e"
abbreviation ev_role :: "event \<Rightarrow> role option" where "ev_role e \<equiv> fst (snd e)"
abbreviation ev_beat :: "event \<Rightarrow> bool" where "ev_beat e \<equiv> snd (snd e)"

definition continues :: "role \<Rightarrow> event \<Rightarrow> bool" where
  "continues r e \<longleftrightarrow> ev_role e = None \<or> ev_role e = Some r"

text \<open>Runs of events in one role; what precedes the first role is dropped.\<close>

function segs :: "event list \<Rightarrow> (role \<times> event list) list" where
  "segs [] = []"
| "segs (e # es) =
     (case ev_role e of
        None \<Rightarrow> segs es
      | Some r \<Rightarrow> (r, e # takeWhile (continues r) es) # segs (dropWhile (continues r) es))"
  by pat_completeness auto
termination
  by (relation "measure length") (auto simp: less_Suc_eq_le length_dropWhile_le)

definition beats :: "event list \<Rightarrow> nat" where
  "beats es = length (filter ev_beat es)"

definition next_start :: "(role \<times> event list) list \<Rightarrow> datetime \<Rightarrow> datetime" where
  "next_start gs e = (case gs of [] \<Rightarrow> e | g # _ \<Rightarrow> ev_time (hd (snd g)))"

primrec views_of :: "(role \<times> event list) list \<Rightarrow> datetime \<Rightarrow> view list" where
  "views_of [] e = []"
| "views_of (g # gs) e =
     close_view (fst g, ev_time (hd (snd g))) (next_start gs e) (beats (snd g)) # views_of gs e"

definition run_events :: "event list \<Rightarrow> vstate \<Rightarrow> vstate" where
  "run_events es s = foldl (\<lambda>s e. view_step (ev_time e) (ev_role e) (ev_beat e) s) s es"

definition closed :: "vstate \<Rightarrow> datetime \<Rightarrow> view list" where
  "closed s e = vs_views s @ (case vs_current s of None \<Rightarrow> [] | Some cur \<Rightarrow> [close_view cur e (vs_beats s)])"

lemma run_events_simps [simp]:
  "run_events [] s = s"
  "run_events (e # es) s = run_events es (view_step (ev_time e) (ev_role e) (ev_beat e) s)"
  by (simp_all add: run_events_def)

lemma beats_simps [simp]: "beats [] = 0" "beats (e # es) = (if ev_beat e then 1 else 0) + beats es"
  by (simp_all add: beats_def)

lemma run_open:
  "vs_current s = Some (r, t) \<Longrightarrow>
   closed (run_events es s) e =
     vs_views s @ close_view (r, t) (next_start (segs (dropWhile (continues r) es)) e)
       (vs_beats s + beats (takeWhile (continues r) es)) # views_of (segs (dropWhile (continues r) es)) e"
proof (induction es arbitrary: s r t)
  case Nil
  then show ?case by (simp add: closed_def next_start_def)
next
  case (Cons x xs)
  obtain u ro b where x: "x = (u, ro, b)" by (cases x)
  show ?case
  proof (cases "continues r x")
    case True
    then have "vs_current (view_step u ro b s) = Some (r, t)" "vs_views (view_step u ro b s) = vs_views s"
      "vs_beats (view_step u ro b s) = vs_beats s + (if b then 1 else 0)"
      using Cons.prems x by (auto simp: view_step_def enter_role_def continues_def Let_def)
    with Cons.IH [of "view_step u ro b s" r t] True x show ?thesis by simp
  next
    case False
    then obtain r' where r': "ro = Some r'" "r' \<noteq> r" using x by (auto simp: continues_def)
    have "vs_current (view_step u ro b s) = Some (r', u)"
      "vs_views (view_step u ro b s) = vs_views s @ [close_view (r, t) u (vs_beats s)]"
      "vs_beats (view_step u ro b s) = (if b then 1 else 0)"
      using Cons.prems r' by (auto simp: view_step_def enter_role_def Let_def)
    with Cons.IH [of "view_step u ro b s" r' u] False x r' show ?thesis by (simp add: next_start_def)
  qed
qed

lemma run_closed:
  "vs_current s = None \<Longrightarrow> vs_beats s = 0 \<Longrightarrow>
   closed (run_events es s) e = vs_views s @ views_of (segs es) e"
proof (induction es arbitrary: s)
  case Nil
  then show ?case by (simp add: closed_def)
next
  case (Cons x xs)
  obtain u ro b where x: "x = (u, ro, b)" by (cases x)
  show ?case
  proof (cases ro)
    case None
    then have "view_step u ro b s = s" using Cons.prems by (simp add: view_step_def)
    with Cons x None show ?thesis by simp
  next
    case (Some r)
    then have "vs_current (view_step u ro b s) = Some (r, u)" "vs_views (view_step u ro b s) = vs_views s"
      "vs_beats (view_step u ro b s) = (if b then 1 else 0)"
      using Cons.prems by (auto simp: view_step_def enter_role_def Let_def)
    with run_open [of "view_step u ro b s" r u xs e] x Some show ?thesis by simp
  qed
qed

lemma view_step_now [simp]: "vs_now (view_step t r b s) = vs_now s"
  by (auto simp: view_step_def enter_role_def Let_def split: option.splits)

lemma run_events_now [simp]: "vs_now (run_events es s) = vs_now s"
  by (induction es arbitrary: s) simp_all

lemma view_step_set_now: "view_step t r b (s\<lparr>vs_now := x\<rparr>) = (view_step t r b s)\<lparr>vs_now := x\<rparr>"
  by (auto simp: view_step_def enter_role_def Let_def split: option.splits)

lemma closed_set_now [simp]: "closed (s\<lparr>vs_now := x\<rparr>) e = closed s e"
  by (simp add: closed_def split: option.splits)

lemma finish_closed: "vs_now s = Some e \<Longrightarrow> finish s = Inr (closed s e)"
  by (auto simp: finish_def closed_def split: option.splits)

subsection \<open>Facts about such views\<close>

lemma segs_dropWhile: "segs (dropWhile (\<lambda>e. ev_role e = None) es) = segs es"
  by (induction es) (auto split: option.splits)

lemma segs_Cons_role:
  "segs es = g # gs \<Longrightarrow> (\<exists>e es'. dropWhile (\<lambda>e. ev_role e = None) es = e # es' \<and> ev_role e = Some (fst g) \<and> hd (snd g) = e)"
  by (induction es) (auto split: option.splits)

lemma hd_dropWhile_continues:
  assumes "dropWhile (continues r) es = e # es'"
  shows "\<exists>r'. ev_role e = Some r' \<and> r' \<noteq> r"
  using hd_dropWhile [of "continues r" es] assms by (auto simp: continues_def)

lemma segs_alternate: "successively (\<lambda>g h. fst g \<noteq> fst h) (segs es)"
proof (induction es rule: segs.induct)
  case (2 e es)
  show ?case
  proof (cases "ev_role e")
    case None
    with 2 show ?thesis by simp
  next
    case (Some r)
    let ?rest = "dropWhile (continues r) es"
    have "fst g \<noteq> r" if "segs ?rest = g # gs" for g gs
    proof -
      from that obtain y ys where y: "?rest = y # ys" by (metis list.distinct(1) segs.elims)
      from hd_dropWhile_continues [OF y] that y show ?thesis by auto
    qed
    with 2(2) [OF Some] Some show ?thesis by (cases "segs ?rest") (auto simp: successively_Cons)
  qed
qed simp

lemma views_of_hd: "views_of (g # gs) e \<noteq> []" "v_start (hd (views_of (g # gs) e)) = ev_time (hd (snd g))"
  by (simp_all add: close_view_def)

lemma views_of_links:
  "successively (\<lambda>g h. fst g \<noteq> fst h) gs \<Longrightarrow>
     successively (\<lambda>a b. v_role a \<noteq> v_role b \<and> v_end a = v_start b) (views_of gs e)"
  by (induction gs rule: induct_list012) (auto simp: close_view_def next_start_def)

lemma views_of_last: "gs \<noteq> [] \<Longrightarrow> v_end (last (views_of gs e)) = e"
  by (induction gs rule: induct_list012) (auto simp: close_view_def next_start_def)

lemma total_seconds_add [simp]: "total_seconds b a + total_seconds c b = total_seconds c a"
  by (simp add: total_seconds_def add_divide_distrib [symmetric])

lemma views_of_duration:
  "gs \<noteq> [] \<Longrightarrow> sum_list (map v_duration (views_of gs e)) = total_seconds e (ev_time (hd (snd (hd gs))))"
  by (induction gs rule: induct_list012) (simp_all add: close_view_def next_start_def)

lemma beats_append [simp]: "beats (xs @ ys) = beats xs + beats ys"
  by (simp add: beats_def)

lemma views_of_beats:
  "sum_list (map v_beats (views_of (segs es) e)) = beats (dropWhile (\<lambda>e. ev_role e = None) es)"
proof (induction es rule: segs.induct)
  case (2 x es)
  show ?case
  proof (cases "ev_role x")
    case None
    with 2 show ?thesis by simp
  next
    case (Some r)
    let ?rest = "dropWhile (continues r) es"
    have rest: "dropWhile (\<lambda>e. ev_role e = None) ?rest = ?rest"
      using hd_dropWhile_continues [of r es] by (subst dropWhile_eq_self_iff) (metis list.collapse option.distinct(1))
    have "beats es = beats (takeWhile (continues r) es) + beats ?rest"
      using beats_append [of "takeWhile (continues r) es" ?rest] by simp
    with 2(2) [OF Some] Some rest show ?thesis by (simp add: close_view_def)
  qed
qed simp

lemma segs_times: "(r, es') \<in> set (segs es) \<Longrightarrow> es' \<noteq> [] \<and> set es' \<subseteq> set es"
proof (induction es arbitrary: r es' rule: segs.induct)
  case (2 e es)
  then show ?case
    by (cases "ev_role e") (force dest: set_takeWhileD set_dropWhileD)+
qed simp

subsection \<open>The interface of a script\<close>

text \<open>
  A script turns a log into events and an end time; its views are the runs of the events. The
  consequences are proved from this law alone.
\<close>

locale view_log =
  fixes run :: "'l \<Rightarrow> view list res" and events :: "'l \<Rightarrow> event list" and end_of :: "'l \<Rightarrow> datetime option"
  assumes run_views: "run l = Inr (case end_of l of None \<Rightarrow> [] | Some e \<Rightarrow> views_of (segs (events l)) e)"
    and end_none: "end_of l = None \<Longrightarrow> events l = []"
begin

lemma run_total: "\<exists>vs. run l = Inr vs"
  by (simp add: run_views)

lemma run_links:
  "run l = Inr vs \<Longrightarrow> successively (\<lambda>a b. v_role a \<noteq> v_role b \<and> v_end a = v_start b) vs"
  by (auto simp: run_views views_of_links segs_alternate split: option.splits)

lemma run_duration:
  assumes "run l = Inr vs" "vs \<noteq> []"
  shows "sum_list (map v_duration vs) = total_seconds (v_end (last vs)) (v_start (hd vs))
    \<and> end_of l = Some (v_end (last vs))"
proof -
  from assms obtain e where e: "end_of l = Some e" "vs = views_of (segs (events l)) e"
    by (auto simp: run_views split: option.splits)
  with assms(2) have ne: "segs (events l) \<noteq> []" by auto
  then obtain g gs where "segs (events l) = g # gs" by (cases "segs (events l)") auto
  with e views_of_duration [OF ne, of e] views_of_last [OF ne, of e] show ?thesis
    by (simp add: close_view_def)
qed

lemma run_beats:
  assumes "run l = Inr vs"
  shows "sum_list (map v_beats vs) = beats (dropWhile (\<lambda>e. ev_role e = None) (events l))"
  using assms end_none [of l] by (auto simp: run_views views_of_beats split: option.splits)

lemma run_empty_iff: "run l = Inr [] \<longleftrightarrow> (\<forall>e \<in> set (events l). ev_role e = None)"
proof -
  have "segs es = [] \<longleftrightarrow> (\<forall>e \<in> set es. ev_role e = None)" for es
    by (induction es rule: segs.induct) (auto split: option.splits)
  moreover have "views_of gs e = [] \<longleftrightarrow> gs = []" for gs e by (cases gs) auto
  ultimately show ?thesis using end_none [of l] by (auto simp: run_views split: option.splits)
qed

end

end
