(* ===== verification/Extract_Failure.thy ===== *)
theory Extract_Failure
  imports Views
begin

text \<open>
  \<open>scripts/extract_failure.py\<close>: the cut-off 30 seconds after the first timestamp, the last
  heartbeat-failure report after it, the series of reports, and the views. Lines whose timestamp
  does not parse are skipped by every pass.
\<close>

subsection \<open>The passes\<close>

definition ef_stamp_re :: regex where
  "ef_stamp_re = Cat (Sym (\<lambda>c. c = CHR ''I'' \<or> c = CHR ''E''))
     (Cap 1 (rseq [rep 8 rdigit, lit '' '', clock_re]))"

text \<open>A line's timestamp; \<open>None\<close> for the lines that the loops leave with \<open>continue\<close>.\<close>

definition ef_stamp :: "string \<Rightarrow> datetime option" where
  "ef_stamp line = (case re_match ef_stamp_re line of
       None \<Rightarrow> None
     | Some m \<Rightarrow> (case strptime (group m 1) of Inl _ \<Rightarrow> None | Inr t \<Rightarrow> Some t))"

definition ef_report_tail :: "nat \<Rightarrow> nat \<Rightarrow> regex" where
  "ef_report_tail i j = rseq [lit '' '', plus rdigit, lit '' node.cpp:'', plus rdigit, lit ''] '',
     lit ''Heartbeat received from leader '', LStar rdot,
     lit '' False positive check mode is active, resetting election timeout. '',
     Cap i (plus rdigit), lit '' failures out of '', Cap j (plus rdigit)]"

definition ef_failure_pattern :: regex where
  "ef_failure_pattern = rseq [lit ''I'', rep 8 rdigit, lit '' '', clock_re, ef_report_tail 1 2]"

definition ef_occurrence_pattern :: regex where
  "ef_occurrence_pattern =
     rseq [lit ''I'', Cap 1 (rseq [rep 8 rdigit, lit '' '', clock_re]), ef_report_tail 2 3]"

definition extract_last_heartbeat_failure :: "string list \<Rightarrow> int \<Rightarrow> (int \<times> int) option" where
  "extract_last_heartbeat_failure lines cutoff_time =
     foldl (\<lambda>lst line. case ef_stamp line of
         None \<Rightarrow> lst
       | Some t \<Rightarrow> if us_of t < cutoff_time then lst
           else (case re_search ef_failure_pattern line of
               None \<Rightarrow> lst
             | Some m \<Rightarrow> Some (int_of_digits (group m 1), int_of_digits (group m 2)))) None lines"

text \<open>The points of the failure plot.\<close>

definition plot_failure_occurrences :: "string list \<Rightarrow> int \<Rightarrow> (datetime \<times> int) list" where
  "plot_failure_occurrences lines cutoff_time =
     foldl (\<lambda>pts line. case re_search ef_occurrence_pattern line of
         None \<Rightarrow> pts
       | Some m \<Rightarrow> (case strptime (group m 1) of
             Inl _ \<Rightarrow> pts
           | Inr t \<Rightarrow> if us_of t < cutoff_time then pts else pts @ [(t, int_of_digits (group m 2))])) [] lines"

definition ef_line :: "int \<Rightarrow> vstate \<Rightarrow> string \<Rightarrow> vstate" where
  "ef_line cutoff_time s line = (case ef_stamp line of
       None \<Rightarrow> s
     | Some t \<Rightarrow>
         let s1 = s\<lparr>vs_now := Some t\<rparr> in
         if us_of t < cutoff_time then s1 else view_line line t s1)"

definition plot_view_durations :: "string list \<Rightarrow> int \<Rightarrow> view list res" where
  "plot_view_durations lines cutoff_time = finish (foldl (ef_line cutoff_time) vs_init lines)"

text \<open>The bars of the two view plots: view number, duration, heartbeats, colour.\<close>

definition role_color :: "role \<Rightarrow> string" where
  "role_color r = (case r of Follower \<Rightarrow> ''blue'' | Leader \<Rightarrow> ''green'')"

definition view_bars :: "view list \<Rightarrow> (nat \<times> real \<times> nat \<times> string) list" where
  "view_bars views = map (\<lambda>(i, v). (i, v_duration v, v_beats v, role_color (v_role v))) (enumerate 1 views)"

text \<open>The first timestamp that parses, and the time 30 seconds later.\<close>

fun ef_initial :: "string list \<Rightarrow> (datetime \<times> int) option res" where
  "ef_initial [] = Inr None"
| "ef_initial (line # lines) = (case ef_stamp line of
       None \<Rightarrow> ef_initial lines
     | Some t \<Rightarrow> bind_res (add_delta t 30000000) (\<lambda>cutoff_time. Inr (Some (t, cutoff_time))))"

definition ef_main :: "string list \<Rightarrow> (string \<Rightarrow> string list option) \<Rightarrow>
    ((int \<times> int) option \<times> (datetime \<times> int) list \<times> view list) res" where
  "ef_main argv files = (case argv of
       [script, i] \<Rightarrow> (case files (''logs/node_'' @ i @ ''.log'') of
           None \<Rightarrow> Inl FileNotFoundError
         | Some lines \<Rightarrow> bind_res (ef_initial lines) (\<lambda>init. case init of
               None \<Rightarrow> Inl (SystemExit ''1'')
             | Some (t, cutoff_time) \<Rightarrow>
                 bind_res (plot_view_durations lines cutoff_time) (\<lambda>views.
                   Inr (extract_last_heartbeat_failure lines cutoff_time,
                        plot_failure_occurrences lines cutoff_time, views))))
     | _ \<Rightarrow> Inl (SystemExit ''1''))"

subsection \<open>The view pass against the runs of the log\<close>

definition ef_stamps :: "string list \<Rightarrow> datetime list" where
  "ef_stamps lines = List.map_filter ef_stamp lines"

definition last_opt :: "'a list \<Rightarrow> 'a option" where
  "last_opt xs = (if xs = [] then None else Some (last xs))"

lemma last_opt_snoc [simp]: "last_opt (xs @ [x]) = Some x"
  by (simp add: last_opt_def)

definition ef_event :: "int \<Rightarrow> string \<Rightarrow> event option" where
  "ef_event cutoff_time line = (case ef_stamp line of
       None \<Rightarrow> None
     | Some t \<Rightarrow> if us_of t < cutoff_time then None else Some (t, line_role line, line_beat line))"

definition ef_events :: "int \<Rightarrow> string list \<Rightarrow> event list" where
  "ef_events cutoff_time lines = List.map_filter (ef_event cutoff_time) lines"

lemma run_events_snoc:
  "run_events (es @ [e]) s = view_step (ev_time e) (ev_role e) (ev_beat e) (run_events es s)"
  by (simp add: run_events_def)

lemma ef_fold:
  "foldl (ef_line c) vs_init lines = (run_events (ef_events c lines) vs_init)\<lparr>vs_now := last_opt (ef_stamps lines)\<rparr>"
proof (induction lines rule: rev_induct)
  case Nil
  then show ?case by (simp add: ef_events_def ef_stamps_def map_filter_def last_opt_def vs_init_def)
next
  case (snoc line lines)
  then show ?case
    by (cases "ef_stamp line")
      (simp_all add: ef_line_def ef_events_def ef_stamps_def ef_event_def view_line_def run_events_snoc view_step_set_now)
qed

text \<open>
  The stamps of a machine run that never set the clock stay unset, so a run without stamps has no
  events either.
\<close>

lemma ef_views_runs:
  "plot_view_durations lines c =
     Inr (case last_opt (ef_stamps lines) of None \<Rightarrow> [] | Some e \<Rightarrow> views_of (segs (ef_events c lines)) e)"
proof (cases "ef_stamps lines = []")
  case True
  then have "\<forall>line \<in> set lines. ef_stamp line = None"
    by (auto simp: ef_stamps_def map_filter_def filter_empty_conv)
  then have "ef_events c lines = []"
    by (auto simp: ef_events_def map_filter_def filter_empty_conv ef_event_def)
  with True show ?thesis
    by (simp add: plot_view_durations_def ef_fold finish_def last_opt_def)
next
  case False
  let ?s = "foldl (ef_line c) vs_init lines" and ?e = "last (ef_stamps lines)"
  have "vs_now ?s = Some ?e" using False by (simp add: ef_fold last_opt_def)
  then have "plot_view_durations lines c = Inr (closed ?s ?e)"
    by (simp add: plot_view_durations_def finish_closed)
  moreover have "closed ?s ?e = closed (run_events (ef_events c lines) vs_init) ?e"
    by (simp add: ef_fold)
  ultimately show ?thesis
    using False run_closed [of vs_init "ef_events c lines" ?e] by (simp add: last_opt_def)
qed

interpretation ef_log: view_log "\<lambda>x. plot_view_durations (fst x) (snd x)"
  "\<lambda>x. ef_events (snd x) (fst x)" "\<lambda>x. last_opt (ef_stamps (fst x))"
proof
  fix l :: "string list \<times> int"
  show "plot_view_durations (fst l) (snd l) = Inr (case last_opt (ef_stamps (fst l)) of
      None \<Rightarrow> [] | Some e \<Rightarrow> views_of (segs (ef_events (snd l) (fst l))) e)"
    by (rule ef_views_runs)
  assume "last_opt (ef_stamps (fst l)) = None"
  then show "ef_events (snd l) (fst l) = []"
    by (auto simp: last_opt_def ef_stamps_def ef_events_def ef_event_def map_filter_def
        filter_empty_conv split: if_splits)
qed

text \<open>
  C8: the view pass never fails, and its views are the runs of the log after the cut-off: one view per
  maximal run of lines without a role change, opened at the run's first timestamp, closed when the
  next run opens (the last one at the last timestamp of the log), with the heartbeats of its run.
\<close>

theorem plot_view_durations_runs:
  "plot_view_durations lines cutoff_time =
     Inr (if ef_stamps lines = [] then []
          else views_of (segs (ef_events cutoff_time lines)) (last (ef_stamps lines)))"
  using ef_views_runs by (simp add: last_opt_def)

text \<open>
  the views alternate between the two roles and leave no gap in time, so their durations add up to
  the time from the first view's start to the last timestamp of the log, and their heartbeats are
  all those logged from the first view on.
\<close>

theorem plot_view_durations_partition:
  assumes "plot_view_durations lines cutoff_time = Inr views" "views \<noteq> []"
  shows "successively (\<lambda>a b. v_role a \<noteq> v_role b \<and> v_end a = v_start b) views
    \<and> sum_list (map v_duration views) = total_seconds (last (ef_stamps lines)) (v_start (hd views))
    \<and> sum_list (map v_beats views) = beats (dropWhile (\<lambda>e. ev_role e = None) (ef_events cutoff_time lines))"
proof -
  from assms(1) have run: "plot_view_durations (fst (lines, cutoff_time)) (snd (lines, cutoff_time)) = Inr views"
    by simp
  from ef_log.run_duration [OF run assms(2)]
  have "last_opt (ef_stamps lines) = Some (v_end (last views))"
    "sum_list (map v_duration views) = total_seconds (v_end (last views)) (v_start (hd views))" by auto
  moreover from this(1) have "v_end (last views) = last (ef_stamps lines)"
    by (auto simp: last_opt_def split: if_splits)
  ultimately show ?thesis
    using ef_log.run_links [OF run] ef_log.run_beats [OF run] by simp
qed

definition vlog :: "string list" where
  "vlog = map (\<lambda>(t, msg). ''I20241027 13:'' @ t @ ''.000000 7 node.cpp:1] '' @ msg @ [newline])
     [(''00:00'', ''Received append entries message.''), (''00:40'', ''Received append entries message.''),
      (''00:41'', ''Received heartbeat''), (''00:45'', ''[LEADER] Sent heartbeat 1''), (''00:46'', ''idle''),
      (''00:50'', ''Received append entries message.'')]"

lemma vlog_events:
  "ef_events (us_of (Datetime 2024 10 27 13 0 30 0)) vlog =
     [(Datetime 2024 10 27 13 0 40 0, Some Follower, False), (Datetime 2024 10 27 13 0 41 0, None, True),
      (Datetime 2024 10 27 13 0 45 0, Some Leader, True), (Datetime 2024 10 27 13 0 46 0, None, False),
      (Datetime 2024 10 27 13 0 50 0, Some Follower, False)]"
  "last_opt (ef_stamps vlog) = Some (Datetime 2024 10 27 13 0 50 0)"
  by code_simp+

theorem plot_view_durations_partition_witness:
  "\<exists>views. plot_view_durations vlog (us_of (Datetime 2024 10 27 13 0 30 0)) = Inr views
     \<and> map v_role views = [Follower, Leader, Follower] \<and> map v_beats views = [1, 1, 0]
     \<and> sum_list (map v_duration views) = 10"
proof -
  let ?c = "us_of (Datetime 2024 10 27 13 0 30 0)"
  let ?views = "views_of (segs (ef_events ?c vlog)) (Datetime 2024 10 27 13 0 50 0)"
  have run: "plot_view_durations vlog ?c = Inr ?views"
    by (simp add: ef_views_runs vlog_events)
  have views: "map v_role ?views = [Follower, Leader, Follower]" "map v_beats ?views = [1, 1, 0]"
    "v_start (hd ?views) = Datetime 2024 10 27 13 0 40 0"
    by (simp_all add: vlog_events continues_def close_view_def beats_def)
  have us: "us_of (Datetime 2024 10 27 13 0 50 0) - us_of (Datetime 2024 10 27 13 0 40 0) = 10000000"
    by code_simp
  have "?views \<noteq> []" using views(1) by auto
  from plot_view_durations_partition [OF run this] views(3) us vlog_events(2)
  have dur: "sum_list (map v_duration ?views) = 10"
    by (simp add: last_opt_def total_seconds_def flip: of_int_diff split: if_splits)
  show ?thesis by (intro exI [of _ ?views] conjI run views dur)
qed

end
