(* ===== verification/Plot_Log.thy ===== *)
theory Plot_Log
  imports Extract_Failure
begin

text \<open>
  \<open>scripts/parse_plot_log.py\<close>: the views of a node in one pass that finds the first timestamp
  and the cut-off on its way, and the scatter plot of heartbeats against duration.
  \<open>pl_loop_ef\<close> relates the pass to the two passes of \<open>extract_failure.py\<close>.
\<close>

definition pl_stamp_re :: regex where
  "pl_stamp_re = Cap 1 (rseq [Sym (\<lambda>c. c = CHR ''I'' \<or> c = CHR ''E''), rep 8 rdigit, lit '' '', clock_re])"

definition pl_stamp :: "string \<Rightarrow> datetime option" where
  "pl_stamp line = (case re_search pl_stamp_re line of
       None \<Rightarrow> None
     | Some m \<Rightarrow> (case strptime (drop 1 (group m 1)) of Inl _ \<Rightarrow> None | Inr t \<Rightarrow> Some t))"

text \<open>\<open>pl_window\<close> holds \<open>initial_timestamp\<close> and \<open>cutoff_time\<close>, which are set together.\<close>

record pl_state =
  pl_v :: vstate
  pl_window :: "(datetime \<times> int) option"

definition pl_line :: "string \<Rightarrow> pl_state \<Rightarrow> pl_state res" where
  "pl_line line s = (case pl_stamp line of
       None \<Rightarrow> Inr s
     | Some t \<Rightarrow>
         let s1 = s\<lparr>pl_v := (pl_v s)\<lparr>vs_now := Some t\<rparr>\<rparr> in
         (case pl_window s of
            None \<Rightarrow> bind_res (add_delta t 30000000) (\<lambda>c. Inr (s1\<lparr>pl_window := Some (t, c)\<rparr>))
          | Some (t0, c) \<Rightarrow> if us_of t < c then Inr s1 else Inr (s1\<lparr>pl_v := view_line line t (pl_v s1)\<rparr>)))"

fun pl_loop :: "string list \<Rightarrow> pl_state \<Rightarrow> pl_state res" where
  "pl_loop [] s = Inr s"
| "pl_loop (line # lines) s = bind_res (pl_line line s) (pl_loop lines)"

definition pl_parse_log_file :: "string list \<Rightarrow> view list res" where
  "pl_parse_log_file lines =
     bind_res (pl_loop lines \<lparr>pl_v = vs_init, pl_window = None\<rparr>) (\<lambda>s. finish (pl_v s))"

text \<open>The points of the scatter plot: heartbeats, duration, colour, and a label for the legend.\<close>

definition pl_color :: "role \<Rightarrow> string" where
  "pl_color r = (case r of Follower \<Rightarrow> ''blue'' | Leader \<Rightarrow> ''red'')"

definition pl_label :: "role \<Rightarrow> string" where
  "pl_label r = (case r of Follower \<Rightarrow> ''Follower'' | Leader \<Rightarrow> ''Leader'')"

fun pl_points :: "role list \<Rightarrow> view list \<Rightarrow> (nat \<times> real \<times> string \<times> string option) list" where
  "pl_points plotted_roles [] = []"
| "pl_points plotted_roles (v # vs) =
     (if v_role v \<notin> set plotted_roles
      then (v_beats v, v_duration v, pl_color (v_role v), Some (pl_label (v_role v)))
             # pl_points (v_role v # plotted_roles) vs
      else (v_beats v, v_duration v, pl_color (v_role v), None) # pl_points plotted_roles vs)"

definition pl_plot_views :: "view list \<Rightarrow> (nat \<times> real \<times> string \<times> string option) list" where
  "pl_plot_views views = pl_points [] views"

text \<open>\<open>main\<close> wants a node id on the command line and reads one fixed file.\<close>

definition pl_main :: "string list \<Rightarrow> (string \<Rightarrow> string list option) \<Rightarrow> (nat \<times> real \<times> string \<times> string option) list res" where
  "pl_main argv files =
     (if length argv = 2
      then (case files ''downloaded_logs/20241027_194240/node_1.log'' of
              None \<Rightarrow> Inl FileNotFoundError
            | Some lines \<Rightarrow> bind_res (pl_parse_log_file lines) (\<lambda>views. Inr (pl_plot_views views)))
      else Inl (SystemExit ''1''))"

subsection \<open>One pass against two\<close>

lemma add_delta_later: "add_delta t d = Inr c \<Longrightarrow> 0 < d \<Longrightarrow> us_of t < c"
  by (auto simp: add_delta_def Let_def split: if_splits)

lemma ef_line_unstamped: "ef_stamp line = None \<Longrightarrow> ef_line c s line = s"
  by (simp add: ef_line_def)

lemma pl_loop_after:
  assumes "pl_window s = Some (t0, c)" "\<forall>line \<in> set lines. pl_stamp line = ef_stamp line"
  shows "pl_loop lines s = Inr (s\<lparr>pl_v := foldl (ef_line c) (pl_v s) lines\<rparr>)"
  using assms
proof (induction lines arbitrary: s)
  case (Cons line lines)
  have "pl_line line s = Inr (s\<lparr>pl_v := ef_line c (pl_v s) line\<rparr>)"
    using Cons.prems by (simp add: pl_line_def ef_line_def Let_def split: option.splits)
  with Cons show ?case by simp
qed simp

lemma pl_loop_ef:
  assumes "pl_window s = None" "\<forall>line \<in> set lines. pl_stamp line = ef_stamp line"
  shows "pl_loop lines s = bind_res (ef_initial lines) (\<lambda>init. case init of
      None \<Rightarrow> Inr s
    | Some (t, c) \<Rightarrow> Inr \<lparr>pl_v = foldl (ef_line c) (pl_v s) lines, pl_window = Some (t, c)\<rparr>)"
  using assms
proof (induction lines arbitrary: s)
  case (Cons line lines)
  show ?case
  proof (cases "ef_stamp line")
    case None
    with Cons.prems have "pl_line line s = Inr s" by (simp add: pl_line_def)
    with Cons None show ?thesis by (auto simp: ef_line_unstamped bind_res_def split: sum.splits option.splits)
  next
    case (Some t)
    with Cons.prems have stamp: "pl_stamp line = Some t" by simp
    show ?thesis
    proof (cases "add_delta t 30000000")
      case (Inr c)
      let ?s = "s\<lparr>pl_v := (pl_v s)\<lparr>vs_now := Some t\<rparr>, pl_window := Some (t, c)\<rparr>"
      have "ef_line c (pl_v s) line = (pl_v s)\<lparr>vs_now := Some t\<rparr>"
        using Some add_delta_later [OF Inr] by (simp add: ef_line_def)
      with pl_loop_after [of ?s t c lines] Cons.prems Some Inr stamp show ?thesis
        by (simp add: pl_line_def)
    qed (use Cons.prems Some stamp in \<open>simp add: pl_line_def\<close>)
  qed
qed simp

text \<open>
  on a log whose timestamps stand at the start of their lines, the single pass finds the same views
  as \<open>extract_failure.py\<close> with its separate pass for the cut-off, and fails only where that fails.
\<close>

theorem pl_parse_log_file_ef:
  assumes "\<forall>line \<in> set lines. pl_stamp line = ef_stamp line"
  shows "pl_parse_log_file lines = bind_res (ef_initial lines) (\<lambda>init. case init of
      None \<Rightarrow> Inr [] | Some (t, cutoff_time) \<Rightarrow> plot_view_durations lines cutoff_time)"
  unfolding pl_parse_log_file_def
  by (subst pl_loop_ef) (use assms in \<open>auto simp: plot_view_durations_def finish_def bind_res_def split: option.splits sum.splits\<close>)

theorem pl_parse_log_file_ef_witness:
  "pl_parse_log_file vlog = plot_view_durations vlog (us_of (Datetime 2024 10 27 13 0 30 0))"
proof -
  have "\<forall>line \<in> set vlog. pl_stamp line = ef_stamp line" by code_simp
  moreover have "ef_initial vlog = Inr (Some (Datetime 2024 10 27 13 0 0 0, us_of (Datetime 2024 10 27 13 0 30 0)))"
    by code_simp
  ultimately show ?thesis using pl_parse_log_file_ef [of vlog] by simp
qed

lemma pl_label_inject: "pl_label a = pl_label b \<longleftrightarrow> a = b"
  by (cases a; cases b) (simp_all add: pl_label_def)

lemma pl_points_labels:
  "distinct (List.map_filter (\<lambda>p. snd (snd (snd p))) (pl_points seen vs)) \<and>
   set (List.map_filter (\<lambda>p. snd (snd (snd p))) (pl_points seen vs)) = pl_label ` (v_role ` set vs - set seen)"
proof (induction vs arbitrary: seen)
  case (Cons v vs)
  show ?case
  proof (cases "v_role v \<in> set seen")
    case True
    with Cons.IH [of seen] show ?thesis by (auto simp: map_filter_simps)
  next
    case False
    with Cons.IH [of "v_role v # seen"] show ?thesis
      by (auto simp: map_filter_simps pl_label_inject)
  qed
qed (simp add: map_filter_simps)

lemma pl_points_data:
  "map (\<lambda>(b, d, c, l). (b, d, c)) (pl_points seen vs) = map (\<lambda>v. (v_beats v, v_duration v, pl_color (v_role v))) vs"
  by (induction vs arbitrary: seen) auto

text \<open>
  The legend names every role that has a view once, and every view has its point, in order, with its
  own heartbeats, duration and colour.
\<close>

theorem pl_plot_views_legend:
  "map (\<lambda>(b, d, c, l). (b, d, c)) (pl_plot_views views) =
     map (\<lambda>v. (v_beats v, v_duration v, pl_color (v_role v))) views \<and>
   distinct (List.map_filter (\<lambda>(b, d, c, l). l) (pl_plot_views views)) \<and>
   set (List.map_filter (\<lambda>(b, d, c, l). l) (pl_plot_views views)) = pl_label ` v_role ` set views"
  using pl_points_data [of "[]" views] pl_points_labels [of "[]" views]
  by (simp add: pl_plot_views_def case_prod_unfold)

end
