(* ===== verification/Analysis.thy ===== *)
theory Analysis
  imports Views
begin

text \<open>
  \<open>scripts/analysis.py\<close>: the terms a node went through, as leader or follower, from its heartbeat
  lines. The state is the one of \<open>parse_log_file\<close> (the finished views, the open one, and the
  term and role it is in); \<open>runs\<close> cuts a list where a key changes, and \<open>an_loop_runs\<close> shows
  that the machine numbers and counts exactly these runs.
\<close>

subsection \<open>State and steps\<close>

record aview =
  av_number :: nat
  av_role :: role
  av_term :: int
  av_beats :: int

record astate =
  as_views :: "aview list"
  as_current :: "aview option"
  as_term :: "int option"
  as_role :: "role option"

definition an_stamp_re :: regex where
  "an_stamp_re = Cap 1 (rseq [Sym (\<lambda>c. c = CHR ''I'' \<or> c = CHR ''E''), rep 8 rdigit, lit '' '', clock_re])"

definition an_leader_re :: regex where
  "an_leader_re = rseq [lit ''[LEADER] Sent heartbeat '', Cap 1 (plus rdigit), lit '' for term '', Cap 2 (plus rdigit)]"

definition an_follower_re :: regex where
  "an_follower_re = rseq [lit ''Received heartbeat (AppendEntries) from leader '', Star rdot, lit '' for term '',
     Cap 1 (plus rdigit)]"

text \<open>Lines without a timestamp that parses are left with \<open>continue\<close>.\<close>

definition an_stamped :: "string \<Rightarrow> bool" where
  "an_stamped line \<longleftrightarrow> (case re_search an_stamp_re line of
       None \<Rightarrow> False
     | Some m \<Rightarrow> (case strptime (drop 1 (group m 1)) of Inl _ \<Rightarrow> False | Inr _ \<Rightarrow> True))"

definition an_open :: "role \<Rightarrow> int \<Rightarrow> astate \<Rightarrow> astate" where
  "an_open r term s =
     (if as_term s \<noteq> Some term \<or> as_role s \<noteq> Some r
      then let views = as_views s @ (case as_current s of None \<Rightarrow> [] | Some v \<Rightarrow> [v]) in
        \<lparr>as_views = views,
         as_current = Some \<lparr>av_number = length views + 1, av_role = r, av_term = term, av_beats = 0\<rparr>,
         as_term = Some term, as_role = Some r\<rparr>
      else s)"

text \<open>\<open>current_view['heartbeat_count'] = ...\<close>; indexing \<open>None\<close> would be a TypeError.\<close>

definition an_beat :: "(int \<Rightarrow> int) \<Rightarrow> astate \<Rightarrow> astate res" where
  "an_beat f s = (case as_current s of
       None \<Rightarrow> Inl TypeError
     | Some v \<Rightarrow> Inr (s\<lparr>as_current := Some (v\<lparr>av_beats := f (av_beats v)\<rparr>)\<rparr>))"

definition an_leader :: "string \<Rightarrow> astate \<Rightarrow> astate res" where
  "an_leader line s = (case re_search an_leader_re line of
       None \<Rightarrow> Inr s
     | Some m \<Rightarrow> an_beat (\<lambda>b. max b (int_of_digits (group m 1))) (an_open Leader (int_of_digits (group m 2)) s))"

definition an_follower :: "string \<Rightarrow> astate \<Rightarrow> astate res" where
  "an_follower line s = (case re_search an_follower_re line of
       None \<Rightarrow> Inr s
     | Some m \<Rightarrow> an_beat (\<lambda>b. b + 1) (an_open Follower (int_of_digits (group m 1)) s))"

fun an_loop :: "string list \<Rightarrow> astate \<Rightarrow> astate res" where
  "an_loop [] s = Inr s"
| "an_loop (line # lines) s =
     (if an_stamped line
      then bind_res (an_leader line s) (\<lambda>s1. bind_res (an_follower line s1) (an_loop lines))
      else an_loop lines s)"

definition as_init :: astate where
  "as_init = \<lparr>as_views = [], as_current = None, as_term = None, as_role = None\<rparr>"

definition an_finish :: "astate \<Rightarrow> aview list" where
  "an_finish s = as_views s @ (case as_current s of None \<Rightarrow> [] | Some v \<Rightarrow> [v])"

definition an_parse_log_file :: "string list \<Rightarrow> aview list res" where
  "an_parse_log_file lines = bind_res (an_loop lines as_init) (\<lambda>s. Inr (an_finish s))"

subsection \<open>The CSV and the plot\<close>

definition role_name :: "role \<Rightarrow> string" where
  "role_name r = (case r of Leader \<Rightarrow> ''leader'' | Follower \<Rightarrow> ''follower'')"

definition crlf :: string where "crlf = [CHR 0x0D, newline]"

definition generate_csv :: "aview list \<Rightarrow> string list" where
  "generate_csv views =
     (''View Number,Role,Term,Heartbeat Count'' @ crlf)
     # map (\<lambda>v. show_int (int (av_number v)) @ '','' @ role_name (av_role v) @ '','' @ show_int (av_term v)
         @ '','' @ show_int (av_beats v) @ crlf) views"

definition an_plot_views :: "aview list \<Rightarrow> (int \<times> int \<times> string) list" where
  "an_plot_views views =
     map (\<lambda>v. (av_term v, av_beats v, if av_role v = Leader then ''red'' else ''green'')) views"

text \<open>\<open>main\<close> runs without arguments, on one fixed file.\<close>

definition an_main :: "string list \<Rightarrow> (string \<Rightarrow> string list option) \<Rightarrow> (string list \<times> (int \<times> int \<times> string) list) res" where
  "an_main argv files =
     (if length argv = 1
      then (case files ''downloaded_logs/20241027_190925/node_2.log'' of
              None \<Rightarrow> Inl FileNotFoundError
            | Some lines \<Rightarrow> bind_res (an_parse_log_file lines) (\<lambda>views. Inr (generate_csv views, an_plot_views views)))
      else Inl (SystemExit ''1''))"

subsection \<open>Runs\<close>

text \<open>A heartbeat line: role, term and (for a leader) the heartbeat's number.\<close>

type_synonym aevent = "role \<times> int \<times> int"

definition an_line_events :: "string \<Rightarrow> aevent list" where
  "an_line_events line = (if an_stamped line then
     (case re_search an_leader_re line of None \<Rightarrow> []
        | Some m \<Rightarrow> [(Leader, int_of_digits (group m 2), int_of_digits (group m 1))])
     @ (case re_search an_follower_re line of None \<Rightarrow> []
        | Some m \<Rightarrow> [(Follower, int_of_digits (group m 1), 0)]) else [])"

definition an_events :: "string list \<Rightarrow> aevent list" where
  "an_events lines = concat (map an_line_events lines)"

definition akey :: "aevent \<Rightarrow> role \<times> int" where
  "akey e = (fst e, fst (snd e))"

function runs :: "('a \<Rightarrow> 'k) \<Rightarrow> 'a list \<Rightarrow> 'a list list" where
  "runs key [] = []"
| "runs key (x # xs) = (x # takeWhile (\<lambda>y. key y = key x) xs) # runs key (dropWhile (\<lambda>y. key y = key x) xs)"
  by pat_completeness auto
termination
  by (relation "measure (length \<circ> snd)") (auto simp: less_Suc_eq_le length_dropWhile_le)

definition run_beats_of :: "aevent list \<Rightarrow> int" where
  "run_beats_of g = (case fst (hd g) of
       Leader \<Rightarrow> foldl max 0 (map (\<lambda>e. snd (snd e)) g)
     | Follower \<Rightarrow> int (length g))"

definition run_view :: "nat \<Rightarrow> aevent list \<Rightarrow> aview" where
  "run_view n g = \<lparr>av_number = n, av_role = fst (hd g), av_term = fst (snd (hd g)), av_beats = run_beats_of g\<rparr>"

definition run_views :: "nat \<Rightarrow> aevent list list \<Rightarrow> aview list" where
  "run_views n gs = map (\<lambda>(i, g). run_view i g) (enumerate n gs)"

subsection \<open>The machine numbers and counts the runs\<close>

definition bump_view :: "role \<Rightarrow> int \<Rightarrow> int \<Rightarrow> int" where
  "bump_view r i b = (case r of Leader \<Rightarrow> max b i | Follower \<Rightarrow> b + 1)"

definition an_event :: "aevent \<Rightarrow> astate \<Rightarrow> astate res" where
  "an_event e s = an_beat (bump_view (fst e) (snd (snd e))) (an_open (fst e) (fst (snd e)) s)"

fun an_evs :: "aevent list \<Rightarrow> astate \<Rightarrow> astate res" where
  "an_evs [] s = Inr s"
| "an_evs (e # es) s = bind_res (an_event e s) (an_evs es)"

lemma an_evs_append: "an_evs (xs @ ys) s = bind_res (an_evs xs s) (an_evs ys)"
  by (induction xs arbitrary: s) (auto simp: bind_res_def split: sum.splits)

lemma an_line_evs:
  "an_evs (an_line_events line) s =
     (if an_stamped line then bind_res (an_leader line s) (an_follower line) else Inr s)"
proof -
  have ev: "an_event (Leader, t, i) s = an_beat (\<lambda>b. max b i) (an_open Leader t s)"
    "an_event (Follower, t, i) s = an_beat (\<lambda>b. b + 1) (an_open Follower t s)" for t i s
    by (simp_all add: an_event_def bump_view_def [abs_def])
  have bind_Inr: "bind_res m Inr = m" for m :: "astate res" by (cases m) auto
  show ?thesis
    by (auto simp: an_line_events_def an_leader_def an_follower_def ev an_evs_append bind_Inr bind_res_def
        split: option.splits sum.splits)
qed

lemma an_loop_evs: "an_loop lines s = an_evs (an_events lines) s"
proof (induction lines arbitrary: s)
  case (Cons line lines)
  have "an_evs (an_events (line # lines)) s = bind_res (an_evs (an_line_events line) s) (an_evs (an_events lines))"
    by (simp add: an_events_def an_evs_append)
  with Cons show ?case by (auto simp: an_line_evs bind_res_def split: sum.splits)
qed (simp add: an_events_def)

text \<open>The open view is in the term and role the state names, and numbered after the finished ones.\<close>

definition as_ok :: "astate \<Rightarrow> bool" where
  "as_ok s \<longleftrightarrow> (case as_current s of
       None \<Rightarrow> as_term s = None \<and> as_views s = []
     | Some v \<Rightarrow> as_term s = Some (av_term v) \<and> as_role s = Some (av_role v) \<and> av_number v = length (as_views s) + 1)"

definition beats_from :: "int \<Rightarrow> role \<Rightarrow> aevent list \<Rightarrow> int" where
  "beats_from b r g = foldl (\<lambda>b e. bump_view r (snd (snd e)) b) b g"

lemma run_beats_eq: "g \<noteq> [] \<Longrightarrow> run_beats_of g = beats_from 0 (fst (hd g)) g"
proof -
  have "foldl max b (map (\<lambda>e. snd (snd e)) g) = beats_from b Leader g" for b
    by (induction g arbitrary: b) (auto simp: beats_from_def bump_view_def)
  moreover have "beats_from b Follower g = b + int (length g)" for b
    by (induction g arbitrary: b) (auto simp: beats_from_def bump_view_def)
  from this [of 0] calculation show ?thesis by (simp add: run_beats_of_def split: role.splits)
qed

lemma an_event_same:
  assumes "as_ok s" "as_current s = Some v" "akey e = (av_role v, av_term v)"
  shows "an_event e s = Inr (s\<lparr>as_current := Some (v\<lparr>av_beats := bump_view (av_role v) (snd (snd e)) (av_beats v)\<rparr>)\<rparr>)"
  using assms by (auto simp: an_event_def an_open_def an_beat_def as_ok_def akey_def)

lemma an_event_new:
  assumes "as_ok s" "\<And>v. as_current s = Some v \<Longrightarrow> akey e \<noteq> (av_role v, av_term v)"
  shows "an_event e s = Inr \<lparr>as_views = an_finish s,
    as_current = Some \<lparr>av_number = length (an_finish s) + 1, av_role = fst e, av_term = fst (snd e),
      av_beats = bump_view (fst e) (snd (snd e)) 0\<rparr>,
    as_term = Some (fst (snd e)), as_role = Some (fst e)\<rparr>"
  using assms
  by (auto simp: an_event_def an_open_def an_beat_def as_ok_def akey_def an_finish_def Let_def split: option.splits)

lemma an_evs_open:
  "as_ok s \<Longrightarrow> as_current s = Some v \<Longrightarrow>
   \<exists>s'. an_evs es s = Inr s' \<and> an_finish s' = as_views s
     @ v\<lparr>av_beats := beats_from (av_beats v) (av_role v) (takeWhile (\<lambda>e. akey e = (av_role v, av_term v)) es)\<rparr>
     # run_views (length (as_views s) + 2) (runs akey (dropWhile (\<lambda>e. akey e = (av_role v, av_term v)) es))"
proof (induction es arbitrary: s v)
  case Nil
  then show ?case by (simp add: an_finish_def beats_from_def run_views_def)
next
  case (Cons e es)
  show ?case
  proof (cases "akey e = (av_role v, av_term v)")
    case True
    let ?v = "v\<lparr>av_beats := bump_view (av_role v) (snd (snd e)) (av_beats v)\<rparr>"
    have "as_ok (s\<lparr>as_current := Some ?v\<rparr>)" using Cons.prems by (simp add: as_ok_def)
    from Cons.IH [OF this, of ?v] an_event_same [OF Cons.prems True] True show ?thesis
      by (auto simp: beats_from_def)
  next
    case False
    let ?v = "\<lparr>av_number = length (an_finish s) + 1, av_role = fst e, av_term = fst (snd e),
      av_beats = bump_view (fst e) (snd (snd e)) 0\<rparr>"
    let ?s = "\<lparr>as_views = an_finish s, as_current = Some ?v, as_term = Some (fst (snd e)), as_role = Some (fst e)\<rparr>"
    have step: "an_event e s = Inr ?s" using an_event_new [OF Cons.prems(1)] Cons.prems(2) False by simp
    have "as_ok ?s" by (simp add: as_ok_def)
    from Cons.IH [OF this, of ?v] step False Cons.prems(2) show ?thesis
      by (auto simp: an_finish_def run_views_def run_view_def run_beats_eq beats_from_def akey_def)
  qed
qed

lemma an_parse_runs: "an_parse_log_file lines = Inr (run_views 1 (runs akey (an_events lines)))"
proof (cases "an_events lines")
  case Nil
  then show ?thesis
    by (simp add: an_parse_log_file_def an_loop_evs as_init_def an_finish_def run_views_def)
next
  case (Cons e es)
  let ?v = "\<lparr>av_number = 1, av_role = fst e, av_term = fst (snd e), av_beats = bump_view (fst e) (snd (snd e)) 0\<rparr>"
  let ?s = "\<lparr>as_views = [], as_current = Some ?v, as_term = Some (fst (snd e)), as_role = Some (fst e)\<rparr>"
  have step: "an_event e as_init = Inr ?s"
    using an_event_new [of as_init e] by (simp add: as_ok_def as_init_def an_finish_def)
  have "as_ok ?s" by (simp add: as_ok_def)
  from an_evs_open [OF this, of ?v es] step Cons show ?thesis
    by (auto simp: an_parse_log_file_def an_loop_evs run_views_def run_view_def run_beats_eq beats_from_def akey_def
        numeral_2_eq_2)
qed

lemma concat_runs [simp]: "concat (runs key xs) = xs"
  by (induction key xs rule: runs.induct) simp_all

text \<open>A run is not empty and keeps one key.\<close>

definition uniform :: "('a \<Rightarrow> 'k) \<Rightarrow> 'a list \<Rightarrow> bool" where
  "uniform key g \<longleftrightarrow> g \<noteq> [] \<and> (\<exists>k. \<forall>x \<in> set g. key x = k)"

lemma runs_uniform: "g \<in> set (runs key xs) \<Longrightarrow> uniform key g"
proof (induction key xs rule: runs.induct)
  case (2 key x xs)
  have "uniform key (x # takeWhile (\<lambda>y. key y = key x) xs)"
    unfolding uniform_def by (auto dest: set_takeWhileD)
  with 2 show ?case by auto
qed simp

lemma runs_change: "successively (\<lambda>g h. key (hd g) \<noteq> key (hd h)) (runs key xs)"
proof (induction key xs rule: runs.induct)
  case (2 key x xs)
  let ?rest = "dropWhile (\<lambda>y. key y = key x) xs"
  have "key (hd g) \<noteq> key x" if "runs key ?rest = g # gs" for g gs
  proof -
    from that obtain y ys where y: "?rest = y # ys" by (metis list.distinct(1) runs.elims)
    with hd_dropWhile [of "\<lambda>y. key y = key x" xs] that show ?thesis by auto
  qed
  with 2 show ?case by (cases "runs key ?rest") auto
qed simp

lemma follower_beats:
  "\<forall>g \<in> set gs. uniform akey g \<Longrightarrow>
   sum_list (map av_beats (filter (\<lambda>v. av_role v = Follower) (run_views n gs))) =
   int (length (filter (\<lambda>e. fst e = Follower) (concat gs)))"
proof (induction gs arbitrary: n)
  case (Cons g gs)
  then obtain k where k: "g \<noteq> []" "\<And>x. x \<in> set g \<Longrightarrow> fst x = k"
    unfolding uniform_def akey_def by (metis list.set_intros(1) prod.inject)
  then have "fst (hd g) = k" by simp
  then have "filter (\<lambda>e. fst e = Follower) g = (if fst (hd g) = Follower then g else [])"
    using k(2) by (auto simp: filter_empty_conv)
  moreover have "run_beats_of g = int (length g)" if "fst (hd g) = Follower"
    using that by (simp add: run_beats_of_def)
  ultimately show ?case
    using Cons.IH [of "Suc n"] Cons.prems by (simp add: run_views_def run_view_def)
qed (simp add: run_views_def)

text \<open>
  the script never fails on a log, and its views are the maximal runs of heartbeat lines with the
  same role and term, numbered from 1; a follower's count is the length of its run and a leader's
  the largest heartbeat number in it.
\<close>

theorem an_parse_log_file_runs:
  "an_parse_log_file lines = Inr (map (\<lambda>(n, g). run_view n g) (enumerate 1 (runs akey (an_events lines))))"
  using an_parse_runs by (simp add: run_views_def)

text \<open>
  The view numbers are 1, 2, ... without gaps, neighbouring views differ in role or term, and the
  follower views together count every heartbeat received on a timestamped line.
\<close>

theorem an_parse_log_file_numbers:
  assumes "an_parse_log_file lines = Inr views"
  shows "map av_number views = [1..<length views + 1]
    \<and> successively (\<lambda>a b. (av_role a, av_term a) \<noteq> (av_role b, av_term b)) views
    \<and> sum_list (map av_beats (filter (\<lambda>v. av_role v = Follower) views)) =
        int (length (filter (\<lambda>e. fst e = Follower) (an_events lines)))"
proof -
  let ?gs = "runs akey (an_events lines)"
  from assms have v: "views = run_views 1 ?gs" by (simp add: an_parse_runs)
  have numbers: "map av_number (run_views n gs) = [n..<n + length gs]" for n gs
    by (induction gs arbitrary: n) (auto simp: run_views_def run_view_def upt_rec)
  have change: "successively (\<lambda>a b. (av_role a, av_term a) \<noteq> (av_role b, av_term b)) (run_views n gs)"
    if "successively (\<lambda>g h. akey (hd g) \<noteq> akey (hd h)) gs" for n gs
    using that by (induction gs arbitrary: n rule: induct_list012) (auto simp: run_views_def run_view_def akey_def)
  have "length views = length ?gs" by (simp add: v run_views_def)
  then show ?thesis
    using numbers [of 1 ?gs] change [OF runs_change] follower_beats [of ?gs 1] runs_uniform [of _ akey "an_events lines"]
    by (simp add: v)
qed

definition alog :: "string list" where
  "alog = map (\<lambda>msg. ''I20241027 13:00:00.000000 7 node.cpp:1] '' @ msg @ [newline])
     [''[LEADER] Sent heartbeat 1 for term 3'', ''[LEADER] Sent heartbeat 2 for term 3'',
      ''Received heartbeat (AppendEntries) from leader 10.0.0.1 for term 4'',
      ''Received heartbeat (AppendEntries) from leader 10.0.0.1 for term 4'']"

theorem an_parse_log_file_numbers_witness:
  "an_parse_log_file alog = Inr [\<lparr>av_number = 1, av_role = Leader, av_term = 3, av_beats = 2\<rparr>,
      \<lparr>av_number = 2, av_role = Follower, av_term = 4, av_beats = 2\<rparr>]
   \<and> length (filter (\<lambda>e. fst e = Follower) (an_events alog)) = 2"
proof -
  have run: "an_parse_log_file alog = Inr [\<lparr>av_number = 1, av_role = Leader, av_term = 3, av_beats = 2\<rparr>,
      \<lparr>av_number = 2, av_role = Follower, av_term = 4, av_beats = 2\<rparr>]"
    by code_simp
  from an_parse_log_file_numbers [OF run] run show ?thesis by simp
qed

end
