(* ===== verification/Elections.thy ===== *)
theory Elections
  imports Py_Regex Py_Stats
begin

text \<open>
  \<open>scripts/election_analysis.py\<close> and \<open>scripts/rank_analysis.py\<close>: how often each node was
  ranked 0 and how many terms it led, over the logs of a folder without their first 1800 lines. The
  file system is a parameter: the subfolders of the base directory, the listing of a folder
  (\<open>None\<close> where it does not exist) and the lines of a file (\<open>None\<close> where it cannot be read).
\<close>

subsection \<open>Folders and names\<close>

definition find_largest_folder :: "string list \<Rightarrow> string option" where
  "find_largest_folder subfolders = (case subfolders of [] \<Rightarrow> None | f # fs \<Rightarrow> Some (fold max fs f))"

definition largest_folder :: string where
  "largest_folder = ''./downloaded_logs/20241203_223802''"

definition files_to_process :: "string list \<Rightarrow> string list" where
  "files_to_process file_list = filter (\<lambda>f. startswith f ''node_'' \<and> endswith f ''.log'') file_list"

definition node_ip_list :: "string list" where
  "node_ip_list = [''10.10.4.2'', ''10.10.2.1'', ''10.10.2.2'', ''10.10.3.2'', ''10.10.5.2'']"

definition ip_to_node :: "(string, string) dict" where
  "ip_to_node = map (\<lambda>(idx, ip). (ip, ''node_'' @ show_int (int idx))) (enumerate 0 node_ip_list)"

text \<open>\<open>ip_to_node.get(ip, ip)\<close> after the port is cut off.\<close>

definition node_name :: "string \<Rightarrow> string" where
  "node_name ip_port = (let ip = hd (split_on (CHR '':'') ip_port) in dict_get ip_to_node ip ip)"

subsection \<open>election_analysis.py\<close>

definition rank_pattern :: regex where
  "rank_pattern = rseq [lit ''The rank of '', Cap 1 (plus rnonspace), lit '' is: '', Cap 2 (plus rdigit)]"

definition ea_leader_pattern :: regex where
  "ea_leader_pattern = rseq [lit ''Received AppendEntries from '', Cap 1 (plus rnonspace), lit '' for term '',
     Cap 2 (plus rdigit), lit '' with id '', Cap 3 (plus rdigit)]"

record ea_state =
  rank0_counts :: "(string, nat) dict"
  term_leaders :: "(int, string) dict"

definition ea_rank0 :: "string \<Rightarrow> string option" where
  "ea_rank0 line = (case re_search rank_pattern line of
       None \<Rightarrow> None
     | Some m \<Rightarrow> if int_of_digits (group m 2) = 0 then Some (node_name (group m 1)) else None)"

definition ea_leader :: "string \<Rightarrow> (int \<times> string) option" where
  "ea_leader line = (case re_search ea_leader_pattern line of
       None \<Rightarrow> None
     | Some m \<Rightarrow> Some (int_of_digits (group m 2), node_name (group m 1)))"

definition note_leader :: "(int, string) dict \<Rightarrow> int \<times> string \<Rightarrow> (int, string) dict" where
  "note_leader d p = (if map_of d (fst p) = None then AList.update (fst p) (snd p) d else d)"

definition ea_line :: "ea_state \<Rightarrow> string \<Rightarrow> ea_state" where
  "ea_line s line =
     \<lparr>rank0_counts = (case ea_rank0 line of None \<Rightarrow> rank0_counts s | Some n \<Rightarrow> bump (rank0_counts s) n),
      term_leaders = (case ea_leader line of None \<Rightarrow> term_leaders s | Some p \<Rightarrow> note_leader (term_leaders s) p)\<rparr>"

text \<open>
  A file: the warm-up loop raises \<open>StopIteration\<close> when there are fewer than 1800 lines, and
  then, as with a file that cannot be read, nothing of it is counted.
\<close>

definition warm_lines :: "string list option \<Rightarrow> string list" where
  "warm_lines f = (case f of
       None \<Rightarrow> []
     | Some lines \<Rightarrow> if length lines < 1800 then [] else drop 1800 lines)"

definition ea_file :: "ea_state \<Rightarrow> string list option \<Rightarrow> ea_state" where
  "ea_file s f = foldl ea_line s (warm_lines f)"

definition ea_collect :: "string list option list \<Rightarrow> ea_state" where
  "ea_collect fs = foldl ea_file \<lparr>rank0_counts = [], term_leaders = []\<rparr> fs"

text \<open>The bars: node, count, percentage.\<close>

definition shares :: "(string \<times> nat) list \<Rightarrow> nat \<Rightarrow> (string \<times> nat \<times> real) list" where
  "shares counts tot = map (\<lambda>(n, c). (n, c, real c / real tot * 100)) counts"

definition ea_rank0_bars :: "ea_state \<Rightarrow> (string \<times> nat \<times> real) list" where
  "ea_rank0_bars s = shares (rank0_counts s) (sum_list (dict_values (rank0_counts s)))"

definition leader_term_counts :: "ea_state \<Rightarrow> (string, nat) dict" where
  "leader_term_counts s = foldl bump [] (dict_values (term_leaders s))"

definition ea_leader_bars :: "ea_state \<Rightarrow> (string \<times> nat \<times> real) list" where
  "ea_leader_bars s = shares (map (\<lambda>n. (n, dict_get (leader_term_counts s) n 0)) (sort (dict_keys (leader_term_counts s))))
     (length (term_leaders s))"

text \<open>\<open>None\<close> where \<open>main\<close> returns early; an empty list of bars where a chart is left out.\<close>

definition ea_main :: "string list \<Rightarrow> (string \<Rightarrow> string list option) \<Rightarrow> (string \<Rightarrow> string list option)
    \<Rightarrow> ((string \<times> nat \<times> real) list \<times> (string \<times> nat \<times> real) list) option" where
  "ea_main subfolders listdir read =
     (case find_largest_folder subfolders of
        None \<Rightarrow> None
      | Some _ \<Rightarrow> (case listdir largest_folder of
            None \<Rightarrow> None
          | Some file_list \<Rightarrow>
              let fs = files_to_process file_list in
              if fs = [] then None
              else let s = ea_collect (map (\<lambda>f. read (largest_folder @ ''/'' @ f)) fs) in
                   Some (ea_rank0_bars s, ea_leader_bars s)))"

subsection \<open>rank_analysis.py\<close>

definition ra_line :: "(string, nat) dict \<Rightarrow> string \<Rightarrow> (string, nat) dict" where
  "ra_line counts line =
     (if str_in ''The rank of'' line \<and> str_in ''is:'' line
      then (case re_search rank_pattern line of
              None \<Rightarrow> counts
            | Some m \<Rightarrow> let node = node_name (group m 1) in
                if int_of_digits (group m 2) = 0 then bump counts node else counts)
      else counts)"

definition ra_collect :: "string list option list \<Rightarrow> (string, nat) dict" where
  "ra_collect fs = foldl (\<lambda>counts f. foldl ra_line counts (warm_lines f)) [] fs"

definition ra_main :: "string list \<Rightarrow> (string \<Rightarrow> string list option) \<Rightarrow> (string \<Rightarrow> string list option)
    \<Rightarrow> (string \<times> nat \<times> real) list option" where
  "ra_main subfolders listdir read =
     (case find_largest_folder subfolders of
        None \<Rightarrow> None
      | Some _ \<Rightarrow> (case listdir largest_folder of
            None \<Rightarrow> None
          | Some file_list \<Rightarrow>
              let fs = files_to_process file_list in
              if fs = [] then None
              else let counts = ra_collect (map (\<lambda>f. read (largest_folder @ ''/'' @ f)) fs) in
                   if counts = [] then None else Some (shares counts (sum_list (dict_values counts)))))"

subsection \<open>Counts\<close>

lemma ea_fold:
  "foldl ea_line s lines =
     \<lparr>rank0_counts = foldl bump (rank0_counts s) (List.map_filter ea_rank0 lines),
      term_leaders = foldl note_leader (term_leaders s) (List.map_filter ea_leader lines)\<rparr>"
  by (induction lines arbitrary: s) (auto simp: ea_line_def map_filter_simps split: option.splits)

definition all_lines :: "string list option list \<Rightarrow> string list" where
  "all_lines fs = concat (map warm_lines fs)"

lemma ea_collect_eq:
  "ea_collect fs =
     \<lparr>rank0_counts = foldl bump [] (List.map_filter ea_rank0 (all_lines fs)),
      term_leaders = foldl note_leader [] (List.map_filter ea_leader (all_lines fs))\<rparr>"
proof -
  have "ea_collect fs = foldl (\<lambda>s xs. foldl ea_line s xs) \<lparr>rank0_counts = [], term_leaders = []\<rparr> (map warm_lines fs)"
    by (simp add: ea_collect_def ea_file_def [abs_def] foldl_map)
  then show ?thesis unfolding foldl_foldl by (simp add: ea_fold all_lines_def)
qed

text \<open>\<open>note_leader\<close> keeps the first leader seen for a term.\<close>

lemma wf_note_leader: "wf_dict d \<Longrightarrow> wf_dict (foldl note_leader d ps)"
  by (induction ps arbitrary: d) (auto simp: note_leader_def)

lemma map_of_note_leader: "map_of (foldl note_leader d ps) = map_of ps ++ map_of d"
proof (induction ps arbitrary: d)
  case (Cons p ps)
  have "map_of (note_leader d p) = map_of [p] ++ map_of d"
    by (cases p) (auto simp: note_leader_def update_conv' map_add_def fun_eq_iff split: option.splits)
  with Cons show ?case by (cases p) (simp add: map_add_def fun_eq_iff split: option.splits)
qed simp

lemma wf_foldl_bump: "wf_dict (foldl bump [] ks)"
  using dict_counter.invar_foldl [of "[]" ks] by simp

lemma shares_sum:
  assumes "sum_list (map snd counts) = tot" "0 < tot"
  shows "sum_list (map (\<lambda>(n, c, p). p) (shares counts tot)) = 100"
proof -
  have "sum_list (map (\<lambda>(n, c, p). p) (shares counts t)) = real (sum_list (map snd counts)) / real t * 100" for t
    by (induction counts) (auto simp: shares_def add_divide_distrib algebra_simps)
  with assms show ?thesis by simp
qed

lemma count_values_card:
  "wf_dict d \<Longrightarrow> count_list (map snd d) v = card {k. map_of d k = Some v}"
proof (induction d)
  case (Cons p d)
  obtain k w where p: "p = (k, w)" by (cases p)
  from Cons.prems p have k: "map_of d k = None" and wf: "wf_dict d"
    by (auto simp: wf_dict_def map_of_eq_None_iff)
  have fin: "finite {j. map_of d j = Some v}"
    by (rule finite_subset [of _ "fst ` set d"]) (auto dest: map_of_SomeD simp: rev_image_eqI)
  have "{j. map_of (p # d) j = Some v} = (if w = v then insert k else id) {j. map_of d j = Some v}"
    using k p by auto
  with fin k Cons.IH [OF wf] p show ?case by simp
qed simp

lemma sum_counts:
  fixes d :: "(string, nat) dict"
  assumes "wf_dict d"
  shows "sum_list (map (\<lambda>n. dict_get d n 0) (sort (dict_keys d))) = sum_list (map snd d)"
proof -
  have "mset (map (\<lambda>n. dict_get d n 0) (sort (dict_keys d))) = mset (map (\<lambda>p. dict_get d (fst p) 0) d)"
    by (simp add: dict_keys_def image_mset.compositionality o_def)
  then have "sum_list (map (\<lambda>n. dict_get d n 0) (sort (dict_keys d))) = sum_list (map (\<lambda>p. dict_get d (fst p) 0) d)"
    by (metis sum_mset_sum_list)
  also have "map (\<lambda>p. dict_get d (fst p) 0) d = map snd d"
    using assms by (auto simp: dict_get_mem)
  finally show ?thesis .
qed

lemma rank_prefilter:
  assumes "re_search rank_pattern line = Some m"
  shows "str_in ''The rank of'' line \<and> str_in ''is:'' line"
proof -
  note ne = option.discI [OF assms [unfolded rank_pattern_def]]
  have "str_in ''The rank of '' line" "str_in '' is: '' line"
    by (rule re_search_rseq_lit [OF ne], simp only: list.set insert_iff simp_thms)+
  moreover have "str_in ''The rank of'' ''The rank of ''" "str_in ''is:'' '' is: ''" by simp_all
  ultimately show ?thesis by (blast intro: str_in_trans)
qed

lemma ra_line_eq: "ra_line counts line = (case ea_rank0 line of None \<Rightarrow> counts | Some n \<Rightarrow> bump counts n)"
  using rank_prefilter [of line] by (auto simp: ra_line_def ea_rank0_def Let_def split: option.splits)

lemma ra_collect_eq: "ra_collect fs = rank0_counts (ea_collect fs)"
proof -
  have "ra_collect fs = foldl (\<lambda>counts xs. foldl ra_line counts xs) [] (map warm_lines fs)"
    by (simp add: ra_collect_def foldl_map)
  then have "ra_collect fs = foldl ra_line [] (all_lines fs)"
    unfolding foldl_foldl all_lines_def .
  then show ?thesis by (simp add: ea_collect_eq ra_line_eq [abs_def] foldl_map_filter)
qed

text \<open>
  C12: over the lines after the warm-up of all readable files with 1800 lines or more, a node's rank-0
  count is the number of lines that rank it 0, the leader recorded for a term is the first one
  reported, and a node's leader count is the number of terms whose recorded leader it is.
\<close>

theorem ea_collect_counts:
  "dict_get (rank0_counts (ea_collect fs)) n 0 = count_list (List.map_filter ea_rank0 (all_lines fs)) n
   \<and> map_of (term_leaders (ea_collect fs)) t = map_of (List.map_filter ea_leader (all_lines fs)) t
   \<and> dict_get (leader_term_counts (ea_collect fs)) n 0 =
       card {t. map_of (List.map_filter ea_leader (all_lines fs)) t = Some n}"
proof -
  have leaders: "map_of (term_leaders (ea_collect fs)) = map_of (List.map_filter ea_leader (all_lines fs))"
    by (simp add: ea_collect_eq map_of_note_leader)
  moreover have "wf_dict (term_leaders (ea_collect fs))"
    by (simp add: ea_collect_eq wf_note_leader)
  ultimately show ?thesis
    by (simp add: leader_term_counts_def dict_values_def dict_counter.look_count count_values_card
        leaders) (simp add: ea_collect_eq dict_counter.look_count)
qed

text \<open>
  Each chart that is drawn shares out 100 percent among the nodes, and the leader bars are in node
  order and count every term once.
\<close>

theorem ea_bars_shares:
  "(ea_rank0_bars (ea_collect fs) = [] \<or> (\<Sum>(n, c, p)\<leftarrow>ea_rank0_bars (ea_collect fs). p) = 100)
   \<and> (ea_leader_bars (ea_collect fs) = [] \<or> (\<Sum>(n, c, p)\<leftarrow>ea_leader_bars (ea_collect fs). p) = 100)
   \<and> sorted (map fst (ea_leader_bars (ea_collect fs)))
   \<and> (\<Sum>(n, c, p)\<leftarrow>ea_leader_bars (ea_collect fs). c) = length (term_leaders (ea_collect fs))"
proof -
  let ?s = "ea_collect fs"
  have tot: "sum_list (map snd (leader_term_counts ?s)) = length (term_leaders ?s)"
    using dict_counter.total_count [of "map snd (term_leaders ?s)"]
    by (simp add: leader_term_counts_def dict_values_def)
  have wf: "wf_dict (leader_term_counts ?s)" by (simp add: leader_term_counts_def wf_foldl_bump)
  let ?bars = "map (\<lambda>n. (n, dict_get (leader_term_counts ?s) n 0)) (sort (dict_keys (leader_term_counts ?s)))"
  have bars: "sum_list (map snd ?bars) = length (term_leaders ?s)"
    using sum_counts [OF wf] tot by (simp add: o_def)
  have "ea_leader_bars ?s = [] \<or> 0 < length (term_leaders ?s)"
    by (auto simp: ea_leader_bars_def shares_def leader_term_counts_def dict_values_def dict_keys_def)
  then have 1: "ea_leader_bars ?s = [] \<or> (\<Sum>(n, c, p)\<leftarrow>ea_leader_bars ?s. p) = 100"
    using shares_sum [OF bars] by (auto simp: ea_leader_bars_def)
  have pos: "0 < sum_list (map snd (foldl bump [] ks))" if "foldl bump [] ks \<noteq> []" for ks :: "string list"
    using that dict_counter.total_count [of ks] by (cases ks) auto
  have 2: "ea_rank0_bars ?s = [] \<or> (\<Sum>(n, c, p)\<leftarrow>ea_rank0_bars ?s. p) = 100"
  proof (cases "rank0_counts ?s = []")
    case False
    then have "0 < sum_list (map snd (rank0_counts ?s))" using pos by (simp add: ea_collect_eq)
    from shares_sum [OF refl this] show ?thesis by (simp add: ea_rank0_bars_def dict_values_def)
  qed (simp add: ea_rank0_bars_def shares_def)
  have "map (\<lambda>(n, c, p). c) (shares b k) = map snd b" "map fst (shares b k) = map fst b" for b k
    by (auto simp: shares_def)
  with 1 2 bars show ?thesis by (simp add: ea_leader_bars_def o_def)
qed

text \<open>
  \<open>rank_analysis.py\<close> draws exactly the rank-0 chart of \<open>election_analysis.py\<close>, on any file
  system: its extra substring test never drops a line that the pattern matches.
\<close>

theorem ra_main_ea:
  "ra_main subfolders listdir read =
     (case ea_main subfolders listdir read of
        None \<Rightarrow> None
      | Some (rank0, leaders) \<Rightarrow> if rank0 = [] then None else Some rank0)"
  by (auto simp: ra_main_def ea_main_def Let_def ra_collect_eq ea_rank0_bars_def shares_def split: option.splits)

end
