(* ===== verification/Term_Length.thy ===== *)
theory Term_Length
  imports Py_Regex Py_Stats
begin

text \<open>
  \<open>scripts/length_analysis.py\<close>: the length of every term in heartbeats. A follower counts the
  heartbeats received per term and leader address; a leader keeps the largest heartbeat number it
  sent under the name \<open>self\<close>. \<open>beats_of\<close> says what the nested dictionary should hold.
\<close>

subsection \<open>The pass\<close>

type_synonym beat_table = "(int, (string, int) dict) dict"

definition la_follower_pattern :: regex where
  "la_follower_pattern = rseq [lit ''Received AppendEntries from '', Cap 1 (plus rnumber), lit '':'', plus rdigit,
     lit '' for term '', Cap 2 (plus rdigit), lit '' with id '', Cap 3 (plus rdigit)]"

definition la_leader_pattern :: regex where
  "la_leader_pattern = rseq [lit ''[LEADER] Sent heartbeat '', Cap 1 (plus rdigit), lit '' for term '', Cap 2 (plus rdigit)]"

text \<open>An assignment under \<open>heartbeat_counts[term]\<close>, which creates the inner dictionary.\<close>

definition at_term :: "int \<Rightarrow> ((string, int) dict \<Rightarrow> (string, int) dict) \<Rightarrow> beat_table \<Rightarrow> beat_table" where
  "at_term t f hc = AList.update t (f (dict_get hc t [])) hc"

definition la_received :: "string \<Rightarrow> (int \<times> string) option" where
  "la_received line = map_option (\<lambda>m. (int_of_digits (group m 2), group m 1)) (re_search la_follower_pattern line)"

definition la_sent :: "string \<Rightarrow> (int \<times> int) option" where
  "la_sent line = map_option (\<lambda>m. (int_of_digits (group m 2), int_of_digits (group m 1))) (re_search la_leader_pattern line)"

definition la_line :: "beat_table \<Rightarrow> string \<Rightarrow> beat_table" where
  "la_line hc line =
     (let hc1 = (case la_received line of
                   None \<Rightarrow> hc
                 | Some (t, leader_ip) \<Rightarrow> at_term t (\<lambda>d. bump_by d leader_ip 1) hc)
      in case la_sent line of
           None \<Rightarrow> hc1
         | Some (t, n) \<Rightarrow> at_term t (\<lambda>d. AList.update ''self'' (max (dict_get d ''self'' 0) n) d) hc1)"

definition la_counts :: "string list \<Rightarrow> beat_table" where
  "la_counts lines = foldl la_line [] lines"

text \<open>\<open>max\<close> of an empty dictionary would be a ValueError.\<close>

fun la_rows :: "beat_table \<Rightarrow> int list \<Rightarrow> (int \<times> string \<times> int) list res" where
  "la_rows hc [] = Inr []"
| "la_rows hc (t # ts) = (case max_item (dict_get hc t []) of
       None \<Rightarrow> Inl ValueError
     | Some (leader, n) \<Rightarrow> bind_res (la_rows hc ts) (\<lambda>rows. Inr ((t, leader, n) # rows)))"

record la_stats =
  avg_length :: real
  var_length :: real
  min_length :: int
  max_length :: int
  sum_length :: int

definition la_statistics :: "int list \<Rightarrow> la_stats res" where
  "la_statistics term_lengths = (case term_lengths of
       [] \<Rightarrow> Inl ValueError
     | n # ns \<Rightarrow> Inr \<lparr>avg_length = mean_of (map real_of_int term_lengths),
         var_length = pvariance (map real_of_int term_lengths),
         min_length = fold min ns n, max_length = fold max ns n, sum_length = sum_list term_lengths\<rparr>)"

text \<open>
  The colours: position in the iteration order of the set of leaders, which Python leaves open and is a
  parameter here (a list of the leaders without repetition).
\<close>

definition unique_leaders :: "beat_table \<Rightarrow> string list" where
  "unique_leaders hc = remdups (concat (map (dict_keys \<circ> snd) hc))"

definition la_colors :: "string list \<Rightarrow> (int \<times> string \<times> int) list \<Rightarrow> nat list res" where
  "la_colors order rows = res_fold (\<lambda>acc (t, leader, n). case List.find (\<lambda>i. order ! i = leader) [0..<length order] of
       None \<Rightarrow> Inl KeyError | Some i \<Rightarrow> Inr (acc @ [i])) rows []"

definition la_bar_colors :: "string list \<Rightarrow> string list \<Rightarrow> nat list res" where
  "la_bar_colors order lines = (let hc = la_counts lines in bind_res (la_rows hc (sort (dict_keys hc))) (la_colors order))"

text \<open>The bars (term, leader, length) and the statistics printed with them.\<close>

definition plot_heartbeat_lengths :: "string list \<Rightarrow> ((int \<times> string \<times> int) list \<times> la_stats) res" where
  "plot_heartbeat_lengths lines =
     (let hc = la_counts lines in
      bind_res (la_rows hc (sort (dict_keys hc))) (\<lambda>rows.
      bind_res (la_statistics (map (\<lambda>(t, leader, n). n) rows)) (\<lambda>st. Inr (rows, st))))"

text \<open>The logs \<open>node_idx.log\<close> of a folder: missing ones are skipped, a failing one ends the run.\<close>

fun bulk_process_list :: "(int \<Rightarrow> string list option) \<Rightarrow> int list \<Rightarrow> (int \<times> (int \<times> string \<times> int) list \<times> la_stats) list res" where
  "bulk_process_list files [] = Inr []"
| "bulk_process_list files (idx # idxs) = (case files idx of
       None \<Rightarrow> bulk_process_list files idxs
     | Some lines \<Rightarrow> bind_res (plot_heartbeat_lengths lines) (\<lambda>r.
         bind_res (bulk_process_list files idxs) (\<lambda>rs. Inr ((idx, r) # rs))))"

definition bulk_process_logs :: "(int \<Rightarrow> string list option) \<Rightarrow> int \<Rightarrow> int \<Rightarrow> (int \<times> (int \<times> string \<times> int) list \<times> la_stats) list res" where
  "bulk_process_logs files start_idx end_idx = bulk_process_list files [start_idx..end_idx]"

text \<open>The script itself processes the one log \<open>node_5.log\<close>.\<close>

definition la_script :: "(int \<Rightarrow> string list option) \<Rightarrow> (int \<times> (int \<times> string \<times> int) list \<times> la_stats) list res" where
  "la_script files = bulk_process_logs files 5 5"

subsection \<open>What the table holds\<close>

definition received_events :: "string list \<Rightarrow> (int \<times> string) list" where
  "received_events lines = List.map_filter la_received lines"

definition sent_numbers :: "string list \<Rightarrow> int \<Rightarrow> int list" where
  "sent_numbers lines t = map snd (filter (\<lambda>e. fst e = t) (List.map_filter la_sent lines))"

definition beats_of :: "string list \<Rightarrow> int \<Rightarrow> string \<Rightarrow> int" where
  "beats_of lines t leader =
     (if leader = ''self'' then foldl max 0 (sent_numbers lines t)
      else int (count_list (received_events lines) (t, leader)))"

definition terms_seen :: "string list \<Rightarrow> int set" where
  "terms_seen lines = fst ` set (received_events lines) \<union> fst ` set (List.map_filter la_sent lines)"

abbreviation beat :: "beat_table \<Rightarrow> int \<Rightarrow> string \<Rightarrow> int" where
  "beat hc t leader \<equiv> dict_get (dict_get hc t []) leader 0"

lemma beat_received:
  "beat (at_term t (\<lambda>d. bump_by d ip 1) hc) t' l = beat hc t' l + (if t' = t \<and> l = ip then 1 else 0)"
  by (simp add: at_term_def dict_simps)

lemma beat_sent:
  "beat (at_term t (\<lambda>d. AList.update ''self'' (max (dict_get d ''self'' 0) n) d) hc) t' l =
     (if t' = t \<and> l = ''self'' then max (beat hc t l) n else beat hc t' l)"
  by (simp add: at_term_def dict_simps)

lemma received_not_self: "la_received line = Some (t, ip) \<Longrightarrow> ip \<noteq> ''self''"
proof
  assume r: "la_received line = Some (t, ip)" and self: "ip = ''self''"
  from r obtain m where m: "re_search la_follower_pattern line = Some m" "ip = group m 1"
    by (auto simp: la_received_def)
  have "cap_ok 1 (list_all (\<lambda>c. is_digit c \<or> c = CHR ''.'')) la_follower_pattern"
    using rxm_plus_sym [of "\<lambda>c. is_digit c \<or> c = CHR ''.''"]
    by (fastforce simp: la_follower_pattern_def plus_def rnumber_def rdigit_def)
  from group_prop [OF m(1) this] have "list_all (\<lambda>c. is_digit c \<or> c = CHR ''.'') ip"
    by (simp add: m(2))
  then show False by (simp add: self is_digit_def code_def)
qed

lemma la_counts_snoc: "la_counts (lines @ [line]) = la_line (la_counts lines) line"
  by (simp add: la_counts_def)

lemma beat_counts: "beat (la_counts lines) t leader = beats_of lines t leader"
proof (induction lines rule: rev_induct)
  case Nil
  then show ?case
    by (simp add: la_counts_def beats_of_def sent_numbers_def received_events_def map_filter_simps)
next
  case (snoc line lines)
  then show ?case using received_not_self [of line]
    by (auto simp: la_counts_snoc la_line_def beats_of_def sent_numbers_def received_events_def
        beat_received beat_sent Let_def split: option.splits)
qed

text \<open>Every inner dictionary is a dictionary and holds a leader at least.\<close>

definition table_ok :: "beat_table \<Rightarrow> bool" where
  "table_ok hc \<longleftrightarrow> wf_dict hc \<and> (\<forall>(t, d) \<in> set hc. wf_dict d \<and> d \<noteq> [])"

lemma update_nonempty [simp]: "AList.update k v d \<noteq> []"
  by (cases d) auto

lemma table_ok_at_term:
  assumes "table_ok hc" "\<And>d. wf_dict d \<Longrightarrow> wf_dict (f d) \<and> f d \<noteq> []"
  shows "table_ok (at_term t f hc)"
proof -
  have "wf_dict (dict_get hc t [])"
    using assms(1) by (auto simp: table_ok_def dict_get_def split: option.splits dest: map_of_SomeD)
  from assms(2) [OF this] assms(1) show ?thesis
    using set_update_subset [of t "f (dict_get hc t [])" hc] by (auto simp: table_ok_def at_term_def)
qed

lemma keys_at_term: "set (dict_keys (at_term t f hc)) = insert t (set (dict_keys hc))"
  by (simp add: at_term_def dict_keys_def set_keys_update)

lemma table_ok_counts: "table_ok (la_counts lines)"
proof (induction lines rule: rev_induct)
  case (snoc line lines)
  have bump: "wf_dict (bump_by d ip (1::int)) \<and> bump_by d ip 1 \<noteq> []" if "wf_dict d" for d :: "(string, int) dict" and ip
    using that by (simp add: bump_by_def)
  from snoc show ?case
    by (auto simp: la_counts_snoc la_line_def Let_def intro!: table_ok_at_term bump split: option.splits)
qed (simp add: la_counts_def table_ok_def)

lemma keys_counts: "set (dict_keys (la_counts lines)) = terms_seen lines"
proof (induction lines rule: rev_induct)
  case (snoc line lines)
  then show ?case
    by (auto simp: la_counts_snoc la_line_def Let_def keys_at_term terms_seen_def received_events_def
        split: option.splits)
qed (simp add: la_counts_def dict_keys_def terms_seen_def received_events_def map_filter_simps)

lemma la_row:
  assumes "table_ok hc" "t \<in> set (dict_keys hc)"
  obtains leader n where "max_item (dict_get hc t []) = Some (leader, n)" "n = beat hc t leader"
    "\<And>l. (beat hc t l :: int) \<le> max 0 n"
proof -
  from assms obtain d where d: "map_of hc t = Some d" "dict_get hc t [] = d"
    by (auto simp: dict_keys_def dict_get_def split: option.splits) (metis map_of_eq_None_iff not_Some_eq image_eqI fst_conv)
  from assms(1) map_of_SomeD [OF d(1)] have wf: "wf_dict d" "d \<noteq> []" by (auto simp: table_ok_def)
  from max_item_some [OF wf(2)] obtain leader n where m: "max_item d = Some (leader, n)" by force
  have "n = dict_get d leader 0" using max_item_mem [OF m] wf(1) by (simp add: dict_get_mem)
  moreover have "dict_get d l 0 \<le> max 0 n" for l
    using max_item_max [OF m, of "(l, _)"] by (auto simp: dict_get_def le_max_iff_disj split: option.splits dest!: map_of_SomeD)
  ultimately show ?thesis using that m d(2) by blast
qed

lemma la_rows_spec:
  "table_ok hc \<Longrightarrow> set ts \<subseteq> set (dict_keys hc) \<Longrightarrow>
     \<exists>rows. la_rows hc ts = Inr rows \<and> map fst rows = ts
       \<and> (\<forall>(t, leader, n) \<in> set rows. n = beat hc t leader \<and> (\<forall>l. beat hc t l \<le> max 0 n))"
proof (induction ts)
  case (Cons t ts)
  then obtain rows where rows: "la_rows hc ts = Inr rows" "map fst rows = ts"
    "\<forall>(t, leader, n) \<in> set rows. n = beat hc t leader \<and> (\<forall>l. beat hc t l \<le> max 0 n)" by auto
  from Cons.prems la_row [of hc t] obtain leader n where
    "max_item (dict_get hc t []) = Some (leader, n)" "n = beat hc t leader" "\<And>l. beat hc t l \<le> max 0 n"
    by auto
  with rows show ?case by (intro exI [of _ "(t, leader, n) # rows"]) auto
qed simp

lemma foldl_max_ge: "(b :: int) \<le> foldl max b xs"
  by (induction xs arbitrary: b) (auto intro: order_trans [OF max.cobounded1])

lemma beats_of_nonneg: "0 \<le> beats_of lines t leader"
  by (simp add: beats_of_def foldl_max_ge)

lemma la_statistics_bounds:
  assumes "la_statistics ns = Inr st"
  shows "real_of_int (min_length st) \<le> avg_length st \<and> avg_length st \<le> real_of_int (max_length st)
    \<and> sum_length st = sum_list ns \<and> (\<forall>k \<in> set ns. min_length st \<le> k \<and> k \<le> max_length st)"
proof -
  from assms obtain m ms where ns: "ns = m # ms" by (cases ns) (auto simp: la_statistics_def)
  from assms ns have st: "min_length st = fold min ms m" "max_length st = fold max ms m"
    "avg_length st = mean_of (map real_of_int ns)" "sum_length st = sum_list ns"
    by (auto simp: la_statistics_def)
  have bounds: "\<forall>k \<in> set ns. min_length st \<le> k \<and> k \<le> max_length st"
    using fold_min_max [of ms m] by (auto simp: st ns)
  then have "real_of_int (min_length st) \<le> mean_of (map real_of_int ns)
      \<and> mean_of (map real_of_int ns) \<le> real_of_int (max_length st)"
    by (intro mean_of_bounds) (auto simp: ns)
  with bounds show ?thesis by (simp add: st(3,4))
qed

text \<open>
  the bars are in term order, one for each term with a heartbeat line; a bar's length is the number
  of heartbeats of the term's leader (received from it, or the largest number it sent itself), and no
  other leader has more in that term. A log without heartbeat lines makes the script fail.
\<close>

theorem plot_heartbeat_lengths_rows:
  "if terms_seen lines = {} then plot_heartbeat_lengths lines = Inl ValueError
   else \<exists>rows st. plot_heartbeat_lengths lines = Inr (rows, st)
     \<and> sorted (map fst rows) \<and> distinct (map fst rows) \<and> set (map fst rows) = terms_seen lines
     \<and> list_all (\<lambda>(t, leader, n). n = beats_of lines t leader \<and> (\<forall>l. beats_of lines t l \<le> n)) rows
     \<and> sum_length st = (\<Sum>(t, leader, n)\<leftarrow>rows. n)
     \<and> real_of_int (min_length st) \<le> avg_length st \<and> avg_length st \<le> real_of_int (max_length st)"
proof -
  let ?hc = "la_counts lines" and ?ts = "sort (dict_keys (la_counts lines))"
  note ok = table_ok_counts [of lines]
  from la_rows_spec [OF ok, of ?ts] obtain rows where rows: "la_rows ?hc ?ts = Inr rows" "map fst rows = ?ts"
    "\<forall>(t, leader, n) \<in> set rows. n = beat ?hc t leader \<and> (\<forall>l. beat ?hc t l \<le> max 0 n)" by auto
  have dist: "distinct ?ts" using ok by (simp add: table_ok_def wf_dict_def dict_keys_def)
  have keys: "set ?ts = terms_seen lines" using keys_counts [of lines] by simp
  have all: "list_all (\<lambda>(t, leader, n). n = beats_of lines t leader \<and> (\<forall>l. beats_of lines t l \<le> n)) rows"
    using rows(3) beats_of_nonneg [of lines] by (auto simp: list_all_iff beat_counts max_absorb2)
  show ?thesis
  proof (cases "rows = []")
    case True
    with rows(2) keys have "terms_seen lines = {}" by simp
    with True rows(1) show ?thesis by (simp add: plot_heartbeat_lengths_def Let_def la_statistics_def)
  next
    case False
    then obtain st where st: "la_statistics (map (\<lambda>(t, leader, n). n) rows) = Inr st"
      by (cases rows) (auto simp: la_statistics_def)
    from False rows(2) keys have "terms_seen lines \<noteq> {}" by (metis list.map_disc_iff set_empty)
    moreover have "plot_heartbeat_lengths lines = Inr (rows, st)"
      using rows(1) st by (simp add: plot_heartbeat_lengths_def Let_def)
    moreover have "fst ` set rows = terms_seen lines" using keys rows(2) by (metis list.set_map)
    ultimately show ?thesis using all dist rows(2) la_statistics_bounds [OF st] by simp
  qed
qed

subsection \<open>The colours name the leaders\<close>

lemma la_colors_leaders:
  assumes "\<forall>(t, leader, n) \<in> set rows. leader \<in> set order"
  shows "\<exists>cs. la_colors order rows = Inr cs \<and> map (\<lambda>i. order ! i) cs = map (\<lambda>(t, leader, n). leader) rows"
proof -
  have "\<exists>cs. res_fold (\<lambda>acc (t, leader, n). case List.find (\<lambda>i. order ! i = leader) [0..<length order] of
       None \<Rightarrow> Inl KeyError | Some i \<Rightarrow> Inr (acc @ [i])) rows acc = Inr (acc @ cs)
     \<and> map (\<lambda>i. order ! i) cs = map (\<lambda>(t, leader, n). leader) rows" for acc
    using assms
  proof (induction rows arbitrary: acc)
    case Nil
    then show ?case by simp
  next
    case (Cons r rows)
    obtain t leader n where r: "r = (t, leader, n)" by (cases r)
    with Cons.prems obtain j where "j < length order" "order ! j = leader" by (auto simp: in_set_conv_nth)
    then obtain i where i: "List.find (\<lambda>i. order ! i = leader) [0..<length order] = Some i"
      by (cases "List.find (\<lambda>i. order ! i = leader) [0..<length order]") (auto simp: find_None_iff)
    then have "order ! i = leader" by (auto simp: find_Some_iff)
    moreover from Cons.IH [of "acc @ [i]"] Cons.prems obtain cs where
      "res_fold (\<lambda>acc (t, leader, n). case List.find (\<lambda>i. order ! i = leader) [0..<length order] of
         None \<Rightarrow> Inl KeyError | Some i \<Rightarrow> Inr (acc @ [i])) rows (acc @ [i]) = Inr ((acc @ [i]) @ cs)"
      "map (\<lambda>i. order ! i) cs = map (\<lambda>(t, leader, n). leader) rows" by auto
    ultimately show ?case using i r by (intro exI [of _ "i # cs"]) simp
  qed
  from this [of "[]"] show ?thesis unfolding la_colors_def by simp
qed

end
