(* ===== verification/Log_Counts.thy ===== *)
theory Log_Counts
  imports Py_Regex Py_Stats
begin

text \<open>
  Three small counters over a log given on the command line: \<open>scripts/count_leader.py\<close> (elections
  won), \<open>scripts/quorum_analysis.py\<close> (how often a node is in a quorum) and
  \<open>scripts/concurrent_q_analysis.py\<close> (queue times per sender).
\<close>

subsection \<open>count_leader.py\<close>

definition won_phrase :: string where
  "won_phrase = ''Received enough votes to become leader''"

definition cl_PATTERN :: regex where
  "cl_PATTERN = lit_ci won_phrase"

definition cl_main :: "string list \<Rightarrow> (string \<Rightarrow> string list option) \<Rightarrow> nat res" where
  "cl_main argv files = (case argv of
       [script, log_file] \<Rightarrow> (case files log_file of
           None \<Rightarrow> Inl (SystemExit ''1'')
         | Some lines \<Rightarrow> Inr (sum_list (map (\<lambda>line. 1) (filter (\<lambda>line. re_search cl_PATTERN line \<noteq> None) lines))))
     | _ \<Rightarrow> Inl (SystemExit ''1''))"

lemma rxm_lit_ci:
  "rxm (lit_ci w) (p, s, g) y \<longleftrightarrow>
     (\<exists>v t. s = v @ t \<and> map lower v = map lower w \<and> y = (if v = [] then p else Some (last v), t, g))"
proof (induction w arbitrary: p s)
  case (Cons c w)
  show ?case
  proof
    assume "rxm (lit_ci (c # w)) (p, s, g) y"
    then obtain d cs where d: "s = d # cs" "lower d = lower c" "rxm (lit_ci w) (Some d, cs, g) y" by auto
    with Cons.IH [of "Some d" cs] obtain v t where
      "cs = v @ t" "map lower v = map lower w" "y = (if v = [] then Some d else Some (last v), t, g)" by blast
    with d show "\<exists>v t. s = v @ t \<and> map lower v = map lower (c # w) \<and> y = (if v = [] then p else Some (last v), t, g)"
      by (intro exI [of _ "d # v"] exI [of _ t]) auto
  next
    assume "\<exists>v t. s = v @ t \<and> map lower v = map lower (c # w) \<and> y = (if v = [] then p else Some (last v), t, g)"
    then obtain d v t where v: "s = d # v @ t" "lower d = lower c" "map lower v = map lower w"
      "y = (Some (last (d # v)), t, g)" by (auto simp: map_eq_Cons_conv)
    with Cons.IH [of "Some d" "v @ t"] have "rxm (lit_ci w) (Some d, v @ t, g) y" by auto
    with v show "rxm (lit_ci (c # w)) (p, s, g) y" by auto
  qed
qed auto

lemma re_search_lit_ci: "re_search (lit_ci w) s \<noteq> None \<longleftrightarrow> str_in (map lower w) (map lower s)"
proof -
  have "re_search (lit_ci w) s \<noteq> None \<longleftrightarrow> (\<exists>u v t. s = u @ v @ t \<and> map lower v = map lower w)"
    unfolding re_search_iff rxm_lit_ci by blast
  also have "\<dots> \<longleftrightarrow> (\<exists>a b. map lower s = a @ map lower w @ b)"
  proof
    assume "\<exists>u v t. s = u @ v @ t \<and> map lower v = map lower w"
    then show "\<exists>a b. map lower s = a @ map lower w @ b" by (metis map_append)
  next
    assume "\<exists>a b. map lower s = a @ map lower w @ b"
    then obtain a b where "map lower s = a @ map lower w @ b" by blast
    then obtain u x where "s = u @ x" "map lower x = map lower w @ b" by (metis map_eq_append_conv)
    then show "\<exists>u v t. s = u @ v @ t \<and> map lower v = map lower w" by (metis map_eq_append_conv)
  qed
  finally show ?thesis by (simp add: str_in_sublist sublist_def)
qed

text \<open>
  The script prints the number of lines that contain the winning phrase whatever its case, and
  exits with status 1 on a wrong number of arguments or a missing file.
\<close>

theorem cl_main_counts:
  "cl_main argv files =
     (if length argv = 2 \<and> files (argv ! 1) \<noteq> None
      then Inr (length (filter (\<lambda>line. str_in (map lower won_phrase) (map lower line)) (the (files (argv ! 1)))))
      else Inl (SystemExit ''1''))"
proof -
  have "sum_list (map (\<lambda>_. 1) xs) = length xs" for xs :: "string list" by (induction xs) auto
  then show ?thesis
    by (auto simp: cl_main_def cl_PATTERN_def re_search_lit_ci [symmetric] not_None_eq [symmetric] simp del: not_None_eq
        split: list.splits option.splits)
qed

subsection \<open>quorum_analysis.py\<close>

definition quorum_re :: regex where
  "quorum_re = rseq [lit ''with quorum size:'', Star rspace, plus rdigit, plus rspace, Cap 1 (plus rdot), Eos]"

definition quorum_nodes :: "string \<Rightarrow> string list" where
  "quorum_nodes line = (case re_search quorum_re line of None \<Rightarrow> [] | Some m \<Rightarrow> split_ws (group m 1))"

definition count_quorum_nodes :: "string list \<Rightarrow> (string, nat) dict" where
  "count_quorum_nodes lines = foldl (\<lambda>counts line. foldl bump counts (quorum_nodes line)) [] lines"

text \<open>\<open>counts.most_common()\<close>: by falling count, ties in insertion order.\<close>

definition most_common :: "(string, nat) dict \<Rightarrow> (string \<times> nat) list" where
  "most_common counts = sort_key (\<lambda>p. - int (snd p)) counts"

definition qa_main :: "string list \<Rightarrow> (string \<Rightarrow> string list option) \<Rightarrow> (string \<times> nat) list res" where
  "qa_main argv files = (case argv of
       [script, logfile] \<Rightarrow> (case files logfile of
           None \<Rightarrow> Inl FileNotFoundError
         | Some lines \<Rightarrow> Inr (most_common (count_quorum_nodes lines)))
     | _ \<Rightarrow> Inl (SystemExit ''1''))"

lemma count_quorum_nodes_eq: "count_quorum_nodes lines = foldl bump [] (concat (map quorum_nodes lines))"
proof -
  have "count_quorum_nodes lines = foldl (\<lambda>counts xs. foldl bump counts xs) [] (map quorum_nodes lines)"
    by (simp add: count_quorum_nodes_def foldl_map)
  then show ?thesis unfolding foldl_foldl .
qed

text \<open>
  the script prints every node that is in a quorum once, with the number of times it occurs in a
  quorum, by falling number; nodes with the same number keep the order of their first occurrence.
\<close>

theorem qa_main_counts:
  assumes "qa_main [script, logfile] files = Inr rows" "files logfile = Some lines"
  shows "sorted (map (\<lambda>(n, c). - int c) rows) \<and> distinct (map fst rows)
    \<and> set (map fst rows) = set (concat (map quorum_nodes lines))
    \<and> dict_get rows n 0 = count_list (concat (map quorum_nodes lines)) n
    \<and> filter (\<lambda>(n, c). c = k) rows = filter (\<lambda>(n, c). c = k) (count_quorum_nodes lines)"
proof -
  let ?d = "count_quorum_nodes lines"
  from assms have rows: "rows = sort_key (\<lambda>p. - int (snd p)) ?d" by (simp add: qa_main_def most_common_def)
  have wf: "wf_dict ?d"
    using dict_counter.invar_foldl [of "[]" "concat (map quorum_nodes lines)"] by (simp add: count_quorum_nodes_eq)
  have mset: "mset rows = mset ?d" by (simp add: rows)
  then have "mset (map fst rows) = mset (map fst ?d)" by (metis mset_map)
  with wf have dist: "distinct (map fst rows)" by (metis mset_eq_imp_distinct_iff wf_dict_def)
  have "set rows = set ?d" using mset by (rule mset_eq_setD)
  with dist wf have "map_of rows = map_of ?d"
    by (simp add: map_of_inject_set wf_dict_def)
  then have look: "dict_get rows n 0 = dict_get ?d n 0" by (simp add: dict_get_def)
  have "filter (\<lambda>p. - int (snd p) = - int k) rows = filter (\<lambda>p. - int (snd p) = - int k) ?d"
    unfolding rows by (rule sort_key_stable)
  then have "filter (\<lambda>(n, c). c = k) rows = filter (\<lambda>(n, c). c = k) ?d" by (simp add: case_prod_unfold)
  moreover have "sorted (map (\<lambda>(n, c). - int c) rows)" unfolding rows case_prod_unfold by (rule sorted_sort_key)
  moreover have "fst ` set rows = set (concat (map quorum_nodes lines))"
    using keys_foldl_bump [of "[]" "concat (map quorum_nodes lines)"] \<open>set rows = set ?d\<close>
    by (simp add: count_quorum_nodes_eq)
  ultimately show ?thesis
    using dist look dict_counter.look_count [of "concat (map quorum_nodes lines)" n]
    by (simp add: count_quorum_nodes_eq)
qed

definition qlog :: "string list" where
  "qlog = [''x with quorum size: 2 10.0.0.1 10.0.0.2'' @ [newline], ''noise'' @ [newline],
           ''x with quorum size: 2 10.0.0.3 10.0.0.2'' @ [newline]]"

theorem qa_main_counts_witness:
  "qa_main [''q'', ''f''] (\<lambda>f. Some qlog) = Inr [(''10.0.0.2'', 2), (''10.0.0.1'', 1), (''10.0.0.3'', 1)]
   \<and> count_list (concat (map quorum_nodes qlog)) ''10.0.0.2'' = 2"
proof -
  have run: "qa_main [''q'', ''f''] (\<lambda>f. Some qlog) = Inr [(''10.0.0.2'', 2), (''10.0.0.1'', 1), (''10.0.0.3'', 1)]"
    by code_simp
  from qa_main_counts [OF run refl, of "''10.0.0.2''" 2] run show ?thesis
    by (simp add: dict_get_def)
qed

subsection \<open>concurrent_q_analysis.py\<close>

definition cq_pattern :: regex where
  "cq_pattern = rseq [lit ''Received message from '',
     Cap 1 (rseq [plus rdigit, lit ''.'', plus rdigit, lit ''.'', plus rdigit, lit ''.'', plus rdigit]),
     Star rdot, lit ''Queue time: '', Cap 2 (plus rdigit), lit '' microseconds'']"

definition cq_sample :: "string \<Rightarrow> (string \<times> int) option" where
  "cq_sample line = map_option (\<lambda>m. (group m 1, int_of_digits (group m 2))) (re_search cq_pattern line)"

definition cq_times :: "string list \<Rightarrow> (string, int list) dict" where
  "cq_times lines = foldl (\<lambda>times line. case cq_sample line of
       None \<Rightarrow> times | Some p \<Rightarrow> push times (fst p) (snd p)) [] lines"

text \<open>The rows of the table: sender, number of messages, mean queue time.\<close>

definition cq_rows :: "string list \<Rightarrow> (string \<times> nat \<times> real) list" where
  "cq_rows lines = (let times = cq_times lines in
     map (\<lambda>ip. let lst = dict_get times ip [] in (ip, length lst, mean_of (map real_of_int lst)))
       (sort (dict_keys times)))"

definition cq_main :: "string list \<Rightarrow> (string \<Rightarrow> string list option) \<Rightarrow> (string \<times> nat \<times> real) list res" where
  "cq_main argv files = (case argv of
       [script, logfile] \<Rightarrow> (case files logfile of
           None \<Rightarrow> Inl FileNotFoundError
         | Some lines \<Rightarrow> Inr (cq_rows lines))
     | _ \<Rightarrow> Inl (SystemExit ''1''))"

definition samples_from :: "string list \<Rightarrow> string \<Rightarrow> int list" where
  "samples_from lines ip = map snd (filter (\<lambda>p. fst p = ip) (List.map_filter cq_sample lines))"

lemma cq_times_eq: "cq_times lines = foldl (\<lambda>times p. push times (fst p) (snd p)) [] (List.map_filter cq_sample lines)"
  by (simp add: cq_times_def foldl_map_filter)

lemma foldl_push:
  "wf_dict d \<Longrightarrow> wf_dict (foldl (\<lambda>d p. push d (fst p) (snd p)) d ps)
     \<and> dict_get (foldl (\<lambda>d p. push d (fst p) (snd p)) d ps) k [] = dict_get d k [] @ map snd (filter (\<lambda>p. fst p = k) ps)
     \<and> fst ` set (foldl (\<lambda>d p. push d (fst p) (snd p)) d ps) = fst ` set d \<union> fst ` set ps"
proof (induction ps arbitrary: d)
  case (Cons p ps)
  have "fst ` set (push d (fst p) (snd p)) = insert (fst p) (fst ` set d)"
    by (simp add: push_def set_keys_update)
  with Cons.IH [of "push d (fst p) (snd p)"] Cons.prems show ?case by (auto simp: dict_simps)
qed simp

text \<open>
  The table has one row per sender, in order, with the number and the mean of that sender's queue
  times in the log.
\<close>

theorem cq_rows_samples:
  "sorted (map fst (cq_rows lines)) \<and> distinct (map fst (cq_rows lines))
   \<and> set (cq_rows lines) = (\<lambda>ip. (ip, length (samples_from lines ip), mean_of (map real_of_int (samples_from lines ip))))
       ` fst ` set (List.map_filter cq_sample lines)"
proof -
  let ?ps = "List.map_filter cq_sample lines"
  have look: "dict_get (cq_times lines) ip [] = samples_from lines ip" for ip
    using foldl_push [of "[]" ?ps ip] by (simp add: cq_times_eq samples_from_def)
  have keys: "fst ` set (cq_times lines) = fst ` set ?ps" "wf_dict (cq_times lines)"
    using foldl_push [of "[]" ?ps] by (simp_all add: cq_times_eq)
  then have "set (dict_keys (cq_times lines)) = fst ` set ?ps" "distinct (dict_keys (cq_times lines))"
    by (simp_all add: dict_keys_def wf_dict_def)
  then show ?thesis by (simp add: cq_rows_def Let_def look o_def)
qed

end
