(* ===== verification/Timeouts.thy ===== *)
theory Timeouts
  imports Log_Window
begin

text \<open>
  Three analyses of election timeouts: \<open>scripts/timeout_mean.py\<close> (mean timeout and the share of
  the additional delay), \<open>scripts/safety_margin_analysis.py\<close> (how long after a timeout the next
  stale heartbeat arrives) and \<open>scripts/detection_time_analysis.py\<close> (the timeouts of a folder, per
  file). A folder is the list of its files, as name and lines.
\<close>

subsection \<open>timeout_mean.py\<close>

definition tm_pattern :: regex where
  "tm_pattern = rseq [lit ''Using Jacobson estimation for election timeout: '', Cap 1 (plus rnumber),
     lit '' Milliseconds, additional delay: '', Cap 2 (plus rdigit), lit '' Milliseconds'']"

definition tm_line :: "real list \<times> real list \<Rightarrow> string \<Rightarrow> (real list \<times> real list) res" where
  "tm_line s line = (case re_search tm_pattern line of
       None \<Rightarrow> Inr s
     | Some m \<Rightarrow> bind_res (float_number (group m 1)) (\<lambda>x.
         Inr (fst s @ [x * 1000], snd s @ [real_of_int (int_of_digits (group m 2))])))"

definition mean_or_0 :: "real list \<Rightarrow> real" where
  "mean_or_0 xs = (if xs = [] then 0 else sum_list xs / real (length xs))"

record tm_result =
  mean_timeout :: real
  mean_additional_delay :: real
  delay_percentage :: real
  timeout_percentage :: real

definition tm_summary :: "real list \<Rightarrow> real list \<Rightarrow> tm_result" where
  "tm_summary timeout_values additional_delay_values =
     (let mt = mean_or_0 timeout_values;
          md = mean_or_0 additional_delay_values;
          dp = (if mt = 0 then 0 else md / mt * 100)
      in \<lparr>mean_timeout = mt, mean_additional_delay = md, delay_percentage = dp, timeout_percentage = 100 - dp\<rparr>)"

text \<open>The files of the folder whose name ends in \<open>.log\<close>, one after the other.\<close>

definition tm_analyze_logs :: "string list list \<Rightarrow> tm_result res" where
  "tm_analyze_logs log_files =
     bind_res (res_fold (\<lambda>s lines. res_fold tm_line lines s) log_files ([], []))
       (\<lambda>(ts, ds). Inr (tm_summary ts ds))"

text \<open>What the log lines say, in the unit they name (milliseconds).\<close>

definition tm_sample :: "string \<Rightarrow> (real \<times> real) res option" where
  "tm_sample line = map_option (\<lambda>m. bind_res (float_number (group m 1)) (\<lambda>x.
     Inr (x, real_of_int (int_of_digits (group m 2))))) (re_search tm_pattern line)"

fun all_ok :: "'a res list \<Rightarrow> 'a list res" where
  "all_ok [] = Inr []"
| "all_ok (x # xs) = bind_res x (\<lambda>y. bind_res (all_ok xs) (\<lambda>ys. Inr (y # ys)))"

lemma tm_lines:
  "res_fold tm_line lines (ts, ds) = bind_res (all_ok (List.map_filter tm_sample lines))
     (\<lambda>ps. Inr (ts @ map (\<lambda>p. fst p * 1000) ps, ds @ map snd ps))"
proof (induction lines arbitrary: ts ds)
  case (Cons line lines)
  show ?case
  proof (cases "re_search tm_pattern line")
    case (Some m)
    with Cons show ?thesis
      by (cases "float_number (group m 1)")
        (auto simp: tm_line_def tm_sample_def map_filter_simps bind_res_def split: sum.splits)
  next
    case None
    then have "tm_line (ts, ds) line = Inr (ts, ds)" "tm_sample line = None"
      by (simp_all add: tm_line_def tm_sample_def)
    with Cons show ?thesis by (simp add: map_filter_simps)
  qed
qed (simp add: map_filter_simps)

lemma mean_or_0_scale: "mean_or_0 (map (\<lambda>p. f p * c) ps) = mean_or_0 (map f ps) * c"
  by (simp add: mean_or_0_def sum_list_mult_const)

text \<open>
  the script fails only on a timeout that is not a number. Otherwise the mean it reports is 1000
  times the mean of the logged milliseconds, while the mean delay is the mean of the logged
  milliseconds; the delay's share of the timeout comes out 1000 times too small, and the two shares
  add up to 100 percent.
\<close>

theorem tm_analyze_logs_means:
  "tm_analyze_logs log_files =
     bind_res (all_ok (List.map_filter tm_sample (concat log_files))) (\<lambda>ps.
       let mt = mean_or_0 (map fst ps); md = mean_or_0 (map snd ps) in
       Inr \<lparr>mean_timeout = 1000 * mt, mean_additional_delay = md,
            delay_percentage = (if mt = 0 then 0 else md / mt * 100 / 1000),
            timeout_percentage = 100 - (if mt = 0 then 0 else md / mt * 100 / 1000)\<rparr>)"
  unfolding tm_analyze_logs_def res_fold_concat tm_lines
  by (cases "all_ok (List.map_filter tm_sample (concat log_files))")
    (simp_all add: tm_summary_def Let_def mean_or_0_scale)

subsection \<open>safety_margin_analysis.py\<close>

definition sm_stamp :: regex where
  "sm_stamp = rseq [lit ''I'', Cap 1 (rseq [rep 8 rdigit, lit '' '', rep 2 rdigit, lit '':'', rep 2 rdigit, lit '':'',
     rep 2 rdigit, lit ''.'', plus rdigit]), Star rdot]"

definition election_timeout_pattern :: regex where
  "election_timeout_pattern = rseq [sm_stamp, lit ''Election timeout occurred. Suspected leader failure count: '', plus rdigit]"

definition stale_append_entries_pattern :: regex where
  "stale_append_entries_pattern = rseq [sm_stamp, lit ''Received Stale AppendEntries from '', Star rdot]"

definition sm_line :: "real list \<times> datetime option \<Rightarrow> string \<Rightarrow> (real list \<times> datetime option) res" where
  "sm_line s line = (case re_search election_timeout_pattern line of
       Some m \<Rightarrow> bind_res (strptime (group m 1)) (\<lambda>t. Inr (fst s, Some t))
     | None \<Rightarrow> (case re_search stale_append_entries_pattern line of
           None \<Rightarrow> Inr s
         | Some m \<Rightarrow> (case snd s of
               None \<Rightarrow> Inr s
             | Some t0 \<Rightarrow> bind_res (strptime (group m 1)) (\<lambda>t.
                 Inr (fst s @ [total_seconds t t0 * 1000], None)))))"

definition process_log_file :: "string list \<Rightarrow> real list res" where
  "process_log_file lines = bind_res (res_fold sm_line lines ([], None)) (\<lambda>s. Inr (fst s))"

fun sm_files :: "(string \<times> string list) list \<Rightarrow> real list \<Rightarrow> real list res" where
  "sm_files [] acc = Inr acc"
| "sm_files ((name, lines) # fs) acc =
     (if endswith name ''.log''
      then bind_res (process_log_file lines) (\<lambda>ds. sm_files fs (acc @ ds))
      else sm_files fs acc)"

text \<open>Number, minimum, maximum and average of the differences; \<open>None\<close> when there are none.\<close>

definition analyze_logs_in_folder :: "(string \<times> string list) list \<Rightarrow> (nat \<times> real \<times> real \<times> real) option res" where
  "analyze_logs_in_folder fs = bind_res (sm_files fs []) (\<lambda>ds. case ds of
       [] \<Rightarrow> Inr None
     | d # ds' \<Rightarrow> Inr (Some (length ds, fold min ds' d, fold max ds' d, sum_list ds / real (length ds))))"

datatype sm_ev = Timeout datetime | Stale datetime

text \<open>The events of a log whose timestamps all parse.\<close>

definition sm_event :: "string \<Rightarrow> sm_ev option" where
  "sm_event line = (case re_search election_timeout_pattern line of
       Some m \<Rightarrow> (case strptime (group m 1) of Inl _ \<Rightarrow> None | Inr t \<Rightarrow> Some (Timeout t))
     | None \<Rightarrow> (case re_search stale_append_entries_pattern line of
           None \<Rightarrow> None
         | Some m \<Rightarrow> (case strptime (group m 1) of Inl _ \<Rightarrow> None | Inr t \<Rightarrow> Some (Stale t))))"

definition sm_bad :: "string \<Rightarrow> bool" where
  "sm_bad line \<longleftrightarrow> (case re_search election_timeout_pattern line of
       Some m \<Rightarrow> raises strptime (group m 1)
     | None \<Rightarrow> (case re_search stale_append_entries_pattern line of
           None \<Rightarrow> False | Some m \<Rightarrow> raises strptime (group m 1)))"

fun margin :: "sm_ev \<times> sm_ev \<Rightarrow> real option" where
  "margin (Timeout t0, Stale t) = Some (total_seconds t t0 * 1000)"
| "margin _ = None"

definition margins :: "sm_ev list \<Rightarrow> real list" where
  "margins es = List.map_filter margin (zip es (tl es))"

definition pending :: "sm_ev list \<Rightarrow> datetime option" where
  "pending es = (if es = [] then None else case last es of Timeout t \<Rightarrow> Some t | Stale _ \<Rightarrow> None)"

lemma zip_tl_snoc: "es \<noteq> [] \<Longrightarrow> zip (es @ [e]) (tl (es @ [e])) = zip es (tl es) @ [(last es, e)]"
  by (induction es rule: induct_list012) auto

lemma margins_snoc:
  "margins (es @ [e]) = margins es @ (if es = [] then [] else case margin (last es, e) of None \<Rightarrow> [] | Some d \<Rightarrow> [d])"
  by (cases "es = []") (simp_all add: margins_def zip_tl_snoc map_filter_simps del: tl_append2)

lemma margins_short [simp]: "margins [] = []" "margins [e] = []"
  by (simp_all add: margins_def map_filter_simps)

lemma margins_Timeout: "margins (es @ [Timeout t]) = margins es"
  by (cases "last es") (simp_all add: margins_snoc)

lemma margins_Stale:
  "margins (es @ [Stale t]) = margins es @ (case pending es of None \<Rightarrow> [] | Some t0 \<Rightarrow> [total_seconds t t0 * 1000])"
  by (cases "last es") (simp_all add: margins_snoc pending_def)

lemma pending_snoc: "pending (es @ [Timeout t]) = Some t" "pending (es @ [Stale t]) = None"
  by (simp_all add: pending_def)

lemma sm_step:
  "\<not> sm_bad line \<Longrightarrow> sm_line (margins es, pending es) line = (case sm_event line of
      None \<Rightarrow> Inr (margins es, pending es)
    | Some e \<Rightarrow> Inr (margins (es @ [e]), pending (es @ [e])))"
  by (cases "pending es")
    (auto simp: sm_line_def sm_event_def sm_bad_def raises_def margins_Timeout margins_Stale pending_snoc
        split: option.splits sum.splits)

lemma sm_fold:
  "\<forall>line \<in> set lines. \<not> sm_bad line \<Longrightarrow>
     res_fold sm_line lines ([], None) =
       Inr (margins (List.map_filter sm_event lines), pending (List.map_filter sm_event lines))"
proof (induction lines rule: rev_induct)
  case Nil
  then show ?case by (simp add: margins_def pending_def map_filter_simps)
next
  case (snoc line lines)
  let ?es = "List.map_filter sm_event lines"
  from snoc have IH: "res_fold sm_line lines ([], None) = Inr (margins ?es, pending ?es)" by simp
  have step: "sm_line (margins ?es, pending ?es) line = (case sm_event line of
      None \<Rightarrow> Inr (margins ?es, pending ?es)
    | Some e \<Rightarrow> Inr (margins (?es @ [e]), pending (?es @ [e])))"
    using snoc.prems by (simp add: sm_step)
  then show ?case by (simp add: res_fold_append IH split: option.splits)
qed

text \<open>
  on a log whose timestamps parse, the differences are those of every stale heartbeat that directly
  follows an election timeout among these events, in milliseconds: a timeout counts once, and only
  the last one before the heartbeat.
\<close>

theorem process_log_file_margins:
  assumes "\<forall>line \<in> set lines. \<not> sm_bad line"
  shows "process_log_file lines = Inr (margins (List.map_filter sm_event lines))"
  by (simp add: process_log_file_def sm_fold [OF assms])

definition smlog1 :: string where "smlog1 = ''I20241102 13:00:00.5 7 Election timeout occurred. Suspected leader failure count: 1''"
definition smlog2 :: string where "smlog2 = ''I20241102 13:00:01.5 7 Election timeout occurred. Suspected leader failure count: 2''"
definition smlog3 :: string where "smlog3 = ''I20241102 13:00:01.75 7 Received Stale AppendEntries from 10.0.0.1''"

lemma smlog:
  "sm_event smlog1 = Some (Timeout (Datetime 2024 11 2 13 0 0 500000))" "\<not> sm_bad smlog1"
  "sm_event smlog2 = Some (Timeout (Datetime 2024 11 2 13 0 1 500000))" "\<not> sm_bad smlog2"
  "sm_event smlog3 = Some (Stale (Datetime 2024 11 2 13 0 1 750000))" "\<not> sm_bad smlog3"
  "us_of (Datetime 2024 11 2 13 0 1 750000) - us_of (Datetime 2024 11 2 13 0 1 500000) = 250000"
  by code_simp+

theorem process_log_file_margins_witness:
  "process_log_file [smlog1, smlog2, smlog3, smlog3] = Inr [250]"
proof -
  have "\<forall>line \<in> set [smlog1, smlog2, smlog3, smlog3]. \<not> sm_bad line" by (simp add: smlog)
  from process_log_file_margins [OF this] show ?thesis
    by (simp add: map_filter_simps smlog margins_def total_seconds_def)
qed

subsection \<open>detection_time_analysis.py\<close>

definition dt_pattern :: regex where
  "dt_pattern = rseq [lit ''Using Raft timeout for election timeout: '', Cap 1 (plus rnumber), lit '' seconds'']"

definition dt_line :: "string \<Rightarrow> (string, real list) dict \<Rightarrow> string \<Rightarrow> (string, real list) dict res" where
  "dt_line filename d line = (case re_search dt_pattern line of
       None \<Rightarrow> Inr d
     | Some m \<Rightarrow> bind_res (float_number (group m 1)) (\<lambda>x. Inr (push d filename (x * 1000))))"

text \<open>The regular files of the folder, as \<open>os.listdir\<close> lists them.\<close>

definition parse_election_timeouts :: "(string \<times> string list) list \<Rightarrow> (string, real list) dict res" where
  "parse_election_timeouts fs = res_fold (\<lambda>d (filename, lines). res_fold (dt_line filename) lines d) fs []"

record dt_result =
  dt_mean :: real
  dt_std :: real
  dt_min :: real
  dt_max :: real
  dt_csv :: "(string \<times> real) list"

definition process_election_timeouts :: "(string \<times> string list) list \<Rightarrow> dt_result option res" where
  "process_election_timeouts fs =
     bind_res (parse_election_timeouts fs) (\<lambda>d.
       let all_timeouts = concat (dict_values d) in
       case all_timeouts of
         [] \<Rightarrow> Inr None
       | x # xs \<Rightarrow> Inr (Some \<lparr>dt_mean = mean_of all_timeouts, dt_std = pstdev all_timeouts,
           dt_min = fold min xs x, dt_max = fold max xs x,
           dt_csv = concat (map (\<lambda>(filename, ts). map (Pair filename) ts) d)\<rparr>))"

definition dt_sample :: "string \<Rightarrow> real res option" where
  "dt_sample line = map_option (\<lambda>m. bind_res (float_number (group m 1)) (\<lambda>x. Inr (x * 1000))) (re_search dt_pattern line)"

lemma dt_lines:
  "res_fold (dt_line f) lines d = bind_res (all_ok (List.map_filter dt_sample lines)) (\<lambda>xs. Inr (foldl (\<lambda>d x. push d f x) d xs))"
proof (induction lines arbitrary: d)
  case (Cons line lines)
  show ?case
  proof (cases "re_search dt_pattern line")
    case None
    then have "dt_line f d line = Inr d" "dt_sample line = None" by (simp_all add: dt_line_def dt_sample_def)
    with Cons show ?thesis by (simp add: map_filter_simps)
  next
    case (Some m)
    with Cons show ?thesis
      by (cases "float_number (group m 1)")
        (auto simp: dt_line_def dt_sample_def map_filter_simps bind_res_def split: sum.splits)
  qed
qed (simp add: map_filter_simps)

lemma push_new: "f \<notin> fst ` set d \<Longrightarrow> foldl (\<lambda>d x. push d f x) (d @ [(f, ys)]) xs = d @ [(f, ys @ xs)]"
proof (induction xs arbitrary: ys)
  case (Cons x xs)
  have "push (d @ [(f, ys)]) f x = d @ [(f, ys @ [x])]"
  proof -
    have "dict_get (d @ [(f, ys)]) f [] = ys"
      using Cons.prems by (force simp: dict_get_def map_add_def split: option.splits dest: map_of_SomeD)
    moreover have "AList.update f zs (d @ [(f, ys)]) = d @ [(f, zs)]" for zs
      using Cons.prems by (induction d) auto
    ultimately show ?thesis by (simp add: push_def)
  qed
  with Cons show ?case by simp
qed simp

lemma push_file:
  assumes "f \<notin> fst ` set d"
  shows "foldl (\<lambda>d x. push d f x) d xs = (if xs = [] then d else d @ [(f, xs)])"
proof (cases xs)
  case (Cons x xs')
  have "push d f x = d @ [(f, [x])]"
  proof -
    have "dict_get d f [] = []" using assms by (force simp: dict_get_def split: option.splits dest: map_of_SomeD)
    moreover have "AList.update f zs d = d @ [(f, zs)]" for zs using assms by (induction d) auto
    ultimately show ?thesis by (simp add: push_def)
  qed
  with Cons push_new [OF assms, of "[x]" xs'] show ?thesis by simp
qed simp

definition timeouts_of :: "string list \<Rightarrow> real list" where
  "timeouts_of lines = (case all_ok (List.map_filter dt_sample lines) of Inl _ \<Rightarrow> [] | Inr xs \<Rightarrow> xs)"

definition folder_ok :: "(string \<times> string list) list \<Rightarrow> bool" where
  "folder_ok fs \<longleftrightarrow> distinct (map fst fs) \<and> list_all (\<lambda>(f, lines). \<not> raises all_ok (List.map_filter dt_sample lines)) fs"

definition timeout_table :: "(string \<times> string list) list \<Rightarrow> (string \<times> real) list" where
  "timeout_table fs = concat (map (\<lambda>(f, lines). map (Pair f) (timeouts_of lines)) fs)"

lemma parse_election_timeouts_eq:
  assumes "folder_ok fs"
  shows "parse_election_timeouts fs = Inr (filter (\<lambda>(f, xs). xs \<noteq> []) (map (\<lambda>(f, lines). (f, timeouts_of lines)) fs))"
proof -
  have "res_fold (\<lambda>d (filename, lines). res_fold (dt_line filename) lines d) fs d =
      Inr (d @ filter (\<lambda>(f, xs). xs \<noteq> []) (map (\<lambda>(f, lines). (f, timeouts_of lines)) fs))"
    if "folder_ok fs" "fst ` set d \<inter> fst ` set fs = {}" for d
    using that
  proof (induction fs arbitrary: d)
    case (Cons p fs)
    obtain f lines where p: "p = (f, lines)" by (cases p)
    from Cons.prems(1) p have ok: "all_ok (List.map_filter dt_sample lines) = Inr (timeouts_of lines)"
      "folder_ok fs" "f \<notin> fst ` set fs"
      by (auto simp: folder_ok_def timeouts_of_def raises_def split: sum.splits)
    from Cons.prems(2) p have f: "f \<notin> fst ` set d" by auto
    let ?d = "if timeouts_of lines = [] then d else d @ [(f, timeouts_of lines)]"
    have step: "res_fold (dt_line f) lines d = Inr ?d"
      by (simp add: dt_lines ok(1) push_file [OF f])
    have "fst ` set ?d \<inter> fst ` set fs = {}" using Cons.prems(2) ok(3) p by auto
    from Cons.IH [OF ok(2) this] step show ?case by (simp add: p)
  qed simp
  from this [of "[]"] assms show ?thesis by (simp add: parse_election_timeouts_def)
qed

lemma concat_table:
  "concat (map (\<lambda>(f, ts). map (Pair f) ts) (filter (\<lambda>(f, xs). xs \<noteq> []) (map (\<lambda>(f, lines). (f, timeouts_of lines)) fs)))
     = timeout_table fs"
  "concat (map snd (filter (\<lambda>(f, xs). xs \<noteq> []) (map (\<lambda>(f, lines). (f, timeouts_of lines)) fs)))
     = map snd (timeout_table fs)"
  by (induction fs) (auto simp: timeout_table_def o_def)

text \<open>
  On a folder whose file names differ and whose timeouts are all numbers, the CSV lists the timeouts
  of every file in order, in milliseconds, and the statistics are those of exactly these values;
  nothing is reported only when there is none.
\<close>

theorem process_election_timeouts_table:
  assumes "folder_ok fs"
  shows "case process_election_timeouts fs of
      Inl e \<Rightarrow> False
    | Inr None \<Rightarrow> timeout_table fs = []
    | Inr (Some r) \<Rightarrow> timeout_table fs \<noteq> [] \<and> dt_csv r = timeout_table fs
        \<and> dt_mean r = mean_of (map snd (timeout_table fs)) \<and> dt_std r = pstdev (map snd (timeout_table fs))
        \<and> dt_min r \<le> dt_mean r \<and> dt_mean r \<le> dt_max r"
proof (cases "map snd (timeout_table fs)")
  case Nil
  then show ?thesis
    by (simp add: process_election_timeouts_def parse_election_timeouts_eq [OF assms] dict_values_def Let_def concat_table)
next
  case (Cons x xs)
  have "fold min xs x \<le> mean_of (x # xs) \<and> mean_of (x # xs) \<le> fold max xs x"
    using fold_min_max [of xs x] by (intro mean_of_bounds) auto
  with Cons show ?thesis
    by (auto simp: process_election_timeouts_def parse_election_timeouts_eq [OF assms] dict_values_def Let_def concat_table)
qed

definition rlog :: string where "rlog = ''Using Raft timeout for election timeout: 0.15 seconds''"

lemma rlog_match: "map_option (\<lambda>m. group m 1) (re_search dt_pattern rlog) = Some ''0.15''"
  by code_simp

theorem process_election_timeouts_table_witness:
  "folder_ok [(''a.log'', [rlog]), (''b.log'', [])] \<and> timeout_table [(''a.log'', [rlog]), (''b.log'', [])] = [(''a.log'', 150)]
   \<and> (case process_election_timeouts [(''a.log'', [rlog]), (''b.log'', [])] of Inr (Some r) \<Rightarrow> dt_mean r = 150 | _ \<Rightarrow> False)"
proof -
  let ?fs = "[(''a.log'', [rlog]), (''b.log'', [])]"
  have num: "float_number ''0.15'' = Inr (15 / 100)"
    by (simp add: float_number_def is_digit_def code_def int_of_digits_def digit_val_def)
  from rlog_match num have s: "dt_sample rlog = Some (Inr 150)"
    by (auto simp: dt_sample_def)
  have ok: "folder_ok ?fs" by (simp add: folder_ok_def map_filter_simps s raises_def)
  have tab: "timeout_table ?fs = [(''a.log'', 150)]" by (simp add: timeout_table_def timeouts_of_def map_filter_simps s)
  from process_election_timeouts_table [OF ok] show ?thesis
    by (auto simp: ok tab mean_of_def split: sum.splits option.splits)
qed

end
