(* ===== verification/Resp_Time.thy ===== *)
theory Resp_Time
  imports Log_Window
begin

text \<open>
  \<open>scripts/analyze_resp_time.py\<close> (latencies and throughput of a client log, overall and per leader)
  and \<open>scripts/sum_all_clients.py\<close> (totals over the client reports). The state of the first is the
  set of accumulators of its \<open>main\<close>; a leadership section is open between a begin and an end mark.
\<close>

subsection \<open>analyze_resp_time.py\<close>

definition compute_stats :: "real list \<Rightarrow> (real \<times> real) res" where
  "compute_stats ts = (if ts = [] then Inl ZeroDivisionError else Inr (mean_of ts, pstdev ts))"

definition rt_ts_re :: regex where
  "rt_ts_re = rseq [lit ''I'', Cap 1 (rep 8 rdigit), lit '' '',
     Cap 2 (rseq [rep 2 rdigit, lit '':'', rep 2 rdigit, lit '':'', rep 2 rdigit, lit ''.'', plus rdigit])]"

definition parse_timestamp :: "string \<Rightarrow> datetime option res" where
  "parse_timestamp line = (case re_match rt_ts_re line of
       None \<Rightarrow> Inr None
     | Some m \<Rightarrow> bind_res (strptime (group m 1 @ '' '' @ group m 2)) (\<lambda>t. Inr (Some t)))"

definition rcv_re :: regex where
  "rcv_re = rseq [lit ''Received ClientResponse:'', Star rspace, lit ''latency='', Star rspace, Cap 1 (plus rnumber),
     lit '','', Star rspace, lit ''success='', Cap 2 rdigit, lit '','', Star rspace,
     lit ''from='', Cap 3 (plus rnumber), Star rdot, lit ''request_id='', Cap 4 (plus rdigit)]"

definition begin_leader_re :: regex where
  "begin_leader_re = rseq [lit ''Begin of Leadership under: '', Cap 1 (plus rnumber)]"

definition end_leader_re :: regex where
  "end_leader_re = rseq [lit ''End of Leadership under: '', Cap 1 (plus rnumber)]"

text \<open>
  \<open>section\<close> pairs \<open>active_leader\<close> with \<open>section_start\<close>: they are set and cleared together.
\<close>

record rt_state =
  overall_latencies :: "real list"
  per_leader_latencies :: "(string, real list) dict"
  successful_commits :: nat
  leader_throughput :: "(string, nat \<times> real) dict"
  active_section :: "(string \<times> datetime) option"
  section_commits :: nat
  begin_ts :: "datetime option"
  end_ts :: "datetime option"

definition rt_init :: rt_state where
  "rt_init = \<lparr>overall_latencies = [], per_leader_latencies = [], successful_commits = 0, leader_throughput = [],
     active_section = None, section_commits = 0, begin_ts = None, end_ts = None\<rparr>"

definition note_time :: "datetime option \<Rightarrow> rt_state \<Rightarrow> rt_state" where
  "note_time ts s = (case ts of
       None \<Rightarrow> s
     | Some t \<Rightarrow> s\<lparr>begin_ts := (case begin_ts s of None \<Rightarrow> Some t | Some b \<Rightarrow> Some b), end_ts := Some t\<rparr>)"

definition close_section :: "datetime \<Rightarrow> rt_state \<Rightarrow> rt_state" where
  "close_section t s = (case active_section s of
       None \<Rightarrow> s
     | Some (leader, start) \<Rightarrow>
         s\<lparr>leader_throughput :=
             (let (c, d) = dict_get (leader_throughput s) leader (0, 0)
              in AList.update leader (c + section_commits s, d + total_seconds t start) (leader_throughput s)),
           active_section := None, section_commits := 0\<rparr>)"

definition rt_response :: "string \<Rightarrow> rt_state \<Rightarrow> rt_state res" where
  "rt_response line s = (case re_search rcv_re line of
       None \<Rightarrow> Inr s
     | Some m \<Rightarrow> bind_res (float_number (group m 1)) (\<lambda>latency_ms.
         if group m 2 = ''1''
         then Inr (s\<lparr>successful_commits := successful_commits s + 1,
                    overall_latencies := overall_latencies s @ [latency_ms],
                    per_leader_latencies := push (per_leader_latencies s) (group m 3) latency_ms,
                    section_commits := section_commits s + (if active_section s = None then 0 else 1)\<rparr>)
         else Inr s))"

definition rt_line :: "rt_state \<Rightarrow> string \<Rightarrow> rt_state res" where
  "rt_line s0 line = bind_res (parse_timestamp line) (\<lambda>ts.
     let s = note_time ts s0 in
     case (re_search begin_leader_re line, ts) of
       (Some m, Some t) \<Rightarrow>
         Inr ((close_section t s)\<lparr>active_section := Some (group m 1, t), section_commits := 0\<rparr>)
     | _ \<Rightarrow> (case (re_search end_leader_re line, active_section s, ts) of
           (Some m, Some _, Some t) \<Rightarrow> Inr (close_section t s)
         | _ \<Rightarrow> rt_response line s))"

record rt_report =
  rep_avg :: real
  rep_std :: real
  rep_runtime :: real
  rep_commits :: nat
  rep_throughput :: "real option"
  rep_leader_throughput :: "(string \<times> nat \<times> real \<times> real option) list"
  rep_leader_latency :: "(string \<times> nat \<times> real \<times> real) list"

text \<open>The last section is closed at the last timestamp. A throughput of \<open>None\<close> is \<open>inf\<close>.\<close>

definition rt_finish :: "rt_state \<Rightarrow> rt_state" where
  "rt_finish s = (case end_ts s of None \<Rightarrow> s | Some t \<Rightarrow> close_section t s)"

definition rate :: "nat \<Rightarrow> real \<Rightarrow> real option" where
  "rate c d = (if 0 < d then Some (real c / d) else None)"

definition rt_runtime :: "rt_state \<Rightarrow> real" where
  "rt_runtime s = (case (begin_ts s, end_ts s) of (Some b, Some e) \<Rightarrow> total_seconds e b | _ \<Rightarrow> 0)"

definition leader_stats :: "string \<times> real list \<Rightarrow> string \<times> nat \<times> real \<times> real" where
  "leader_stats p = (fst p, length (snd p), mean_of (snd p), pstdev (snd p))"

definition rt_make_report :: "rt_state \<Rightarrow> rt_report res" where
  "rt_make_report s =
     (if overall_latencies s = [] then Inl (SystemExit ''0'')
      else bind_res (compute_stats (overall_latencies s)) (\<lambda>(avg, std).
        if list_ex (\<lambda>p. snd p = []) (per_leader_latencies s) then Inl ZeroDivisionError
        else Inr \<lparr>rep_avg = avg, rep_std = std, rep_runtime = rt_runtime s, rep_commits = successful_commits s,
          rep_throughput = rate (successful_commits s) (rt_runtime s),
          rep_leader_throughput = map (\<lambda>(l, c, d). (l, c, d, rate c d)) (leader_throughput (rt_finish s)),
          rep_leader_latency = map leader_stats (per_leader_latencies s)\<rparr>))"

definition rt_main :: "string list \<Rightarrow> (string \<Rightarrow> string list option) \<Rightarrow> rt_report res" where
  "rt_main argv files =
     (if length argv < 2 then Inl (SystemExit ''1'')
      else case files (argv ! 1) of
        None \<Rightarrow> Inl (SystemExit ''1'')
      | Some lines \<Rightarrow> (case res_fold rt_line lines rt_init of
            Inl _ \<Rightarrow> Inl (SystemExit ''1'')
          | Inr s \<Rightarrow> rt_make_report s))"

subsection \<open>Every commit is accounted for\<close>

definition rt_ok :: "rt_state \<Rightarrow> bool" where
  "rt_ok s \<longleftrightarrow> length (overall_latencies s) = successful_commits s
     \<and> wf_dict (per_leader_latencies s) \<and> list_all (\<lambda>p. snd p \<noteq> []) (per_leader_latencies s)
     \<and> mset (concat (map snd (per_leader_latencies s))) = mset (overall_latencies s)
     \<and> wf_dict (leader_throughput s)
     \<and> (\<Sum>(l, c, d)\<leftarrow>leader_throughput s. c) + section_commits s \<le> successful_commits s"

lemma sum_throughput_update:
  "wf_dict d \<Longrightarrow> (\<Sum>(l, c, t)\<leftarrow>AList.update k (n, x) d. c) + fst (dict_get d k (0, y)) = (\<Sum>(l, c, t)\<leftarrow>d. c) + (n :: nat)"
proof (induction d)
  case (Cons p d)
  obtain j m z where p: "p = (j, m, z)" by (cases p)
  show ?case
  proof (cases "j = k")
    case False
    with Cons p show ?thesis by (simp add: dict_get_def wf_dict_def)
  qed (simp add: p dict_get_def)
qed simp

lemma rt_ok_close:
  assumes "rt_ok s"
  shows "rt_ok (close_section t s) \<and> section_commits (close_section t s) \<le> section_commits s"
proof (cases "active_section s")
  case (Some p)
  obtain l b where p: "p = (l, b)" by (cases p)
  obtain c d where cd: "dict_get (leader_throughput s) l (0, 0) = (c, d)" by (cases "dict_get (leader_throughput s) l (0, 0)")
  from assms have wf: "wf_dict (leader_throughput s)" by (simp add: rt_ok_def)
  from sum_throughput_update [OF wf, of l "c + section_commits s" "d + total_seconds t b" 0] cd
  show ?thesis using assms Some p wf by (simp add: rt_ok_def close_section_def)
qed (use assms in \<open>simp add: close_section_def\<close>)

lemma rt_ok_note [simp]: "rt_ok (note_time ts s) = rt_ok s"
  by (simp add: rt_ok_def note_time_def split: option.splits)

lemma push_entries: "list_all (\<lambda>p. snd p \<noteq> []) d \<Longrightarrow> list_all (\<lambda>p. snd p \<noteq> []) (push d k v)"
  unfolding push_def list_all_iff
  by (rule ballI, drule set_update_subset [THEN subsetD]) auto

lemma rt_ok_response: "rt_ok s \<Longrightarrow> rt_response line s = Inr s' \<Longrightarrow> rt_ok s'"
  by (auto simp: rt_response_def rt_ok_def mset_push push_entries bind_res_Inr_iff split: option.splits if_splits)

lemma rt_ok_line:
  assumes "rt_ok s" "rt_line s line = Inr s'"
  shows "rt_ok s'"
proof -
  from assms(2) obtain ts where ts: "parse_timestamp line = Inr ts" by (auto simp: rt_line_def bind_res_Inr_iff)
  let ?s = "note_time ts s"
  have ok: "rt_ok ?s" using assms(1) by simp
  have new: "rt_ok ((close_section t ?s)\<lparr>active_section := a, section_commits := 0\<rparr>)" for t a
    using rt_ok_close [OF ok, of t] by (simp add: rt_ok_def)
  show ?thesis
    using assms(2) ts ok new rt_ok_close [OF ok] rt_ok_response [OF ok]
    by (auto simp: rt_line_def Let_def split: option.splits)
qed

lemma rt_ok_fold: "rt_ok s \<Longrightarrow> res_fold rt_line lines s = Inr s' \<Longrightarrow> rt_ok s'"
  by (induction lines arbitrary: s) (auto simp: bind_res_Inr_iff dest: rt_ok_line)

lemma rt_ok_init: "rt_ok rt_init"
  by (simp add: rt_ok_def rt_init_def)

lemma rt_main_Inr:
  assumes "rt_main argv files = Inr r"
  obtains s where "rt_ok s" "rt_make_report s = Inr r"
proof -
  from assms obtain lines s where "res_fold rt_line lines rt_init = Inr s" "rt_make_report s = Inr r"
    by (auto simp: rt_main_def split: if_splits option.splits sum.splits)
  with that rt_ok_fold [OF rt_ok_init] show ?thesis by blast
qed

lemma leader_stats_totals:
  "(\<Sum>(l, n, a, sd)\<leftarrow>map leader_stats d. n) = length (concat (map snd d))"
  "(\<Sum>(l, n, a, sd)\<leftarrow>map leader_stats d. real n * a) = sum_list (concat (map snd d))"
  "map fst (map leader_stats d) = map fst d"
  by (induction d) (auto simp: leader_stats_def length_mean)

lemma rate_rows:
  "(\<Sum>(l, c, d, thr)\<leftarrow>map (\<lambda>(l, c, d). (l, c, d, rate c d)) t. c) = (\<Sum>(l, c, d)\<leftarrow>t. c)"
  "map fst (map (\<lambda>(l, c, d). (l, c, d, rate c d)) t) = map fst t"
  by (induction t) auto

text \<open>
  C35: in a report, the per-leader samples add up to the committed requests, no more commits are booked to
  leadership sections than there were, and the overall average latency is the average of the
  leaders' averages weighted by their samples.
\<close>

theorem rt_main_accounts:
  assumes "rt_main argv files = Inr r"
  shows "(\<Sum>(l, n, a, sd)\<leftarrow>rep_leader_latency r. n) = rep_commits r
    \<and> (\<Sum>(l, c, d, thr)\<leftarrow>rep_leader_throughput r. c) \<le> rep_commits r
    \<and> distinct (map fst (rep_leader_latency r)) \<and> distinct (map fst (rep_leader_throughput r))
    \<and> rep_avg r * real (rep_commits r) = (\<Sum>(l, n, a, sd)\<leftarrow>rep_leader_latency r. real n * a)"
proof -
  from assms obtain s where ok: "rt_ok s" and rep: "rt_make_report s = Inr r" by (rule rt_main_Inr)
  from rep have r: "rep_leader_latency r = map leader_stats (per_leader_latencies s)"
    "rep_leader_throughput r = map (\<lambda>(l, c, d). (l, c, d, rate c d)) (leader_throughput (rt_finish s))"
    "rep_commits r = successful_commits s" "rep_avg r = mean_of (overall_latencies s)"
    by (auto simp: rt_make_report_def compute_stats_def bind_res_Inr_iff split: if_splits)
  from ok have ms: "mset (concat (map snd (per_leader_latencies s))) = mset (overall_latencies s)"
    and len: "length (overall_latencies s) = successful_commits s" by (simp_all add: rt_ok_def)
  have "rt_ok (rt_finish s)" using ok rt_ok_close [OF ok] by (simp add: rt_finish_def split: option.splits)
  then have thr: "(\<Sum>(l, c, d)\<leftarrow>leader_throughput (rt_finish s). c) \<le> successful_commits (rt_finish s)"
    "wf_dict (leader_throughput (rt_finish s))" by (simp_all add: rt_ok_def)
  have fin: "successful_commits (rt_finish s) = successful_commits s"
    by (simp add: rt_finish_def close_section_def split: option.splits)
  have "length (concat (map snd (per_leader_latencies s))) = length (overall_latencies s)"
    "sum_list (concat (map snd (per_leader_latencies s))) = sum_list (overall_latencies s)"
    using ms by (metis size_mset, metis sum_mset_sum_list)
  with thr fin len ok length_mean [of "overall_latencies s"] show ?thesis
    unfolding r leader_stats_totals rate_rows by (simp add: rt_ok_def wf_dict_def mult.commute)
qed

definition rlog1 :: string where "rlog1 = ''I20250422 13:17:00.000000 7 Begin of Leadership under: 10.0.0.1''"
definition rlog2 :: string where "rlog2 = ''I20250422 13:17:02.000000 7 Received ClientResponse: latency= 6.5, success=1, from=10.0.0.1, request_id=3''"
definition rlog3 :: string where "rlog3 = ''I20250422 13:17:04.000000 7 Received ClientResponse: latency= 7.5, success=1, from=10.0.0.2, request_id=4''"

lemma rlogs_time:
  "parse_timestamp rlog1 = Inr (Some (Datetime 2025 4 22 13 17 0 0))"
  "parse_timestamp rlog2 = Inr (Some (Datetime 2025 4 22 13 17 2 0))"
  "parse_timestamp rlog3 = Inr (Some (Datetime 2025 4 22 13 17 4 0))"
  by code_simp+

lemma rlogs_match:
  "re_search begin_leader_re rlog1 = Some [(1, ''10.0.0.1'')]"
  "re_search begin_leader_re rlog2 = None" "re_search begin_leader_re rlog3 = None"
  "re_search end_leader_re rlog2 = None" "re_search end_leader_re rlog3 = None"
  "re_search rcv_re rlog2 = Some [(4, ''3''), (3, ''10.0.0.1''), (2, ''1''), (1, ''6.5'')]"
  "re_search rcv_re rlog3 = Some [(4, ''4''), (3, ''10.0.0.2''), (2, ''1''), (1, ''7.5'')]"
  by code_simp+

lemma rlogs_float: "float_number ''6.5'' = Inr (13 / 2)" "float_number ''7.5'' = Inr (15 / 2)"
  by (simp_all add: float_number_def is_digit_def code_def int_of_digits_def digit_val_def)

theorem rt_main_accounts_witness:
  "\<exists>r. rt_main [''x'', ''f''] (\<lambda>_. Some [rlog1, rlog2, rlog3]) = Inr r \<and> rep_commits r = 2
     \<and> rep_avg r * 2 = 14 \<and> map fst (rep_leader_latency r) = [''10.0.0.1'', ''10.0.0.2'']"
proof -
  define s where "s = \<lparr>overall_latencies = [13 / 2, 15 / 2], per_leader_latencies = [(''10.0.0.1'', [13 / 2]), (''10.0.0.2'', [15 / 2])],
    successful_commits = 2, leader_throughput = [], active_section = Some (''10.0.0.1'', Datetime 2025 4 22 13 17 0 0),
    section_commits = 2, begin_ts = Some (Datetime 2025 4 22 13 17 0 0), end_ts = Some (Datetime 2025 4 22 13 17 4 0)\<rparr>"
  have run: "res_fold rt_line [rlog1, rlog2, rlog3] rt_init = Inr s"
    by (simp add: s_def rt_line_def rt_init_def note_time_def rlogs_time rlogs_match rlogs_float close_section_def
        rt_response_def group_def push_def dict_get_def)
  obtain r where rep: "rt_make_report s = Inr r" and commits: "rep_commits r = 2"
    and lat: "rep_leader_latency r = map leader_stats [(''10.0.0.1'', [13 / 2]), (''10.0.0.2'', [15 / 2])]"
    by (auto simp: rt_make_report_def compute_stats_def s_def)
  have main: "rt_main [''x'', ''f''] (\<lambda>_. Some [rlog1, rlog2, rlog3]) = Inr r"
    using run rep by (simp add: rt_main_def)
  from rt_main_accounts [OF main] commits lat have "rep_avg r * 2 = 14"
    by (simp add: leader_stats_def mean_of_def)
  with main commits lat show ?thesis by (simp add: leader_stats_def)
qed

subsection \<open>sum_all_clients.py\<close>

definition tp_re :: regex where
  "tp_re = rseq [lit ''Overall Throughput'', Star rspace, lit '':'', Star rspace, Cap 1 (plus rnumber), Star rspace, lit ''req/s'']"

definition lat_re :: regex where
  "lat_re = rseq [lit ''Average latency'', Star rspace, lit '':'', Star rspace, Cap 1 (plus rnumber), Star rspace, lit ''ms'']"

definition sc_parse_file :: "string \<Rightarrow> (real \<times> real) option res" where
  "sc_parse_file content = (case (re_search tp_re content, re_search lat_re content) of
       (Some tp_m, Some lat_m) \<Rightarrow> bind_res (float_number (group tp_m 1)) (\<lambda>tp.
         bind_res (float_number (group lat_m 1)) (\<lambda>lat. Inr (Some (tp, lat))))
     | _ \<Rightarrow> Inr None)"

definition client_files :: "string list" where
  "client_files = [''client_remote_0.log'', ''client_remote_1.log'', ''client_remote_2.log'',
     ''client_remote_3.log'', ''client_remote_4.log'']"

definition sc_add :: "(string \<Rightarrow> string option) \<Rightarrow> real \<times> real \<Rightarrow> string \<Rightarrow> (real \<times> real) res" where
  "sc_add files acc path = (case files path of
       None \<Rightarrow> Inl FileNotFoundError
     | Some content \<Rightarrow> bind_res (sc_parse_file content) (\<lambda>r. case r of
           None \<Rightarrow> Inr acc
         | Some (tp, lat) \<Rightarrow> Inr (fst acc + tp, snd acc + lat * tp)))"

text \<open>Total throughput and weighted latency; \<open>None\<close> when there is no throughput.\<close>

definition sc_main :: "(string \<Rightarrow> string option) \<Rightarrow> (real \<times> real) option res" where
  "sc_main files = bind_res (res_fold (sc_add files) client_files (0, 0)) (\<lambda>(total_tp, weighted_lat_sum).
     if total_tp \<le> 0 then Inr None else Inr (Some (total_tp, weighted_lat_sum / total_tp)))"

lemma float_number_nonneg: "float_number s = Inr x \<Longrightarrow> 0 \<le> x"
  by (auto simp: float_number_def split: list.splits if_splits intro!: divide_nonneg_pos int_of_digits_nonneg
      simp: list_all_append)

definition sc_reports :: "(string \<Rightarrow> string option) \<Rightarrow> string list \<Rightarrow> (real \<times> real) list" where
  "sc_reports files paths = List.map_filter (\<lambda>path. case files path of None \<Rightarrow> None
     | Some content \<Rightarrow> (case sc_parse_file content of Inl _ \<Rightarrow> None | Inr r \<Rightarrow> r)) paths"

definition client_reports :: "(string \<Rightarrow> string option) \<Rightarrow> (real \<times> real) list" where
  "client_reports files = sc_reports files client_files"

lemma sc_fold:
  "res_fold (sc_add files) paths acc = Inr acc' \<Longrightarrow>
     acc' = (fst acc + (\<Sum>(tp, lat)\<leftarrow>sc_reports files paths. tp), snd acc + (\<Sum>(tp, lat)\<leftarrow>sc_reports files paths. lat * tp))
      \<and> (\<forall>(tp, lat) \<in> set (sc_reports files paths). 0 \<le> tp)"
proof (induction paths arbitrary: acc)
  case Nil
  then show ?case by (simp add: sc_reports_def map_filter_simps)
next
  case (Cons path paths)
  from Cons.prems obtain content r where c: "files path = Some content" "sc_parse_file content = Inr r"
    by (auto simp: sc_add_def bind_res_Inr_iff split: option.splits)
  show ?case
  proof (cases r)
    case None
    with c Cons show ?thesis by (simp add: sc_add_def sc_reports_def map_filter_simps)
  next
    case (Some p)
    obtain tp lat where p: "p = (tp, lat)" by (cases p)
    have "0 \<le> tp" using c(2) Some p
      by (auto simp: sc_parse_file_def bind_res_Inr_iff split: option.splits dest: float_number_nonneg)
    with c Some p Cons.prems Cons.IH [of "(fst acc + tp, snd acc + lat * tp)"] show ?thesis
      by (auto simp: sc_add_def sc_reports_def map_filter_simps)
  qed
qed

lemma weighted_bounds:
  assumes "\<forall>(tp, lat) \<in> set rs. 0 \<le> tp \<and> a \<le> lat \<and> lat \<le> (b::real)"
  shows "a * (\<Sum>(tp, lat)\<leftarrow>rs. tp) \<le> (\<Sum>(tp, lat)\<leftarrow>rs. lat * tp)
    \<and> (\<Sum>(tp, lat)\<leftarrow>rs. lat * tp) \<le> b * (\<Sum>(tp, lat)\<leftarrow>rs. tp)"
  using assms
proof (induction rs)
  case (Cons p rs)
  obtain tp lat where p: "p = (tp, lat)" by (cases p)
  with Cons.prems have "a * tp \<le> lat * tp" "lat * tp \<le> b * tp" by (auto intro: mult_right_mono)
  with Cons p show ?case by (simp add: distrib_left)
qed simp

text \<open>
  The total throughput is the sum over the client reports that parse, the weighted latency is their
  throughput-weighted average, and it lies within any bounds that hold for all their latencies.
\<close>

theorem sc_main_weighted:
  assumes "sc_main files = Inr (Some (total_tp, lat))"
  shows "total_tp = (\<Sum>(tp, l)\<leftarrow>client_reports files. tp)
    \<and> lat * total_tp = (\<Sum>(tp, l)\<leftarrow>client_reports files. l * tp)
    \<and> (list_all (\<lambda>(tp, l). a \<le> l \<and> l \<le> b) (client_reports files) \<longrightarrow> a \<le> lat \<and> lat \<le> b)"
proof -
  from assms obtain w where run: "res_fold (sc_add files) client_files (0, 0) = Inr (total_tp, w)"
    and pos: "0 < total_tp" and lat: "lat = w / total_tp"
    by (auto simp: sc_main_def bind_res_Inr_iff split: if_splits)
  from sc_fold [OF run] have sums: "total_tp = (\<Sum>(tp, l)\<leftarrow>client_reports files. tp)"
    "w = (\<Sum>(tp, l)\<leftarrow>client_reports files. l * tp)" "\<forall>(tp, l) \<in> set (client_reports files). 0 \<le> tp"
    by (simp_all add: client_reports_def)
  have w: "a * total_tp \<le> w \<and> w \<le> b * total_tp" if "list_all (\<lambda>(tp, l). a \<le> l \<and> l \<le> b) (client_reports files)"
    unfolding sums(1,2) using that sums(3) by (intro weighted_bounds) (auto simp: list_all_iff)
  have "a \<le> lat \<and> lat \<le> b" if "list_all (\<lambda>(tp, l). a \<le> l \<and> l \<le> b) (client_reports files)"
    using w [OF that] pos by (simp add: lat pos_le_divide_eq pos_divide_le_eq)
  moreover have "lat * total_tp = w" using pos lat by simp
  ultimately show ?thesis using sums(1,2) by blast
qed

definition creport :: string where
  "creport = ''  Average latency : 6.5 ms'' @ [newline] @ ''Overall Throughput         : 7.5 req/s''"

lemma creport_match:
  "map_option (\<lambda>m. group m 1) (re_search tp_re creport) = Some ''7.5''"
  "map_option (\<lambda>m. group m 1) (re_search lat_re creport) = Some ''6.5''"
  by code_simp+

theorem sc_main_weighted_witness:
  "sc_main (\<lambda>_. Some creport) = Inr (Some (75 / 2, 13 / 2))
   \<and> (\<Sum>(tp, l)\<leftarrow>client_reports (\<lambda>_. Some creport). tp) = 75 / 2"
proof -
  have p: "sc_parse_file creport = Inr (Some (15 / 2, 13 / 2))"
    using creport_match rlogs_float by (auto simp: sc_parse_file_def)
  have run: "sc_main (\<lambda>_. Some creport) = Inr (Some (75 / 2, 13 / 2))"
    by (simp add: sc_main_def sc_add_def client_files_def p)
  from sc_main_weighted [OF run] run show ?thesis by simp
qed

end
