(* ===== verification/Remote_IO.thy ===== *)
theory Remote_IO
  imports Py_Stats Py_Time
begin

text \<open>
  The effects of the task scripts. What lies outside the repository (Fabric connections, the remote
  shells, the local operating system, the clock and the random generator) is one parameter, a
  function that answers every action from a state of its own; a failure it reports is a Python
  exception here. A task is a function on worlds: its state, the actions attempted so far
  in order, and the global dictionary \<open>processes\<close>. \<open>guarded\<close> is \<open>try ... except Exception\<close>
  around a loop body. \<open>safe_phase\<close> is the contract of a phase of a task that cannot fail and
  attempts a known list of actions whatever the answers are; the guarded loops over the nodes
  all meet it.
\<close>

subsection \<open>Actions and worlds\<close>

text \<open>
  The command lines with printed floats are kept with their numbers: \<open>Netem h i d j\<close> runs
  \<open>sudo tc qdisc add dev i root netem delay <d>ms\<close> on \<open>h\<close>, followed by
  \<open><s>ms distribution <name>\<close> when \<open>j = Some (s, name)\<close>; \<open>Ycsb h ip threads read write count file\<close>
  runs the ZooKeeper workload of YCSB on \<open>h\<close> with these settings into \<open>file\<close>.
\<close>

datatype act =
    Sudo (act_host: string) (act_cmd: string)
  | Sudo_warn (act_host: string) (act_cmd: string)
  | Sudo_async (act_host: string) (act_cmd: string)
  | Run (act_host: string) (act_cmd: string)
  | Run_warn (act_host: string) (act_cmd: string)
  | Run_async (act_host: string) (act_cmd: string)
  | Get (act_host: string) string string
  | Put (act_host: string) string string
  | Sleep int
  | Load_config string
  | Read_file string
  | Write_file string string
  | Write_stats string int real real
  | Mkdirs string
  | Glob string
  | Move string string
  | Exists string
  | Isfile string
  | Call "string list"
  | System string
  | Popen "string list" string
  | Killpg int
  | Poll int
  | Randint int int
  | Now
  | Netem (act_host: string) string real "(real \<times> string) option"
  | Ycsb (act_host: string) string int real real int string
  | Clock
  | Read_lines string
  | Bar_chart string "(int \<times> nat) list"

datatype reply = Done | Text string | Paths "string list" | Flag bool | Number int | Exit_code "int option"
  | Time datetime | Lines "string list"

type_synonym 'e outside = "'e \<Rightarrow> act \<Rightarrow> (string + reply) \<times> 'e"

text \<open>The keys of \<open>processes\<close>: replica numbers and client names.\<close>

datatype pkey = Replica int | Client string

record 'e world =
  env :: 'e
  trace :: "act list"
  procs :: "(pkey, int) dict"

type_synonym ('e, 'a) io = "'e world \<Rightarrow> 'a res \<times> 'e world"

subsection \<open>Combinators\<close>

definition perform :: "'e outside \<Rightarrow> act \<Rightarrow> ('e, reply) io" where
  "perform out a w = (let (r, e) = out (env w) a in
     ((case r of Inl msg \<Rightarrow> Inl (RemoteError msg) | Inr x \<Rightarrow> Inr x), w\<lparr>env := e, trace := trace w @ [a]\<rparr>))"

definition return_io :: "'a \<Rightarrow> ('e, 'a) io" where
  "return_io x w = (Inr x, w)"

definition raise_io :: "py_error \<Rightarrow> ('e, 'a) io" where
  "raise_io e w = (Inl e, w)"

definition bind_io :: "('e, 'a) io \<Rightarrow> ('a \<Rightarrow> ('e, 'b) io) \<Rightarrow> ('e, 'b) io" where
  "bind_io m f w = (case m w of (Inl e, w') \<Rightarrow> (Inl e, w') | (Inr x, w') \<Rightarrow> f x w')"

definition from_res :: "'a res \<Rightarrow> ('e, 'a) io" where
  "from_res r w = (r, w)"

text \<open>An action whose answer is not used.\<close>

definition doio :: "'e outside \<Rightarrow> act \<Rightarrow> ('e, unit) io" where
  "doio out a = bind_io (perform out a) (\<lambda>_. return_io ())"

text \<open>Actions with an answer; an answer of another kind is a TypeError.\<close>

definition ask_text :: "'e outside \<Rightarrow> act \<Rightarrow> ('e, string) io" where
  "ask_text out a = bind_io (perform out a) (\<lambda>r. case r of Text s \<Rightarrow> return_io s | _ \<Rightarrow> raise_io TypeError)"

definition ask_paths :: "'e outside \<Rightarrow> act \<Rightarrow> ('e, string list) io" where
  "ask_paths out a = bind_io (perform out a) (\<lambda>r. case r of Paths ps \<Rightarrow> return_io ps | _ \<Rightarrow> raise_io TypeError)"

definition ask_flag :: "'e outside \<Rightarrow> act \<Rightarrow> ('e, bool) io" where
  "ask_flag out a = bind_io (perform out a) (\<lambda>r. case r of Flag b \<Rightarrow> return_io b | _ \<Rightarrow> raise_io TypeError)"

definition ask_int :: "'e outside \<Rightarrow> act \<Rightarrow> ('e, int) io" where
  "ask_int out a = bind_io (perform out a) (\<lambda>r. case r of Number n \<Rightarrow> return_io n | _ \<Rightarrow> raise_io TypeError)"

fun block :: "('e, unit) io list \<Rightarrow> ('e, unit) io" where
  "block [] = return_io ()"
| "block (m # ms) = bind_io m (\<lambda>_. block ms)"

fun foreach :: "'a list \<Rightarrow> ('a \<Rightarrow> ('e, unit) io) \<Rightarrow> ('e, unit) io" where
  "foreach [] body = return_io ()"
| "foreach (x # xs) body = bind_io (body x) (\<lambda>_. foreach xs body)"

fun fold_io :: "('s \<Rightarrow> 'a \<Rightarrow> ('e, 's) io) \<Rightarrow> 'a list \<Rightarrow> 's \<Rightarrow> ('e, 's) io" where
  "fold_io f [] s = return_io s"
| "fold_io f (x # xs) s = bind_io (f s x) (fold_io f xs)"

fun map_io :: "('a \<Rightarrow> ('e, 'b) io) \<Rightarrow> 'a list \<Rightarrow> ('e, 'b list) io" where
  "map_io f [] = return_io []"
| "map_io f (x # xs) = bind_io (f x) (\<lambda>y. bind_io (map_io f xs) (\<lambda>ys. return_io (y # ys)))"

text \<open>\<open>except Exception\<close> does not catch \<open>SystemExit\<close>.\<close>

definition is_exception :: "py_error \<Rightarrow> bool" where
  "is_exception e = (case e of SystemExit _ \<Rightarrow> False | _ \<Rightarrow> True)"

definition try_io :: "('e, 'a) io \<Rightarrow> 'a \<Rightarrow> ('e, 'a) io" where
  "try_io m d w = (case m w of
       (Inl e, w') \<Rightarrow> (if is_exception e then (Inr d, w') else (Inl e, w'))
     | (Inr x, w') \<Rightarrow> (Inr x, w'))"

definition guarded :: "('e, unit) io \<Rightarrow> ('e, unit) io" where
  "guarded m = try_io m ()"

subsection \<open>The world after an action\<close>

definition after :: "'e outside \<Rightarrow> act \<Rightarrow> 'e world \<Rightarrow> 'e world" where
  "after out a w = w\<lparr>env := snd (out (env w) a), trace := trace w @ [a]\<rparr>"

lemma after_simps [simp]: "trace (after out a w) = trace w @ [a]" "procs (after out a w) = procs w"
  "env (after out a w) = snd (out (env w) a)"
  by (simp_all add: after_def)

lemma doio_cases:
  "doio out a w = (case fst (out (env w) a) of
     Inl msg \<Rightarrow> (Inl (RemoteError msg), after out a w) | Inr _ \<Rightarrow> (Inr (), after out a w))"
  by (cases "out (env w) a") (auto simp: doio_def bind_io_def perform_def return_io_def after_def split: sum.splits)

lemma ask_text_cases:
  "ask_text out a w = (case fst (out (env w) a) of
     Inl msg \<Rightarrow> (Inl (RemoteError msg), after out a w)
   | Inr r \<Rightarrow> (case r of Text s \<Rightarrow> (Inr s, after out a w) | _ \<Rightarrow> (Inl TypeError, after out a w)))"
  by (cases "out (env w) a")
    (auto simp: ask_text_def bind_io_def perform_def return_io_def raise_io_def after_def split: sum.splits reply.splits)

lemma ask_paths_cases:
  "ask_paths out a w = (case fst (out (env w) a) of
     Inl msg \<Rightarrow> (Inl (RemoteError msg), after out a w)
   | Inr r \<Rightarrow> (case r of Paths ps \<Rightarrow> (Inr ps, after out a w) | _ \<Rightarrow> (Inl TypeError, after out a w)))"
  by (cases "out (env w) a")
    (auto simp: ask_paths_def bind_io_def perform_def return_io_def raise_io_def after_def split: sum.splits reply.splits)

lemma ask_flag_cases:
  "ask_flag out a w = (case fst (out (env w) a) of
     Inl msg \<Rightarrow> (Inl (RemoteError msg), after out a w)
   | Inr r \<Rightarrow> (case r of Flag b \<Rightarrow> (Inr b, after out a w) | _ \<Rightarrow> (Inl TypeError, after out a w)))"
  by (cases "out (env w) a")
    (auto simp: ask_flag_def bind_io_def perform_def return_io_def raise_io_def after_def split: sum.splits reply.splits)

lemma ask_int_cases:
  "ask_int out a w = (case fst (out (env w) a) of
     Inl msg \<Rightarrow> (Inl (RemoteError msg), after out a w)
   | Inr r \<Rightarrow> (case r of Number n \<Rightarrow> (Inr n, after out a w) | _ \<Rightarrow> (Inl TypeError, after out a w)))"
  by (cases "out (env w) a")
    (auto simp: ask_int_def bind_io_def perform_def return_io_def raise_io_def after_def split: sum.splits reply.splits)

lemma guarded_doio [simp]: "guarded (doio out a) w = (Inr (), after out a w)"
  by (simp add: guarded_def try_io_def doio_cases is_exception_def split: sum.splits)

lemma bind_return [simp]: "bind_io (return_io x) f = f x"
  by (simp add: bind_io_def return_io_def fun_eq_iff)

lemma bind_assoc: "bind_io (bind_io m f) g = bind_io m (\<lambda>x. bind_io (f x) g)"
  by (auto simp: bind_io_def fun_eq_iff split: prod.splits sum.splits)

lemma bind_unit [simp]: "bind_io m (\<lambda>_. return_io ()) = m" "bind_io n return_io = n"
  by (auto simp: bind_io_def return_io_def fun_eq_iff split: prod.splits sum.splits)

lemma block_append: "block (ms @ ns) = bind_io (block ms) (\<lambda>_. block ns)"
  by (induction ms) (auto simp: bind_io_def fun_eq_iff return_io_def split: prod.splits sum.splits)

subsection \<open>What a task attempts\<close>

text \<open>
  \<open>follows m as\<close>: whatever the answers are, \<open>m\<close> attempts the actions \<open>as\<close> in order up to
  some point, and all of them when it does not raise.
\<close>

definition follows :: "('e, 'a) io \<Rightarrow> act list \<Rightarrow> bool" where
  "follows m as \<longleftrightarrow> (\<forall>w. (\<exists>k. trace (snd (m w)) = trace w @ take k as)
     \<and> (\<forall>x. fst (m w) = Inr x \<longrightarrow> trace (snd (m w)) = trace w @ as))"

lemma follows_return: "follows (return_io x) []"
  by (simp add: follows_def return_io_def)

lemma follows_doio: "follows (doio out a) [a]"
  unfolding follows_def
proof (intro allI conjI impI)
  fix w :: "'a world"
  show "\<exists>k. trace (snd (doio out a w)) = trace w @ take k [a]"
    by (intro exI [of _ 1]) (simp add: doio_cases split: sum.splits)
  show "trace (snd (doio out a w)) = trace w @ [a]"
    by (simp add: doio_cases split: sum.splits)
qed

lemma follows_bind:
  assumes "follows m as" "\<And>x. follows (f x) bs"
  shows "follows (bind_io m f) (as @ bs)"
  unfolding follows_def
proof
  fix w
  obtain r w' where m: "m w = (r, w')" by (cases "m w")
  from assms(1) m obtain k where k: "trace w' = trace w @ take k as"
    and full: "\<And>x. r = Inr x \<Longrightarrow> trace w' = trace w @ as" unfolding follows_def by (metis fst_conv snd_conv)
  show "(\<exists>k. trace (snd (bind_io m f w)) = trace w @ take k (as @ bs))
      \<and> (\<forall>x. fst (bind_io m f w) = Inr x \<longrightarrow> trace (snd (bind_io m f w)) = trace w @ as @ bs)"
  proof (cases r)
    case (Inl e)
    have "take k as = take (min k (length as)) (as @ bs)" by (simp add: min_def)
    with m Inl k show ?thesis by (auto simp: bind_io_def intro!: exI [of _ "min k (length as)"])
  next
    case (Inr x)
    from assms(2) [of x] obtain l where "trace (snd (f x w')) = trace w' @ take l bs"
      "\<And>y. fst (f x w') = Inr y \<Longrightarrow> trace (snd (f x w')) = trace w' @ bs" unfolding follows_def by metis
    with m Inr full [OF Inr] show ?thesis
      by (auto simp: bind_io_def intro!: exI [of _ "length as + l"])
  qed
qed

lemma follows_block: "list_all2 follows ms ass \<Longrightarrow> follows (block ms) (concat ass)"
  by (induction rule: list_all2_induct) (simp_all add: follows_return follows_bind)

lemma follows_foreach: "(\<And>x. x \<in> set xs \<Longrightarrow> follows (body x) (f x)) \<Longrightarrow> follows (foreach xs body) (concat (map f xs))"
  by (induction xs) (simp_all add: follows_return follows_bind)

definition acts_io :: "'e outside \<Rightarrow> act list \<Rightarrow> ('e, unit) io" where
  "acts_io out as = block (map (doio out) as)"

lemma acts_io_run:
  "\<exists>k \<le> length as. trace (snd (acts_io out as w)) = trace w @ take k as
     \<and> (fst (acts_io out as w) = Inr () \<longrightarrow> k = length as) \<and> procs (snd (acts_io out as w)) = procs w"
proof (induction as arbitrary: w)
  case Nil
  then show ?case by (simp add: acts_io_def return_io_def)
next
  case (Cons a as)
  show ?case
  proof (cases "fst (out (env w) a)")
    case (Inl msg)
    then show ?thesis
      by (intro exI [of _ 1]) (simp add: acts_io_def bind_io_def doio_cases)
  next
    case (Inr x)
    from Cons.IH [of "after out a w"] obtain k where "k \<le> length as"
      "trace (snd (acts_io out as (after out a w))) = trace w @ a # take k as"
      "fst (acts_io out as (after out a w)) = Inr () \<longrightarrow> k = length as"
      "procs (snd (acts_io out as (after out a w))) = procs w" by auto
    with Inr show ?thesis
      by (intro exI [of _ "Suc k"]) (simp add: acts_io_def bind_io_def doio_cases)
  qed
qed

lemma acts_io_succeeds:
  "(\<And>a e. a \<in> set as \<Longrightarrow> \<exists>r. fst (out e a) = Inr r) \<Longrightarrow> fst (acts_io out as w) = Inr ()"
proof (induction as arbitrary: w)
  case Nil
  then show ?case by (simp add: acts_io_def return_io_def)
next
  case (Cons a as)
  from Cons.prems [of a "env w"] obtain r where "fst (out (env w) a) = Inr r" by auto
  with Cons show ?case by (simp add: acts_io_def bind_io_def doio_cases)
qed

lemma follows_acts: "follows (acts_io out as) as"
  using follows_block [of "map (doio out) as" "map (\<lambda>a. [a]) as"]
  by (simp add: acts_io_def list_all2_map1 list_all2_map2 list.rel_refl follows_doio concat_map_singleton)

lemma acts_io_Cons: "acts_io out (a # as) = bind_io (doio out a) (\<lambda>_. acts_io out as)"
  by (simp add: acts_io_def)

lemma acts_io_append: "acts_io out (as @ bs) = bind_io (acts_io out as) (\<lambda>_. acts_io out bs)"
  by (simp add: acts_io_def block_append)

lemma foreach_acts: "foreach xs (\<lambda>x. acts_io out (f x)) = acts_io out (concat (map f xs))"
  by (induction xs) (simp_all add: acts_io_append, simp add: acts_io_def)

text \<open>A guarded body of several actions: it never fails, and attempts them up to the first failure.\<close>

lemma acts_io_error: "fst (acts_io out as w) = Inl e \<Longrightarrow> is_exception e"
  by (induction as arbitrary: w)
    (auto simp: acts_io_def bind_io_def doio_cases return_io_def is_exception_def split: sum.splits)

lemma guarded_acts:
  "\<exists>k \<le> length as. guarded (acts_io out as) w = (Inr (), snd (acts_io out as w))
     \<and> trace (snd (acts_io out as w)) = trace w @ take k as"
  using acts_io_run [of as out w] acts_io_error [of out as w]
  by (cases "acts_io out as w"; cases "fst (acts_io out as w)") (auto simp: guarded_def try_io_def)

subsection \<open>Phases that cannot fail\<close>

locale safe_phase =
  fixes m :: "('e, unit) io" and acts :: "act list"
  assumes never_raises: "fst (m w) = Inr ()"
    and trace_exact: "trace (snd (m w)) = trace w @ acts"
    and keeps_procs: "procs (snd (m w)) = procs w"
begin

lemma run_then: "bind_io m f w = f () (snd (m w))"
  using never_raises [of w] by (cases "m w") (simp add: bind_io_def)

lemma run_eq: "m w = (Inr (), snd (m w))"
  using never_raises [of w] by (cases "m w") simp

lemma trace_then: "trace (snd (bind_io m f w)) = trace (snd (f () (snd (m w))))"
  by (simp add: run_then)

end

context safe_phase
begin

lemma follows: "follows m acts"
  unfolding follows_def using trace_exact by (metis take_all order_refl)

end

lemma foreach_guarded:
  "fst (foreach xs (\<lambda>x. guarded (doio out (f x))) w) = Inr ()
   \<and> trace (snd (foreach xs (\<lambda>x. guarded (doio out (f x))) w)) = trace w @ map f xs
   \<and> procs (snd (foreach xs (\<lambda>x. guarded (doio out (f x))) w)) = procs w"
  by (induction xs arbitrary: w) (simp_all add: return_io_def bind_io_def)

lemma safe_guarded_loop: "safe_phase (foreach xs (\<lambda>x. guarded (doio out (f x)))) (map f xs)"
  by unfold_locales (simp_all add: foreach_guarded)

subsection \<open>Tasks that always return\<close>

text \<open>\<open>always m P\<close>: from every world \<open>m\<close> returns, and the actions it attempted satisfy \<open>P\<close>.\<close>

definition always :: "('e, 'a) io \<Rightarrow> (act list \<Rightarrow> bool) \<Rightarrow> bool" where
  "always m P \<longleftrightarrow> (\<forall>w. \<exists>x t. fst (m w) = Inr x \<and> trace (snd (m w)) = trace w @ t \<and> P t)"

lemma alwaysI: "(\<And>w. \<exists>x w' t. m w = (Inr x, w') \<and> trace w' = trace w @ t \<and> P t) \<Longrightarrow> always m P"
  unfolding always_def by (metis fst_conv snd_conv)

lemma alwaysD: "always m P \<Longrightarrow> \<exists>x w' t. m w = (Inr x, w') \<and> trace w' = trace w @ t \<and> P t"
  unfolding always_def by (metis prod.collapse)

lemma always_return: "always (return_io x) (\<lambda>t. t = [])"
  by (rule alwaysI) (simp add: return_io_def)

lemma always_weaken: "always m P \<Longrightarrow> (\<And>t. P t \<Longrightarrow> Q t) \<Longrightarrow> always m Q"
  unfolding always_def by metis

lemma always_bind:
  assumes "always m P" "\<And>x. always (f x) Q"
  shows "always (bind_io m f) (\<lambda>t. \<exists>a b. t = a @ b \<and> P a \<and> Q b)"
proof (rule alwaysI)
  fix w
  from alwaysD [OF assms(1)] obtain x w1 a where 1: "m w = (Inr x, w1)" "trace w1 = trace w @ a" "P a" by blast
  from alwaysD [OF assms(2)] obtain y w2 b where "f x w1 = (Inr y, w2)" "trace w2 = trace w1 @ b" "Q b" by blast
  with 1 show "\<exists>x w' t. bind_io m f w = (Inr x, w') \<and> trace w' = trace w @ t \<and> (\<exists>a b. t = a @ b \<and> P a \<and> Q b)"
    by (intro exI [of _ y] exI [of _ w2] exI [of _ "a @ b"]) (auto simp: bind_io_def)
qed

abbreviation returns :: "('e, 'a) io \<Rightarrow> bool" where "returns m \<equiv> always m (\<lambda>_. True)"

lemma always_returns: "always m P \<Longrightarrow> returns m"
  by (rule always_weaken) simp_all

lemma returns_return: "returns (return_io x)"
  by (rule always_returns [OF always_return])

lemma returns_bind: "returns m \<Longrightarrow> (\<And>x. returns (f x)) \<Longrightarrow> returns (bind_io m f)"
  by (rule always_weaken [OF always_bind]) simp_all

lemma returns_foreach: "(\<And>x. x \<in> set xs \<Longrightarrow> returns (body x)) \<Longrightarrow> returns (foreach xs body)"
  by (induction xs) (simp_all add: returns_return returns_bind)

lemma returns_map_io: "(\<And>x. returns (f x)) \<Longrightarrow> returns (map_io f xs)"
  by (induction xs) (simp_all add: returns_return returns_bind)

lemma always_foreach:
  "(\<And>x. x \<in> set xs \<Longrightarrow> always (body x) (P x)) \<Longrightarrow>
   always (foreach xs body) (\<lambda>t. \<exists>ts. t = concat ts \<and> list_all2 P xs ts)"
proof (induction xs)
  case Nil
  then show ?case by (simp, intro always_weaken [OF always_return]) simp
next
  case (Cons x xs)
  then have "always (bind_io (body x) (\<lambda>_. foreach xs body))
      (\<lambda>t. \<exists>a b. t = a @ b \<and> P x a \<and> (\<exists>ts. b = concat ts \<and> list_all2 P xs ts))"
    by (intro always_bind) simp_all
  then show ?case
    by (simp, elim always_weaken) (metis concat.simps(2) list.rel_intros(2))
qed

lemma always_guarded_doio: "always (guarded (doio out a)) (\<lambda>t. t = [a])"
  by (rule alwaysI) simp

lemma always_guarded_acts: "always (guarded (acts_io out as)) (\<lambda>t. \<exists>k. t = take k as \<and> (as \<noteq> [] \<longrightarrow> k \<noteq> 0))"
proof (rule alwaysI)
  fix w
  show "\<exists>x w' t. guarded (acts_io out as) w = (Inr x, w') \<and> trace w' = trace w @ t \<and> (\<exists>k. t = take k as \<and> (as \<noteq> [] \<longrightarrow> k \<noteq> 0))"
  proof (cases as)
    case Nil
    then show ?thesis by (simp add: acts_io_def guarded_def try_io_def return_io_def)
  next
    case (Cons a bs)
    have eq: "guarded (acts_io out as) w = (Inr (), snd (acts_io out as w))" using guarded_acts [of as out w] by blast
    have "\<exists>k. trace (snd (acts_io out (a # bs) w)) = trace w @ take (Suc k) (a # bs)"
    proof (cases "fst (out (env w) a)")
      case (Inl msg)
      then show ?thesis by (intro exI [of _ 0]) (simp add: acts_io_Cons bind_io_def doio_cases)
    next
      case (Inr r)
      from acts_io_run [of bs out "after out a w"] obtain k where
        "trace (snd (acts_io out bs (after out a w))) = trace w @ a # take k bs" by auto
      with Inr show ?thesis by (intro exI [of _ k]) (simp add: acts_io_Cons bind_io_def doio_cases)
    qed
    then show ?thesis unfolding eq using Cons by blast
  qed
qed

context safe_phase
begin

lemma always_exact: "always m (\<lambda>t. t = acts)"
  by (rule alwaysI) (metis run_eq trace_exact)

end

end
