(* ===== verification/Tasks.thy ===== *)
theory Tasks
  imports Remote_IO
begin

text \<open>
  \<open>scripts/tasks.py\<close>, the tasks that start, stop and collect experiments on the remote nodes. Every
  call of Fabric or of the operating system is an action of \<open>Remote_IO\<close>, with the command line
  the task builds. Opening a \<open>Connection\<close> does nothing until it is used and is not an action.
\<close>

subsection \<open>The cluster\<close>

record node =
  host :: string
  port :: int

definition nodes :: "node list" where
  "nodes = [\<lparr>host = ''amd128.utah.cloudlab.us'', port = 22\<rparr>, \<lparr>host = ''amd141.utah.cloudlab.us'', port = 22\<rparr>,
     \<lparr>host = ''amd147.utah.cloudlab.us'', port = 22\<rparr>, \<lparr>host = ''amd139.utah.cloudlab.us'', port = 22\<rparr>,
     \<lparr>host = ''amd158.utah.cloudlab.us'', port = 22\<rparr>]"

definition username :: string where "username = ''PeterYao''"

definition bind_ips :: "string list" where
  "bind_ips = [''10.0.0.2'', ''10.0.0.3'', ''10.0.4.2'', ''10.0.1.2'', ''10.0.1.3'']"

definition num :: "nat \<Rightarrow> string" where
  "num n = show_int (int n)"

text \<open>\<open>s.replace(pat, '')\<close> for a pattern that is not empty.\<close>

function str_remove :: "string \<Rightarrow> string \<Rightarrow> string" where
  "str_remove pat s =
     (if pat \<noteq> [] \<and> prefix pat s then str_remove pat (drop (length pat) s)
      else case s of [] \<Rightarrow> [] | c # cs \<Rightarrow> c # str_remove pat cs)"
  by pat_completeness auto
termination
  by (relation "measure (length \<circ> snd)") (auto simp: prefix_def)

declare str_remove.simps [simp del]

text \<open>\<open>xs[i]\<close> with Python's negative indices.\<close>

definition py_index :: "'a list \<Rightarrow> int \<Rightarrow> 'a res" where
  "py_index xs i = (if 0 \<le> i \<and> i < int (length xs) then Inr (xs ! nat i)
     else if i < 0 \<and> - int (length xs) \<le> i then Inr (xs ! nat (int (length xs) + i)) else Inl IndexError)"

subsection \<open>Starting the replicas\<close>

definition remote_log :: "string \<Rightarrow> nat \<Rightarrow> string \<Rightarrow> string" where
  "remote_log log_subdir i log_suffix = ''scripts/'' @ log_subdir @ ''/node_'' @ num (i + 1) @ ''_'' @ log_suffix @ ''.log''"

definition start_cmd :: "string \<Rightarrow> string \<Rightarrow> nat \<Rightarrow> string \<Rightarrow> string" where
  "start_cmd remote_config_path extra i log_path = ''cd frugal-leader-election && nohup bazel-bin/leader_election --config=''
     @ remote_config_path @ '' --replicaId='' @ num i @ extra @ '' > '' @ log_path @ '' 2>&1 &''"

definition clean_acts :: "string \<Rightarrow> nat \<times> node \<Rightarrow> act list" where
  "clean_acts log_subdir p = [Sudo_warn (host (snd p)) ''killall leader_election'',
     Run_warn (host (snd p)) (''mkdir -p frugal-leader-election/scripts/'' @ log_subdir)]"

definition start_act :: "string \<Rightarrow> string \<Rightarrow> string \<Rightarrow> nat \<times> node \<Rightarrow> act" where
  "start_act remote_config_path log_subdir log_suffix p =
     Run_async (host (snd p)) (start_cmd remote_config_path [] (fst p) (remote_log log_subdir (fst p) log_suffix))"

definition start_remote :: "'e outside \<Rightarrow> string \<Rightarrow> string \<Rightarrow> ('e, unit) io" where
  "start_remote out config_file log_suffix =
     (let remote_config_path = ''configs/'' @ config_file;
          log_subdir = ''logs/'' @ str_remove ''.yaml'' config_file
      in block [doio out (Load_config (''../'' @ remote_config_path)),
           foreach (enumerate 0 nodes) (\<lambda>p. acts_io out (clean_acts log_subdir p)),
           foreach (enumerate 0 nodes) (\<lambda>p. guarded (doio out (start_act remote_config_path log_subdir log_suffix p)))])"

definition remote_yaml :: string where
  "remote_yaml = ''/users/PeterYao/frugal-leader-election/configs/remote.yaml''"

definition put_config :: "'e outside \<Rightarrow> ('e, unit) io" where
  "put_config out = foreach nodes (\<lambda>n. guarded (doio out
     (Put (host n) ''/home/peter/frugal-leader-election/configs/remote.yaml'' remote_yaml)))"

definition default_start_act :: "string \<Rightarrow> nat \<times> node \<Rightarrow> act" where
  "default_start_act loglevel p = Run_async (host (snd p))
     (start_cmd remote_yaml ('' --minloglevel='' @ loglevel) (fst p) (''scripts/logs/node_'' @ num (fst p + 1) @ ''.log''))"

definition default_clean_acts :: "string list \<Rightarrow> node \<Rightarrow> act list" where
  "default_clean_acts victims n = map (\<lambda>v. Sudo_warn (host n) (''killall '' @ v)) victims
     @ [Run_warn (host n) ''mkdir -p frugal-leader-election/scripts/logs'',
        Run_warn (host n) ''rm -f frugal-leader-election/scripts/logs/*'']"

definition start_remote_default :: "'e outside \<Rightarrow> ('e, unit) io" where
  "start_remote_default out = block [
     put_config out,
     doio out (Load_config ''../configs/remote.yaml''),
     foreach nodes (\<lambda>n. acts_io out (default_clean_acts [''leader_election'', ''client''] n)),
     foreach (enumerate 0 nodes) (\<lambda>p. guarded (doio out (default_start_act ''0'' p)))]"

text \<open>
  A command-line argument is a string; the task is also callable with an integer. After the loop
  the variable \<open>replica_id\<close> still holds the last index.
\<close>

datatype arg = Str_arg string | Int_arg int

definition index_arg :: "'a list \<Rightarrow> arg \<Rightarrow> 'a res" where
  "index_arg xs a = (case a of Str_arg _ \<Rightarrow> Inl TypeError | Int_arg i \<Rightarrow> py_index xs i)"

definition default_client_cmd :: "string \<Rightarrow> string \<Rightarrow> string \<Rightarrow> string \<Rightarrow> int \<Rightarrow> string \<Rightarrow> string" where
  "default_client_cmd server serverPort sendMode v cid bind =
     ''cd frugal-leader-election && nohup bazel-bin/client '' @ server @ '' '' @ serverPort @ '' '' @ sendMode @ '' ''
     @ v @ '' '' @ show_int cid @ '' '' @ bind @ '' > client_remote.log 2>&1''"

definition start_remote_default_with_client ::
    "'e outside \<Rightarrow> arg \<Rightarrow> string \<Rightarrow> string \<Rightarrow> string \<Rightarrow> ('e, unit) io" where
  "start_remote_default_with_client out leaderId serverPort sendMode v = block [
     put_config out,
     doio out (Load_config ''../configs/remote.yaml''),
     foreach nodes (\<lambda>n. acts_io out (default_clean_acts [''leader_election''] n)),
     foreach (enumerate 0 nodes) (\<lambda>p. guarded (doio out (default_start_act ''1'' p))),
     bind_io (from_res (index_arg bind_ips leaderId)) (\<lambda>server.
     bind_io (ask_int out (Randint 1 9999)) (\<lambda>cid.
       doio out (Run_async (host (hd nodes))
         (default_client_cmd server serverPort sendMode v cid (bind_ips ! (length nodes - 1)))))),
     doio out (Sleep 100)]"

subsection \<open>Collecting logs\<close>

definition log_dir :: "'e outside \<Rightarrow> string option \<Rightarrow> ('e, string) io" where
  "log_dir out name = (case name of None \<Rightarrow> ask_text out Now | Some d \<Rightarrow> return_io d)"

definition users_dir :: string where
  "users_dir = ''/users/'' @ username @ ''/frugal-leader-election/''"

text \<open>Only the first node is visited: the loop runs over \<open>nodes[0:1]\<close>.\<close>

definition download_act :: "string \<Rightarrow> string \<Rightarrow> nat \<times> node \<Rightarrow> act" where
  "download_act d log_suffix p =
     Get (host (snd p)) (users_dir @ ''scripts/logs/'' @ d @ ''/node_'' @ num (fst p + 1) @ ''_'' @ log_suffix @ ''.log'')
       (''downloaded_logs/'' @ d @ ''/node_'' @ num (fst p + 1) @ ''_'' @ log_suffix @ ''.log'')"

definition download_logs :: "'e outside \<Rightarrow> string option \<Rightarrow> string \<Rightarrow> ('e, unit) io" where
  "download_logs out log_dir_name log_suffix = bind_io (log_dir out log_dir_name) (\<lambda>d. block [
     doio out (Mkdirs (''downloaded_logs/'' @ d)),
     foreach (enumerate 0 (take 1 nodes)) (\<lambda>p. guarded (doio out (download_act d log_suffix p)))])"

definition download_multi_logs :: "'e outside \<Rightarrow> string option \<Rightarrow> int \<Rightarrow> int \<Rightarrow> ('e, unit) io" where
  "download_multi_logs out log_dir_name start_idx end_idx = bind_io (log_dir out log_dir_name) (\<lambda>d. block [
     doio out (Mkdirs (''downloaded_logs/'' @ d)),
     foreach [start_idx..end_idx] (\<lambda>idx. download_logs out (Some d) (''run_'' @ show_int idx))])"

definition default_download_act :: "string \<Rightarrow> nat \<times> node \<Rightarrow> act" where
  "default_download_act d p = Get (host (snd p)) (users_dir @ ''scripts/logs/node_'' @ num (fst p + 1) @ ''.log'')
     (''downloaded_logs/'' @ d @ ''/node_'' @ num (fst p + 1) @ ''.log'')"

definition download_logs_default :: "'e outside \<Rightarrow> ('e, unit) io" where
  "download_logs_default out = bind_io (ask_text out Now) (\<lambda>d. block [
     doio out (Mkdirs (''downloaded_logs/'' @ d)),
     foreach (enumerate 0 nodes) (\<lambda>p. guarded (doio out (default_download_act d p)))])"

definition count_leader :: "'e outside \<Rightarrow> ('e, unit) io" where
  "count_leader out = foreach [1..<6] (\<lambda>i. doio out (Run (host (nodes ! (i - 1)))
     (''cd frugal-leader-election/scripts && python3 count_leader.py logs/node_'' @ num i @ ''.log'')))"

definition get_result_acts :: "string \<Rightarrow> nat \<times> node \<Rightarrow> act list" where
  "get_result_acts cmd p = [Run (host (snd p)) cmd,
     Get (host (snd p)) ''/users/PeterYao/frugal-leader-election/result.txt'' (''client_remote_'' @ num (fst p) @ ''.log'')]"

definition get_results :: "'e outside \<Rightarrow> ('e, unit) io" where
  "get_results out = foreach (enumerate 0 (take 5 nodes)) (\<lambda>p. guarded (acts_io out (get_result_acts
     ''cd ~/frugal-leader-election && python3 scripts/analyze_resp_time.py client_remote.log > result.txt 2>&1 '' p)))"

definition analyze_acts :: "nat \<times> node \<Rightarrow> act list" where
  "analyze_acts p = [Run (host (snd p)) (''cd frugal-leader-election/scripts && python3 extract_failure.py '' @ num (fst p + 1)),
     Mkdirs ''plots'',
     Get (host (snd p)) ''failure_occurrences.png'' (''plots/leader_failure_node_'' @ num (fst p + 1) @ ''_downloaded.png'')]"

definition analyze_logs_false_pos :: "'e outside \<Rightarrow> ('e, unit) io" where
  "analyze_logs_false_pos out = foreach (enumerate 0 nodes) (\<lambda>p. guarded (acts_io out (analyze_acts p)))"

subsection \<open>Stopping\<close>

definition killall_on :: "'e outside \<Rightarrow> string \<Rightarrow> ('e, unit) io" where
  "killall_on out victim = foreach nodes (\<lambda>n. guarded (doio out (Sudo (host n) (''killall '' @ victim))))"

definition killall_remote :: "'e outside \<Rightarrow> ('e, unit) io" where
  "killall_remote out = killall_on out ''leader_election''"

definition killall_python :: "'e outside \<Rightarrow> ('e, unit) io" where
  "killall_python out = killall_on out ''python3''"

definition killall_remote_iperf :: "'e outside \<Rightarrow> ('e, unit) io" where
  "killall_remote_iperf out = killall_on out ''iperf3''"

definition iperf_cmd :: "nat \<Rightarrow> string \<Rightarrow> string" where
  "iperf_cmd i mode = ''python3 frugal-leader-election/scripts/background_tcp_simulation/iperf_tcp_gen.py '' @ num i @ '' '' @ mode"

definition run_iperf3_servers :: "'e outside \<Rightarrow> ('e, unit) io" where
  "run_iperf3_servers out = foreach (enumerate 1 nodes) (\<lambda>p. guarded (doio out (Run (host (snd p)) (iperf_cmd (fst p) ''server''))))"

definition run_iperf3_clients :: "'e outside \<Rightarrow> ('e, unit) io" where
  "run_iperf3_clients out = foreach (enumerate 1 nodes) (\<lambda>p. guarded (doio out (Sudo (host (snd p)) (iperf_cmd (fst p) ''client''))))"

subsection \<open>Series of experiments\<close>

definition run_multiple_experiments :: "'e outside \<Rightarrow> string \<Rightarrow> int \<Rightarrow> int \<Rightarrow> ('e, unit) io" where
  "run_multiple_experiments out config_file reps wait_time =
     foreach [0..reps - 1] (\<lambda>i. block [
       start_remote out config_file (''run_'' @ show_int (i + 1)),
       doio out (Sleep wait_time),
       killall_remote out])"

definition automate_exp :: "'e outside \<Rightarrow> string \<Rightarrow> ('e, unit) io" where
  "automate_exp out config_files =
     foreach (split_on (CHR '','') config_files) (\<lambda>config_file. block [
       run_multiple_experiments out (strip config_file) 5 530,
       download_logs_default out])"

subsection \<open>Phases\<close>

interpretation starts: safe_phase "foreach (enumerate 0 nodes) (\<lambda>p. guarded (doio out (start_act c d s p)))"
    "map (start_act c d s) (enumerate 0 nodes)"
  for out :: "'e outside" and c d s
  by (rule safe_guarded_loop)

interpretation default_starts: safe_phase "foreach (enumerate 0 nodes) (\<lambda>p. guarded (doio out (default_start_act l p)))"
    "map (default_start_act l) (enumerate 0 nodes)"
  for out :: "'e outside" and l
  by (rule safe_guarded_loop)

interpretation kills: safe_phase "killall_on out victim" "map (\<lambda>n. Sudo (host n) (''killall '' @ victim)) nodes"
  for out :: "'e outside" and victim
  unfolding killall_on_def by (rule safe_guarded_loop)

definition put_act :: "node \<Rightarrow> act" where
  "put_act n = Put (host n) ''/home/peter/frugal-leader-election/configs/remote.yaml'' remote_yaml"

interpretation puts: safe_phase "put_config out" "map put_act nodes"
  for out :: "'e outside"
  unfolding put_config_def put_act_def [abs_def] by (rule safe_guarded_loop)

text \<open>What \<open>start_remote\<close> does before it starts anything, and the starts.\<close>

definition start_prelude :: "string \<Rightarrow> act list" where
  "start_prelude config_file = Load_config (''../configs/'' @ config_file)
     # concat (map (clean_acts (''logs/'' @ str_remove ''.yaml'' config_file)) (enumerate 0 nodes))"

definition start_acts :: "string \<Rightarrow> string \<Rightarrow> act list" where
  "start_acts config_file log_suffix = map (start_act (''configs/'' @ config_file)
     (''logs/'' @ str_remove ''.yaml'' config_file) log_suffix) (enumerate 0 nodes)"

lemma start_remote_eq:
  "start_remote out config_file log_suffix =
     bind_io (acts_io out (start_prelude config_file)) (\<lambda>_. foreach (enumerate 0 nodes) (\<lambda>p. guarded (doio out
       (start_act (''configs/'' @ config_file) (''logs/'' @ str_remove ''.yaml'' config_file) log_suffix p))))"
  by (simp add: start_remote_def Let_def start_prelude_def acts_io_Cons foreach_acts bind_assoc)

lemma follows_start_remote:
  "follows (start_remote out config_file log_suffix) (start_prelude config_file @ start_acts config_file log_suffix)"
  unfolding start_remote_eq start_acts_def by (rule follows_bind [OF follows_acts starts.follows])

text \<open>
  C9: \<open>start_remote\<close> kills the old processes on every node before it starts a replica on any. If one of
  these preparations raises, it raises having started none; otherwise it does not raise and attempts
  the start on all nodes in order, whichever of them fail.
\<close>

theorem start_remote_all_or_none:
  "(case start_remote out config_file log_suffix w of
      (Inl e, w') \<Rightarrow> (\<exists>k. trace w' = trace w @ take k (start_prelude config_file))
    | (Inr _, w') \<Rightarrow> trace w' = trace w @ start_prelude config_file @ start_acts config_file log_suffix)"
proof -
  let ?pre = "acts_io out (start_prelude config_file)"
  obtain r w1 where pre: "?pre w = (r, w1)" by (cases "?pre w")
  from acts_io_run [of "start_prelude config_file" out w] pre obtain k where
    k: "trace w1 = trace w @ take k (start_prelude config_file)" "r = Inr () \<longrightarrow> k = length (start_prelude config_file)"
    by auto
  show ?thesis
  proof (cases r)
    case (Inl e)
    with pre k(1) show ?thesis by (auto simp: start_remote_eq bind_io_def)
  next
    case (Inr u)
    with k have w1: "trace w1 = trace w @ start_prelude config_file" by simp
    let ?m = "foreach (enumerate 0 nodes) (\<lambda>p. guarded (doio out
       (start_act (''configs/'' @ config_file) (''logs/'' @ str_remove ''.yaml'' config_file) log_suffix p)))"
    from Inr pre have "start_remote out config_file log_suffix w = ?m w1" by (simp add: start_remote_eq bind_io_def)
    then have "start_remote out config_file log_suffix w = (Inr (), snd (?m w1))"
      using starts.run_eq by metis
    then show ?thesis by (simp only: prod.case sum.case starts.trace_exact w1 start_acts_def append.assoc)
  qed
qed

lemma follows_cases:
  assumes "follows m as"
  shows "case m w of (Inl e, w') \<Rightarrow> \<exists>k. trace w' = trace w @ take k as | (Inr _, w') \<Rightarrow> trace w' = trace w @ as"
proof (cases "m w")
  case (Pair r w')
  with assms have "\<exists>k. trace w' = trace w @ take k as" "\<And>x. r = Inr x \<Longrightarrow> trace w' = trace w @ as"
    unfolding follows_def by (metis fst_conv snd_conv)+
  with Pair show ?thesis by (auto split: sum.splits)
qed

text \<open>One iteration: start, wait, kill on every node.\<close>

definition experiment_acts :: "string \<Rightarrow> int \<Rightarrow> int \<Rightarrow> act list" where
  "experiment_acts config_file wait_time i =
     start_prelude config_file @ start_acts config_file (''run_'' @ show_int (i + 1)) @ Sleep wait_time
     # map (\<lambda>n. Sudo (host n) ''killall leader_election'') nodes"

lemma follows_experiments:
  "follows (run_multiple_experiments out config_file reps wait_time)
     (concat (map (experiment_acts config_file wait_time) [0..reps - 1]))"
  unfolding run_multiple_experiments_def
proof (rule follows_foreach)
  fix i
  have kill: "follows (killall_remote out) (map (\<lambda>n. Sudo (host n) ''killall leader_election'') nodes)"
    using kills.follows [of out "''leader_election''"] by (simp add: killall_remote_def)
  have "follows (block [start_remote out config_file (''run_'' @ show_int (i + 1)), doio out (Sleep wait_time), killall_remote out])
      (concat [start_prelude config_file @ start_acts config_file (''run_'' @ show_int (i + 1)), [Sleep wait_time],
        map (\<lambda>n. Sudo (host n) ''killall leader_election'') nodes])"
    by (rule follows_block) (simp only: list.rel_inject list_all2_Nil2 follows_start_remote follows_doio kill simp_thms)
  then show "follows (block [start_remote out config_file (''run_'' @ show_int (i + 1)), doio out (Sleep wait_time), killall_remote out])
      (experiment_acts config_file wait_time i)"
    by (simp only: experiment_acts_def concat.simps append_Nil2 append.assoc append_Cons append_Nil)
qed

text \<open>
  Whatever the nodes answer, a series of experiments performs its iterations one after the other, each
  a full start, the wait and a kill on every node; when it raises it has done a part of that series,
  and when it returns the whole of it, with one log suffix per iteration.
\<close>

theorem run_multiple_experiments_series:
  "(case run_multiple_experiments out config_file reps wait_time w of
      (Inl e, w') \<Rightarrow> (\<exists>k. trace w' = trace w @ take k (concat (map (experiment_acts config_file wait_time) [0..reps - 1])))
    | (Inr _, w') \<Rightarrow> trace w' = trace w @ concat (map (experiment_acts config_file wait_time) [0..reps - 1]))"
  by (rule follows_cases [OF follows_experiments])

subsection \<open>A client after the replicas\<close>

definition default_prelude :: "string list \<Rightarrow> act list" where
  "default_prelude victims = map put_act nodes @ Load_config ''../configs/remote.yaml''
     # concat (map (default_clean_acts victims) nodes)"

definition default_start_acts :: "string \<Rightarrow> act list" where
  "default_start_acts loglevel = map (default_start_act loglevel) (enumerate 0 nodes)"

definition boot :: "'e outside \<Rightarrow> string list \<Rightarrow> string \<Rightarrow> ('e, unit) io" where
  "boot out victims loglevel = block [
     put_config out,
     doio out (Load_config ''../configs/remote.yaml''),
     foreach nodes (\<lambda>n. acts_io out (default_clean_acts victims n)),
     foreach (enumerate 0 nodes) (\<lambda>p. guarded (doio out (default_start_act loglevel p)))]"

lemma boot_cases:
  "(case boot out victims loglevel w of
      (Inl e, w') \<Rightarrow> (\<exists>k. trace w' = trace w @ take k (default_prelude victims))
    | (Inr _, w') \<Rightarrow> trace w' = trace w @ default_prelude victims @ default_start_acts loglevel)"
proof -
  define pre where "pre = bind_io (put_config out) (\<lambda>_. acts_io out (Load_config ''../configs/remote.yaml''
      # concat (map (default_clean_acts victims) nodes)))"
  define m where "m = foreach (enumerate 0 nodes) (\<lambda>p. guarded (doio out (default_start_act loglevel p)))"
  have boot: "boot out victims loglevel = bind_io pre (\<lambda>_. m)"
    by (simp add: boot_def pre_def m_def foreach_acts acts_io_Cons bind_assoc)
  have f: "follows pre (default_prelude victims)"
    unfolding pre_def default_prelude_def by (rule follows_bind [OF puts.follows follows_acts])
  obtain r w1 where w1: "pre w = (r, w1)" by (cases "pre w")
  show ?thesis
  proof (cases r)
    case (Inl e)
    with follows_cases [OF f, of w] w1 show ?thesis by (simp add: boot bind_io_def)
  next
    case (Inr u)
    with follows_cases [OF f, of w] w1 have tr: "trace w1 = trace w @ default_prelude victims" by simp
    from Inr w1 have "boot out victims loglevel w = m w1" by (simp add: boot bind_io_def)
    also have "m w1 = (Inr (), snd (m w1))" unfolding m_def by (rule default_starts.run_eq)
    finally have run: "boot out victims loglevel w = (Inr (), snd (m w1))" .
    have "trace (snd (m w1)) = trace w1 @ default_start_acts loglevel"
      unfolding m_def default_start_acts_def by (rule default_starts.trace_exact)
    then show ?thesis by (simp only: run prod.case sum.case tr append.assoc)
  qed
qed

lemma boot_returns:
  assumes "\<And>e a. a \<in> set (Load_config ''../configs/remote.yaml'' # concat (map (default_clean_acts victims) nodes)) \<Longrightarrow>
    \<exists>r. fst (out e a) = Inr r"
  shows "fst (boot out victims loglevel w) = Inr ()"
proof -
  define as where "as = Load_config ''../configs/remote.yaml'' # concat (map (default_clean_acts victims) nodes)"
  define m where "m = foreach (enumerate 0 nodes) (\<lambda>p. guarded (doio out (default_start_act loglevel p)))"
  have "boot out victims loglevel = bind_io (put_config out) (\<lambda>_. bind_io (acts_io out as) (\<lambda>_. m))"
    by (simp add: boot_def m_def as_def foreach_acts acts_io_Cons bind_assoc)
  then have boot: "boot out victims loglevel w = bind_io (acts_io out as) (\<lambda>_. m) (snd (put_config out w))"
    by (simp only: puts.run_then)
  have "fst (acts_io out as u) = Inr ()" for u
    unfolding as_def by (rule acts_io_succeeds) (rule assms)
  moreover have "fst (m u) = Inr ()" for u unfolding m_def by (rule default_starts.never_raises)
  ultimately show ?thesis unfolding boot bind_io_def by (simp split: prod.split sum.split) (metis fst_conv sum.distinct(1))
qed

lemma start_remote_default_boot: "start_remote_default out = boot out [''leader_election'', ''client''] ''0''"
  by (simp only: start_remote_default_def boot_def)

lemma with_client_boot:
  "start_remote_default_with_client out leaderId serverPort sendMode v =
     bind_io (boot out [''leader_election''] ''1'') (\<lambda>_. block [
       bind_io (from_res (index_arg bind_ips leaderId)) (\<lambda>server.
       bind_io (ask_int out (Randint 1 9999)) (\<lambda>cid.
         doio out (Run_async (host (hd nodes))
           (default_client_cmd server serverPort sendMode v cid (bind_ips ! (length nodes - 1)))))),
       doio out (Sleep 100)])"
  unfolding start_remote_default_with_client_def boot_def block_append [symmetric] by (simp only: append.simps)

text \<open>
  called from the command line, where the leader id is a string, \<open>start_remote_default_with_client\<close>
  always fails without starting a client: with a TypeError after all replicas were started, unless
  the preparation of a node had failed before.
\<close>

theorem with_client_string_id:
  "(case start_remote_default_with_client out (Str_arg s) serverPort sendMode v w of
      (Inl e, w') \<Rightarrow>
        (e = TypeError \<and> trace w' = trace w @ default_prelude [''leader_election''] @ default_start_acts ''1'')
        \<or> (\<exists>k. trace w' = trace w @ take k (default_prelude [''leader_election'']))
    | (Inr _, w') \<Rightarrow> False)"
proof -
  obtain r w1 where w1: "boot out [''leader_election''] ''1'' w = (r, w1)" by (cases "boot out [''leader_election''] ''1'' w")
  show ?thesis
  proof (cases r)
    case (Inl e)
    with w1 boot_cases [where out = out and victims = "[''leader_election'']" and loglevel = "''1''" and w = w] show ?thesis
      unfolding with_client_boot by (simp add: bind_io_def)
  next
    case (Inr u)
    with w1 boot_cases [where out = out and victims = "[''leader_election'']" and loglevel = "''1''" and w = w] show ?thesis
      unfolding with_client_boot by (simp add: bind_io_def from_res_def index_arg_def)
  qed
qed

end
