(* ===== verification/Local_Tasks.thy ===== *)
theory Local_Tasks
  imports Tasks
begin

text \<open>
  The tasks of \<open>scripts/tasks.py\<close> that manage processes on the local machine through the global
  dictionary \<open>processes\<close>: \<open>start\<close>, \<open>stop\<close>, \<open>restart\<close>, \<open>status\<close>, \<open>start_client\<close>,
  \<open>start_clients\<close> and \<open>overhead_exp\<close>. Opening a log file and starting the process that writes
  to it are one action, \<^const>\<open>Popen\<close>.
\<close>

subsection \<open>The tasks\<close>

definition set_proc :: "pkey \<Rightarrow> int \<Rightarrow> ('e, unit) io" where
  "set_proc k pid w = (Inr (), w\<lparr>procs := AList.update k pid (procs w)\<rparr>)"

definition clear_procs :: "('e, unit) io" where
  "clear_procs w = (Inr (), w\<lparr>procs := []\<rparr>)"

definition replica_cmd :: "nat \<Rightarrow> string list" where
  "replica_cmd i = [''../bazel-bin/leader_election'', ''--config=../configs/local.yaml'',
     ''--replicaId='' @ num i, ''--minloglevel=3'']"

definition replica_popen :: "nat \<Rightarrow> act" where
  "replica_popen i = Popen (replica_cmd i) (''logs/node_'' @ num i @ ''.log'')"

definition start_replica :: "'e outside \<Rightarrow> nat \<Rightarrow> ('e, unit) io" where
  "start_replica out i = bind_io (ask_int out (replica_popen i)) (set_proc (Replica (int i)))"

definition start :: "'e outside \<Rightarrow> ('e, unit) io" where
  "start out = bind_io (ask_flag out (Isfile ''../bazel-bin/leader_election'')) (\<lambda>built.
     if \<not> built then raise_io (SystemExit ''1'')
     else bind_io (ask_paths out (Load_config ''../configs/local.yaml'')) (\<lambda>replica_ips. block [
       doio out (System ''rm -f logs/*''),
       doio out (Sleep 5),
       doio out (Mkdirs ''logs''),
       foreach [0..<length replica_ips] (start_replica out)]))"

definition stop :: "'e outside \<Rightarrow> ('e, unit) io" where
  "stop out w = (if procs w = [] then (Inr (), w)
     else bind_io (foreach (procs w) (\<lambda>p. guarded (doio out (Killpg (snd p))))) (\<lambda>_. clear_procs) w)"

definition restart :: "'e outside \<Rightarrow> ('e, unit) io" where
  "restart out = block [stop out, start out]"

text \<open>\<open>status\<close> polls every process; its answers are only printed.\<close>

definition status :: "'e outside \<Rightarrow> ('e, unit) io" where
  "status out w = foreach (procs w) (\<lambda>p. doio out (Poll (snd p))) w"

definition client_popen :: "string list \<Rightarrow> string \<Rightarrow> act" where
  "client_popen args log_name = Popen (''../bazel-bin/client'' # args) (''logs/'' @ log_name @ ''.log'')"

definition start_client :: "'e outside \<Rightarrow> string \<Rightarrow> string \<Rightarrow> string \<Rightarrow> string \<Rightarrow> string \<Rightarrow> ('e, unit) io" where
  "start_client out serverIp serverPort v bindIp log_suffix =
     bind_io (ask_int out (Randint 1 9999)) (\<lambda>client_id. block [
       doio out (Mkdirs ''logs''),
       guarded (bind_io (ask_int out (client_popen [serverIp, serverPort, ''maxcap'', v, show_int client_id, bindIp] log_suffix))
         (set_proc (Client ''client'')))])"

definition client_ids :: "int list" where "client_ids = [123, 456, 789, 1011]"

definition start_clients :: "'e outside \<Rightarrow> string \<Rightarrow> string \<Rightarrow> string \<Rightarrow> ('e, unit) io" where
  "start_clients out serverIp serverPort v = block [
     doio out (Mkdirs ''logs''),
     foreach [1..<5] (\<lambda>i. guarded (bind_io
       (ask_int out (client_popen [serverIp, serverPort, ''maxcap'', v, show_int (client_ids ! (i - 1))] (''client_'' @ num i)))
       (set_proc (Client (''client_'' @ num i)))))]"

definition overhead_exp :: "'e outside \<Rightarrow> string \<Rightarrow> string \<Rightarrow> string \<Rightarrow> string \<Rightarrow> string \<Rightarrow> ('e, unit) io" where
  "overhead_exp out serverIp serverPort v bindIp bindIpTwo = block [
     start out,
     doio out (Sleep 6),
     start_client out serverIp serverPort v bindIp ''client'',
     doio out (Sleep 180)]"

subsection \<open>Stopping\<close>

definition kill_acts :: "(pkey, int) dict \<Rightarrow> act list" where
  "kill_acts ps = map (\<lambda>p. Killpg (snd p)) ps"

lemma stop_run: "fst (stop out w) = Inr () \<and> trace (snd (stop out w)) = trace w @ kill_acts (procs w) \<and> procs (snd (stop out w)) = []"
proof (cases "procs w = []")
  case False
  let ?m = "foreach (procs w) (\<lambda>p. guarded (doio out (Killpg (snd p))))"
  have m: "?m w = (Inr (), snd (?m w))" using foreach_guarded [of "procs w" out "\<lambda>p. Killpg (snd p)" w]
    by (cases "?m w") simp
  have "stop out w = clear_procs (snd (?m w))"
    unfolding stop_def using False by (simp add: bind_io_def) (subst m, simp)
  moreover have "trace (snd (?m w)) = trace w @ kill_acts (procs w)"
    using foreach_guarded [of "procs w" out "\<lambda>p. Killpg (snd p)" w] by (simp add: kill_acts_def)
  ultimately show ?thesis by (simp add: clear_procs_def)
qed (simp add: stop_def kill_acts_def)

text \<open>
  \<open>stop\<close> never raises, sends the signal to every registered process in order even when some of them
  cannot be signalled, and leaves no process registered.
\<close>

theorem stop_signals_all:
  "stop out w = (Inr (), snd (stop out w)) \<and> trace (snd (stop out w)) = trace w @ map (\<lambda>p. Killpg (snd p)) (procs w)
   \<and> procs (snd (stop out w)) = []"
  using stop_run [of out w] by (cases "stop out w") (simp add: kill_acts_def)

subsection \<open>Starting\<close>

lemma start_replica_run:
  "trace (snd (start_replica out i w)) = trace w @ [replica_popen i]
   \<and> (case fst (start_replica out i w) of
        Inr _ \<Rightarrow> (\<exists>pid. procs (snd (start_replica out i w)) = AList.update (Replica (int i)) pid (procs w))
      | Inl _ \<Rightarrow> procs (snd (start_replica out i w)) = procs w)"
  by (auto simp: start_replica_def bind_io_def ask_int_cases set_proc_def split: sum.splits reply.splits)

lemma start_replicas_run:
  "(case foreach is (start_replica out) w of
      (Inr _, w') \<Rightarrow> trace w' = trace w @ map replica_popen is
         \<and> (\<exists>pids. length pids = length is \<and> procs w' = foldl (\<lambda>d p. AList.update (fst p) (snd p) d) (procs w)
              (zip (map (\<lambda>i. Replica (int i)) is) pids))
    | (Inl _, w') \<Rightarrow> (\<exists>k. trace w' = trace w @ take k (map replica_popen is)))"
proof (induction "is" arbitrary: w)
  case Nil
  then show ?case by (simp add: return_io_def)
next
  case (Cons i "is")
  obtain r w1 where s: "start_replica out i w = (r, w1)" by (cases "start_replica out i w")
  show ?case
  proof (cases r)
    case (Inl e)
    with s start_replica_run [of out i w] show ?thesis
      by (auto simp: bind_io_def intro!: exI [of _ 1])
  next
    case (Inr u)
    with s start_replica_run [of out i w] obtain pid where
      w1: "trace w1 = trace w @ [replica_popen i]" "procs w1 = AList.update (Replica (int i)) pid (procs w)" by auto
    obtain r2 w2 where m: "foreach is (start_replica out) w1 = (r2, w2)" by (cases "foreach is (start_replica out) w1")
    show ?thesis
    proof (cases r2)
      case (Inl e)
      with Cons.IH [of w1] m obtain k where "trace w2 = trace w1 @ take k (map replica_popen is)" by auto
      with s Inr m Inl w1 show ?thesis by (auto simp: bind_io_def intro!: exI [of _ "Suc k"])
    next
      case Inr2: (Inr u2)
      with Cons.IH [of w1] m obtain pids where "trace w2 = trace w1 @ map replica_popen is" "length pids = length is"
        "procs w2 = foldl (\<lambda>d p. AList.update (fst p) (snd p) d) (procs w1) (zip (map (\<lambda>i. Replica (int i)) is) pids)" by auto
      with s Inr m Inr2 w1 show ?thesis by (auto simp: bind_io_def intro!: exI [of _ "pid # pids"])
    qed
  qed
qed

text \<open>Until the replicas are started, \<open>start\<close> asks two questions and clears the logs.\<close>

definition start_local_prelude :: "act list" where
  "start_local_prelude = [Isfile ''../bazel-bin/leader_election'', Load_config ''../configs/local.yaml'',
     System ''rm -f logs/*'', Sleep 5, Mkdirs ''logs'']"

lemma ask_world: "snd (ask_flag out a w) = after out a w" "snd (ask_paths out a w) = after out a w"
  by (cases "out (env w) a";
      auto simp: ask_flag_def ask_paths_def bind_io_def perform_def return_io_def raise_io_def after_def
        split: sum.splits reply.splits)+

lemma start_block_run:
  "(case block [doio out (System ''rm -f logs/*''), doio out (Sleep 5), doio out (Mkdirs ''logs''),
       foreach [0..<n] (start_replica out)] w of
      (Inr _, w') \<Rightarrow> trace w' = trace w @ drop 2 start_local_prelude @ map replica_popen [0..<n]
         \<and> (\<exists>pids. length pids = n \<and> procs w' = foldl (\<lambda>d p. AList.update (fst p) (snd p) d) (procs w)
              (zip (map (\<lambda>i. Replica (int i)) [0..<n]) pids))
    | (Inl _, w') \<Rightarrow> (\<exists>rest. trace w' = trace w @ rest))"
proof -
  define pre where "pre = acts_io out [System ''rm -f logs/*'', Sleep 5, Mkdirs ''logs'']"
  have eq: "block [doio out (System ''rm -f logs/*''), doio out (Sleep 5), doio out (Mkdirs ''logs''),
       foreach [0..<n] (start_replica out)] = bind_io pre (\<lambda>_. foreach [0..<n] (start_replica out))"
    by (simp add: pre_def acts_io_def bind_assoc)
  obtain r w1 where pre: "pre w = (r, w1)" by (cases "pre w")
  from acts_io_run [of "[System ''rm -f logs/*'', Sleep 5, Mkdirs ''logs'']" out w] pre obtain k where
    k: "trace w1 = trace w @ take k [System ''rm -f logs/*'', Sleep 5, Mkdirs ''logs'']" "procs w1 = procs w"
      "r = Inr () \<longrightarrow> k = length [System ''rm -f logs/*'', Sleep 5, Mkdirs ''logs'']"
    unfolding pre_def [symmetric] by auto
  show ?thesis
  proof (cases r)
    case (Inl e)
    with pre k(1) show ?thesis unfolding eq by (auto simp: bind_io_def)
  next
    case (Inr u)
    then have w1: "trace w1 = trace w @ drop 2 start_local_prelude"
      using k(1,3) by (simp add: start_local_prelude_def)
    from Inr pre have run: "bind_io pre (\<lambda>_. foreach [0..<n] (start_replica out)) w = foreach [0..<n] (start_replica out) w1"
      by (simp add: bind_io_def)
    show ?thesis unfolding eq run
      using start_replicas_run [where ?is = "[0..<n]" and out = out and w = w1] k(2) w1
      by (cases "foreach [0..<n] (start_replica out) w1") (auto split: sum.splits)
  qed
qed

lemma start_run:
  "(case start out w of
      (Inr _, w') \<Rightarrow> (\<exists>n pids. trace w' = trace w @ start_local_prelude @ map replica_popen [0..<n] \<and> length pids = n
         \<and> procs w' = foldl (\<lambda>d p. AList.update (fst p) (snd p) d) (procs w) (zip (map (\<lambda>i. Replica (int i)) [0..<n]) pids))
    | (Inl _, w') \<Rightarrow> (\<exists>rest. trace w' = trace w @ rest))"
proof -
  let ?w1 = "after out (Isfile ''../bazel-bin/leader_election'') w"
  let ?w2 = "after out (Load_config ''../configs/local.yaml'') ?w1"
  let ?b = "\<lambda>n. block [doio out (System ''rm -f logs/*''), doio out (Sleep 5), doio out (Mkdirs ''logs''),
       foreach [0..<n] (start_replica out)] ?w2"
  obtain r1 where q1: "ask_flag out (Isfile ''../bazel-bin/leader_election'') w = (r1, ?w1)"
    using ask_world(1) by (metis prod.collapse)
  obtain r2 where q2: "ask_paths out (Load_config ''../configs/local.yaml'') ?w1 = (r2, ?w2)"
    using ask_world(2) by (metis prod.collapse)
  consider e where "start out w = (Inl e, ?w1)" | e where "start out w = (Inl e, ?w2)" | n where "start out w = ?b n"
    by (cases r1; cases r2; cases "projr r1") (simp_all add: start_def bind_io_def q1 q2 raise_io_def)
  then show ?thesis
  proof cases
    case (3 n)
    have pre: "trace ?w2 @ drop 2 start_local_prelude = trace w @ start_local_prelude"
      by (simp add: start_local_prelude_def)
    show ?thesis unfolding 3 using start_block_run [where out = out and n = n and w = ?w2] pre
      by (cases "?b n") (force split: sum.splits)
  qed auto
qed

text \<open>
  \<open>restart\<close> signals every process registered before, whatever happens next. When it returns, it has
  started replicas 0, 1, ... in order, as many as the configuration names, and exactly these are
  registered.
\<close>

theorem restart_replaces:
  "(case restart out w of
      (Inl e, w') \<Rightarrow> (\<exists>rest. trace w' = trace w @ map (\<lambda>p. Killpg (snd p)) (procs w) @ rest)
    | (Inr _, w') \<Rightarrow> (\<exists>n. trace w' = trace w @ map (\<lambda>p. Killpg (snd p)) (procs w) @ start_local_prelude @ map replica_popen [0..<n]
         \<and> dict_keys (procs w') = map (\<lambda>i. Replica (int i)) [0..<n]))"
proof -
  let ?w1 = "snd (stop out w)"
  have stop: "stop out w = (Inr (), ?w1)" "trace ?w1 = trace w @ map (\<lambda>p. Killpg (snd p)) (procs w)" "procs ?w1 = []"
    using stop_run [of out w] by (cases "stop out w", simp_all add: kill_acts_def)
  have run: "restart out w = start out ?w1"
    unfolding restart_def by (simp add: bind_io_def) (subst stop(1), simp)
  have keys: "dict_keys (foldl (\<lambda>d p. AList.update (fst p) (snd p) d) [] (zip (map (\<lambda>i. Replica (int i)) [0..<n]) pids)) =
      map (\<lambda>i. Replica (int i)) [0..<n]" if "length pids = n" for n and pids :: "int list"
  proof -
    have "distinct (map fst ([] @ zip (map (\<lambda>i. Replica (int i)) [0..<n]) pids))"
      using that by (simp add: map_fst_zip distinct_map inj_on_def)
    from foldl_update_distinct [OF this] that show ?thesis by (simp add: dict_keys_def map_fst_zip)
  qed
  show ?thesis unfolding run
    using start_run [where out = out and w = ?w1] stop(2,3) keys
    by (cases "start out ?w1") (force split: sum.splits)
qed

end
