(* ===== verification/Batch_Tasks.thy ===== *)
theory Batch_Tasks
  imports Tasks
begin

text \<open>
  The tasks of \<open>scripts/tasks.py\<close> that run clients or analysers on all nodes and bring the results
  together: \<open>start_clients_remote\<close>, \<open>start_clients_remote_collect\<close>, \<open>sum_remote_timeouts\<close>,
  \<open>sum_remote_detect\<close>, \<open>test_petition\<close> and the batches built on them. \<open>REMOTE_BASE\<close> is bound
  three times in the module; a task sees the last binding, while \<open>REMOTE_THP\<close> was built from the
  first.
\<close>

subsection \<open>Names\<close>

definition REMOTE_BASE :: string where "REMOTE_BASE = ''/users/PeterYao/frugal-leader-election''"
definition SCRIPT_DIR :: string where "SCRIPT_DIR = REMOTE_BASE @ ''/scripts''"
definition REMOTE_DETECT :: string where "REMOTE_DETECT = SCRIPT_DIR @ ''/remote_detect_stats.py''"
definition REMOTE_COUNT :: string where "REMOTE_COUNT = ''remote_count_timeouts.py''"
definition REMOTE_THP :: string where "REMOTE_THP = ''~/frugal-leader-election/scripts/remote_thp_summary.py''"
definition LOCAL_MERGE :: string where "LOCAL_MERGE = ''merge_thp_summaries.py''"

abbreviation five :: "(nat \<times> node) list" where "five \<equiv> enumerate 0 (take 5 nodes)"

text \<open>\<open>bind_ips[int(leaderId)]\<close>.\<close>

definition server_of :: "string \<Rightarrow> string res" where
  "server_of leaderId = bind_res (py_int leaderId) (py_index bind_ips)"

definition random_ids :: "'e outside \<Rightarrow> ('e, int list) io" where
  "random_ids out = map_io (\<lambda>_. ask_int out (Randint 1 9999)) [0..<5]"

definition client_cmd :: "string \<Rightarrow> string \<Rightarrow> string \<Rightarrow> string \<Rightarrow> int \<Rightarrow> nat \<Rightarrow> string" where
  "client_cmd base server serverPort v cid i = ''cd '' @ base @ '' && nohup bazel-bin/client '' @ server @ '' '' @ serverPort
     @ '' maxcap '' @ v @ '' '' @ show_int cid @ '' '' @ bind_ips ! i @ '' > client_remote.log 2>&1 &''"

definition launch_acts :: "string \<Rightarrow> string \<Rightarrow> string \<Rightarrow> string \<Rightarrow> int list \<Rightarrow> nat \<times> node \<Rightarrow> act list" where
  "launch_acts base server serverPort v ids p = [Sudo_warn (host (snd p)) ''killall client'',
     Run_async (host (snd p)) (client_cmd base server serverPort v (ids ! fst p) (fst p))]"

definition launch_clients :: "'e outside \<Rightarrow> string \<Rightarrow> string \<Rightarrow> string \<Rightarrow> string \<Rightarrow> int list \<Rightarrow> ('e, unit) io" where
  "launch_clients out base server serverPort v ids =
     foreach five (\<lambda>p. guarded (acts_io out (launch_acts base server serverPort v ids p)))"

definition move_all :: "'e outside \<Rightarrow> string \<Rightarrow> string list \<Rightarrow> ('e, unit) io" where
  "move_all out folder fs = foreach fs (\<lambda>f. guarded (doio out (Move f (folder @ ''/'' @ f))))"

subsection \<open>start_client_remote and start_clients_remote\<close>

definition start_client_remote :: "'e outside \<Rightarrow> string \<Rightarrow> string \<Rightarrow> string \<Rightarrow> string \<Rightarrow> string \<Rightarrow> ('e, unit) io" where
  "start_client_remote out remoteHostId serverIp serverPort v bindIp =
     bind_io (from_res (bind_res (py_int remoteHostId) (py_index nodes))) (\<lambda>n.
       guarded (acts_io out [Sudo_warn (host n) ''killall client'',
         Run_async (host n) (''cd frugal-leader-election && nohup bazel-bin/client '' @ serverIp @ '' '' @ serverPort
           @ '' maxcap '' @ v @ '' 316 '' @ bindIp @ ''> client.log 2>&1 &''),
         Sleep 100,
         Run_warn (host n) ''killall client'']))"

definition start_clients_remote :: "'e outside \<Rightarrow> string \<Rightarrow> string \<Rightarrow> string \<Rightarrow> ('e, unit) io" where
  "start_clients_remote out leaderId serverPort v =
     bind_io (random_ids out) (\<lambda>ids.
     bind_io (from_res (server_of leaderId)) (\<lambda>server. block [
       launch_clients out ''frugal-leader-election'' server serverPort v ids,
       doio out (Sleep 200),
       foreach nodes (\<lambda>n. guarded (doio out (Sudo_async (host n) ''killall client''))),
       foreach five (\<lambda>p. guarded (acts_io out (get_result_acts
         ''cd ~/frugal-leader-election && python3 scripts/analyze_resp_time.py client_remote.log > result.txt 2>&1'' p))),
       guarded (doio out (Call [''python3'', ''sum_all_clients.py''])),
       bind_io (ask_text out Now) (\<lambda>current_time.
         let folder = ''leader'' @ leaderId @ ''_'' @ current_time in block [
           doio out (Mkdirs folder),
           bind_io (ask_paths out (Glob ''client_remote_*.log'')) (move_all out folder)])]))"

subsection \<open>The throughput experiments\<close>

definition kill_clients :: "'e outside \<Rightarrow> string \<Rightarrow> ('e, unit) io" where
  "kill_clients out victims = foreach (take 5 nodes) (\<lambda>n. guarded (doio out (Sudo_async (host n) (''killall '' @ victims))))"

definition summarize :: "'e outside \<Rightarrow> ('e, unit) io" where
  "summarize out = foreach (take 5 nodes) (\<lambda>n. guarded (doio out (Run (host n)
     (''cd '' @ REMOTE_BASE @ '' && python3 '' @ REMOTE_THP @ '' client_remote.log --out thp_summary.csv''))))"

definition pull_act :: "nat \<times> node \<Rightarrow> act" where
  "pull_act p = Get (host (snd p)) ''/users/PeterYao/frugal-leader-election/thp_summary.csv'' (''thp_'' @ num (fst p) @ ''.csv'')"

definition pull_summaries :: "'e outside \<Rightarrow> ('e, unit) io" where
  "pull_summaries out = foreach five (\<lambda>p. guarded (doio out (pull_act p)))"

text \<open>Only a failing exit code of the merge script (\<open>CalledProcessError\<close>) is caught.\<close>

definition called_error :: py_error where "called_error = RemoteError ''CalledProcessError''"

definition try_called :: "('e, unit) io \<Rightarrow> ('e, unit) io" where
  "try_called m w = (case m w of
       (Inl e, w') \<Rightarrow> (if e = called_error then (Inr (), w') else (Inl e, w'))
     | (Inr x, w') \<Rightarrow> (Inr x, w'))"

definition merge_summaries :: "'e outside \<Rightarrow> ('e, unit) io" where
  "merge_summaries out = bind_io (ask_paths out (Glob ''thp_*.csv'')) (\<lambda>fs.
     if sort fs = [] then return_io ()
     else try_called (doio out (Call ([''python3'', LOCAL_MERGE] @ sort fs
       @ [''--plot'', ''combined_throughput.png'', ''--csv'', ''combined_throughput.csv'']))))"

definition archive_thp :: "'e outside \<Rightarrow> string \<Rightarrow> ('e, unit) io" where
  "archive_thp out folder = block [
     doio out (Mkdirs folder),
     bind_io (ask_paths out (Glob ''client_remote_*.log'')) (\<lambda>logs.
     bind_io (ask_paths out (Glob ''thp_*.csv'')) (\<lambda>csvs. move_all out folder (logs @ csvs))),
     foreach [''combined_throughput.png'', ''combined_throughput.csv''] (\<lambda>f.
       bind_io (ask_flag out (Exists f)) (\<lambda>b.
         if b then guarded (doio out (Move f (folder @ ''/'' @ f))) else return_io ()))]"

definition start_clients_remote_collect :: "'e outside \<Rightarrow> string \<Rightarrow> string \<Rightarrow> string \<Rightarrow> string \<Rightarrow> int \<Rightarrow> ('e, unit) io" where
  "start_clients_remote_collect out leaderId serverPort v logSuffix run_seconds =
     bind_io (from_res (server_of leaderId)) (\<lambda>server.
     bind_io (random_ids out) (\<lambda>ids. block [
       launch_clients out REMOTE_BASE server serverPort v ids,
       doio out (Sleep run_seconds),
       kill_clients out ''client'',
       summarize out,
       pull_summaries out,
       merge_summaries out,
       bind_io (ask_text out Now) (\<lambda>now. archive_thp out (''leader'' @ leaderId @ ''_'' @ now @ logSuffix))]))"

definition batch_experiments_motivation :: "'e outside \<Rightarrow> string \<Rightarrow> string \<Rightarrow> string \<Rightarrow> int \<Rightarrow> ('e, unit) io" where
  "batch_experiments_motivation out leaderId serverPort v runs =
     foreach [1..runs] (\<lambda>i. block [
       start_remote_default out,
       start_clients_remote_collect out leaderId serverPort v ''raft'' 150])"

definition netem_cmd :: "string \<Rightarrow> string" where
  "netem_cmd d = ''sudo tc qdisc del dev enp65s0f0np0 root || true ; sudo tc qdisc add dev enp65s0f0np0 root netem delay '' @ d"

definition test_petition :: "'e outside \<Rightarrow> string \<Rightarrow> string \<Rightarrow> string \<Rightarrow> ('e, unit) io" where
  "test_petition out leaderId serverPort v = block [
     doio out (Run_warn (host (nodes ! 3)) (netem_cmd ''0.5ms'')),
     start_remote_default out,
     bind_io (from_res (server_of leaderId)) (\<lambda>server.
     bind_io (random_ids out) (\<lambda>ids. block [
       launch_clients out REMOTE_BASE server serverPort v ids,
       doio out (Sleep 55),
       doio out (Run_warn (host (nodes ! 3)) (netem_cmd ''12ms'')),
       doio out (Run_warn (host (nodes ! 3)) ''sudo tc qdis show dev enp65s0f0np0''),
       doio out (Sleep 120),
       kill_clients out ''client leader_election'',
       summarize out,
       pull_summaries out,
       merge_summaries out,
       bind_io (ask_text out Now) (\<lambda>now. archive_thp out (''petition_'' @ now))]))]"

subsection \<open>sum_remote_timeouts\<close>

definition count_act :: "int \<Rightarrow> int \<Rightarrow> nat \<times> node \<Rightarrow> act" where
  "count_act skip_first skip_last p = Run (host (snd p))
     (''cd /users/PeterYao/frugal-leader-election/scripts && python3 '' @ REMOTE_COUNT @ '' logs/node_'' @ num (fst p + 1)
      @ ''.log --skip-first '' @ show_int skip_first @ '' --skip-last '' @ show_int skip_last @ '' --out timeout_count.txt'')"

definition fetch_act :: "nat \<times> node \<Rightarrow> act" where
  "fetch_act p = Get (host (snd p)) ''/users/PeterYao/frugal-leader-election/scripts/timeout_count.txt''
     (''timeout_'' @ num (fst p) @ ''.txt'')"

definition fetch_count :: "'e outside \<Rightarrow> int list \<Rightarrow> nat \<times> node \<Rightarrow> ('e, int list) io" where
  "fetch_count out totals p = try_io (
     bind_io (doio out (fetch_act p)) (\<lambda>_.
     bind_io (ask_text out (Read_file (''timeout_'' @ num (fst p) @ ''.txt''))) (\<lambda>s.
     bind_io (from_res (py_int (strip s))) (\<lambda>val. return_io (totals @ [val]))))) totals"

text \<open>The result of the model is the grand total, which the task prints and writes to a file.\<close>

definition collect_timeouts :: "'e outside \<Rightarrow> string \<Rightarrow> ('e, int) io" where
  "collect_timeouts out sfx =
     bind_io (fold_io (fetch_count out) five []) (\<lambda>totals.
     let grand_total = sum_list totals in
     bind_io (doio out (Write_file ''total_timeouts.txt'' (show_int grand_total @ [newline]))) (\<lambda>_.
     bind_io (ask_text out Now) (\<lambda>now.
     let folder = ''timeouts_'' @ now @ sfx in
     bind_io (doio out (Mkdirs folder)) (\<lambda>_.
     bind_io (ask_paths out (Glob ''timeout_*.txt'')) (\<lambda>fs.
     bind_io (move_all out folder (fs @ [''total_timeouts.txt''])) (\<lambda>_. return_io grand_total))))))"

definition sum_remote_timeouts :: "'e outside \<Rightarrow> int \<Rightarrow> int \<Rightarrow> string \<Rightarrow> ('e, int) io" where
  "sum_remote_timeouts out skip_first skip_last sfx =
     bind_io (start_remote_default out) (\<lambda>_.
     bind_io (doio out (Sleep 504)) (\<lambda>_.
     bind_io (foreach five (\<lambda>p. guarded (doio out (count_act skip_first skip_last p)))) (\<lambda>_.
     collect_timeouts out sfx)))"

subsection \<open>sum_remote_detect\<close>

definition stats_act :: "int \<Rightarrow> int \<Rightarrow> nat \<times> node \<Rightarrow> act" where
  "stats_act skip_first skip_last p = Run (host (snd p))
     (''cd '' @ SCRIPT_DIR @ '' && python3 '' @ REMOTE_DETECT @ '' logs/node_'' @ num (fst p + 1)
      @ ''.log --skip-first '' @ show_int skip_first @ '' --skip-last '' @ show_int skip_last @ '' --out detect_stats.txt'')"

text \<open>\<open>float\<close> of a signed decimal; exponents, \<open>inf\<close> and \<open>nan\<close> are not written by the analyser.\<close>

definition py_float :: "string \<Rightarrow> real res" where
  "py_float s = (case s of
       [] \<Rightarrow> Inl ValueError
     | c # t \<Rightarrow> if c = CHR ''-'' then bind_res (float_number t) (\<lambda>x. Inr (- x))
         else if c = CHR ''+'' then float_number t else float_number s)"

definition trunc_int :: "real \<Rightarrow> int" where
  "trunc_int x = (if 0 \<le> x then \<lfloor>x\<rfloor> else \<lceil>x\<rceil>)"

definition parse_stats :: "string \<Rightarrow> (int \<times> real \<times> real) res" where
  "parse_stats s = (case split_ws s of
       [a, b, c] \<Rightarrow> bind_res (py_float a) (\<lambda>cnt. bind_res (py_float b) (\<lambda>m. bind_res (py_float c) (\<lambda>sd.
         Inr (trunc_int cnt, m, sd))))
     | _ \<Rightarrow> Inl ValueError)"

definition fetch_stats :: "'e outside \<Rightarrow> (int \<times> real \<times> real) list \<Rightarrow> nat \<times> node \<Rightarrow> ('e, (int \<times> real \<times> real) list) io" where
  "fetch_stats out per_node p = try_io (
     bind_io (doio out (Get (host (snd p)) (SCRIPT_DIR @ ''/detect_stats.txt'') (''detect_'' @ num (fst p) @ ''.txt''))) (\<lambda>_.
     bind_io (ask_text out (Read_file (''detect_'' @ num (fst p) @ ''.txt''))) (\<lambda>s.
     bind_io (from_res (parse_stats s)) (\<lambda>t. return_io (per_node @ [t]))))) per_node"

text \<open>Sample count, weighted mean and weighted deviation; \<open>None\<close> when no node has samples.\<close>

definition weighted_stats :: "(int \<times> real \<times> real) list \<Rightarrow> (int \<times> real \<times> real) option res" where
  "weighted_stats per_node =
     (let total_n = (\<Sum>(n, m, sd)\<leftarrow>per_node. n) in
      if total_n = 0 then Inr None
      else let weighted_mean = (\<Sum>(n, m, sd)\<leftarrow>per_node. real_of_int n * m) / real_of_int total_n;
               var = (\<Sum>(n, m, sd)\<leftarrow>per_node. real_of_int n * (sd\<^sup>2 + (m - weighted_mean)\<^sup>2)) / real_of_int total_n
           in if var < 0 then Inl ValueError else Inr (Some (total_n, weighted_mean, sqrt var)))"

definition sum_remote_detect :: "'e outside \<Rightarrow> int \<Rightarrow> int \<Rightarrow> string \<Rightarrow> ('e, unit) io" where
  "sum_remote_detect out skip_first skip_last log_suffix =
     bind_io (foreach five (\<lambda>p. guarded (doio out (stats_act skip_first skip_last p)))) (\<lambda>_.
     bind_io (fold_io (fetch_stats out) five []) (\<lambda>per_node.
     bind_io (from_res (weighted_stats per_node)) (\<lambda>r. case r of
       None \<Rightarrow> return_io ()
     | Some (total_n, wm, ws) \<Rightarrow>
         bind_io (doio out (Write_stats ''detect_summary.txt'' total_n wm ws)) (\<lambda>_.
         bind_io (ask_text out Now) (\<lambda>now.
         let folder = ''detect_'' @ now @ log_suffix in
         bind_io (doio out (Mkdirs folder)) (\<lambda>_.
         bind_io (ask_paths out (Glob ''detect_*.txt'')) (\<lambda>fs.
         move_all out folder (fs @ [''detect_summary.txt'']))))))))"

definition batch_sum_remote_detect :: "'e outside \<Rightarrow> ('e, unit) io" where
  "batch_sum_remote_detect out = foreach [1..<2] (\<lambda>i. block [
     start_remote_default out,
     doio out (Sleep 305),
     sum_remote_detect out 30 30 (num i)])"

definition batch_sum_remote_timeouts :: "'e outside \<Rightarrow> ('e, unit) io" where
  "batch_sum_remote_timeouts out = foreach [0..<2] (\<lambda>i. block [
     bind_io (sum_remote_timeouts out 30 30 (''raft_'' @ num i)) (\<lambda>_. return_io ()),
     sum_remote_detect out 30 30 (num i)])"

subsection \<open>Weighted statistics are those of all samples\<close>

definition stats_of :: "real list \<Rightarrow> int \<times> real \<times> real" where
  "stats_of xs = (int (length xs), mean_of xs, pstdev xs)"

text \<open>
  C7: combining the per-node counts, means and population deviations as \<open>sum_remote_detect\<close> does
  gives exactly the count, mean and population deviation of the samples of all nodes together.
\<close>

theorem weighted_stats_pooled:
  "weighted_stats (map stats_of xss) = Inr (if concat xss = [] then None else Some (stats_of (concat xss)))"
proof -
  have n: "(\<Sum>(n, m, sd)\<leftarrow>map stats_of xss. n) = int (length (concat xss))"
    by (induction xss) (auto simp: stats_of_def)
  have m: "(\<Sum>(n, m, sd)\<leftarrow>map stats_of xss. real_of_int n * m) = (\<Sum>xs\<leftarrow>xss. real (length xs) * mean_of xs)"
    by (simp add: stats_of_def o_def)
  have v: "(\<Sum>(n, m, sd)\<leftarrow>map stats_of xss. real_of_int n * (sd\<^sup>2 + (m - c)\<^sup>2)) =
      (\<Sum>xs\<leftarrow>xss. real (length xs) * ((pstdev xs)\<^sup>2 + (mean_of xs - c)\<^sup>2))" for c
    by (simp add: stats_of_def o_def)
  have neg: "\<not> pvariance (concat xss) < 0" using pvariance_nonneg [of "concat xss"] by simp
  show ?thesis
    unfolding weighted_stats_def Let_def n m v of_int_of_nat_eq pooled_mean pooled_variance
    using neg by (auto simp: stats_of_def pstdev_def)
qed

subsection \<open>The total of the timeout counts\<close>

text \<open>
  What the task relies on, in the states of the outside that satisfy \<open>ok\<close> (the counting is over):
  node \<open>i\<close>'s count file either cannot be fetched (\<open>None\<close>) or is fetched, after which the local
  copy reads as its content; fetching and reading do not change that.
\<close>

definition serves :: "'e outside \<Rightarrow> ('e \<Rightarrow> bool) \<Rightarrow> (nat \<Rightarrow> string option) \<Rightarrow> bool" where
  "serves out ok files \<longleftrightarrow>
     (\<forall>e. \<forall>p \<in> set five. ok e \<longrightarrow> ok (snd (out e (fetch_act p)))
        \<and> ok (snd (out e (Read_file (''timeout_'' @ num (fst p) @ ''.txt''))))) \<and>
     (\<forall>e. \<forall>p \<in> set five. ok e \<longrightarrow> (case files (fst p) of
        None \<Rightarrow> (\<exists>msg. fst (out e (fetch_act p)) = Inl msg)
      | Some s \<Rightarrow> (\<exists>r. fst (out e (fetch_act p)) = Inr r)
          \<and> fst (out (snd (out e (fetch_act p))) (Read_file (''timeout_'' @ num (fst p) @ ''.txt''))) = Inr (Text s)))"

definition node_count :: "(nat \<Rightarrow> string option) \<Rightarrow> nat \<Rightarrow> int option" where
  "node_count files i = (case files i of None \<Rightarrow> None
     | Some s \<Rightarrow> (case py_int (strip s) of Inl _ \<Rightarrow> None | Inr v \<Rightarrow> Some v))"

lemma py_int_exception: "py_int s = Inl e \<Longrightarrow> is_exception e"
  by (auto simp: py_int_def is_exception_def Let_def split: if_splits list.splits)

lemma fetch_count_run:
  assumes "serves out ok files" "p \<in> set five" "ok (env w)"
  shows "fst (fetch_count out totals p w) = Inr (totals @ (case node_count files (fst p) of None \<Rightarrow> [] | Some v \<Rightarrow> [v]))
    \<and> ok (env (snd (fetch_count out totals p w)))"
proof -
  let ?r = "Read_file (''timeout_'' @ num (fst p) @ ''.txt'')"
  have ok: "ok (snd (out e (fetch_act p)))" "ok (snd (out e ?r))" if "ok e" for e
    using assms(1,2) that by (simp_all add: serves_def)
  show ?thesis
  proof (cases "files (fst p)")
    case None
    with assms obtain msg where "fst (out (env w) (fetch_act p)) = Inl msg" unfolding serves_def by fastforce
    then show ?thesis using None ok(1) [OF assms(3)]
      by (simp add: fetch_count_def try_io_def bind_io_def doio_cases is_exception_def node_count_def)
  next
    case (Some s)
    with assms obtain r where "fst (out (env w) (fetch_act p)) = Inr r"
      "fst (out (snd (out (env w) (fetch_act p))) ?r) = Inr (Text s)" unfolding serves_def by fastforce
    then show ?thesis using Some ok(2) [OF ok(1) [OF assms(3)]] py_int_exception [of "strip s"]
      by (cases "py_int (strip s)")
        (simp_all add: fetch_count_def try_io_def bind_io_def doio_cases ask_text_cases from_res_def return_io_def node_count_def)
  qed
qed

lemma fetch_counts_run:
  "serves out ok files \<Longrightarrow> set ps \<subseteq> set five \<Longrightarrow> ok (env w) \<Longrightarrow>
   fst (fold_io (fetch_count out) ps totals w) = Inr (totals @ List.map_filter (\<lambda>p. node_count files (fst p)) ps)
     \<and> ok (env (snd (fold_io (fetch_count out) ps totals w)))"
proof (induction ps arbitrary: totals w)
  case Nil
  then show ?case by (simp add: return_io_def map_filter_simps)
next
  case (Cons p ps)
  from fetch_count_run [of out ok files p w totals] Cons.prems obtain w1 where
    w1: "fetch_count out totals p w = (Inr (totals @ (case node_count files (fst p) of None \<Rightarrow> [] | Some v \<Rightarrow> [v])), w1)" "ok (env w1)"
    by (cases "fetch_count out totals p w") auto
  with Cons.IH [of w1 "totals @ (case node_count files (fst p) of None \<Rightarrow> [] | Some v \<Rightarrow> [v])"] Cons.prems show ?case
    by (simp add: bind_io_def map_filter_simps split: option.splits)
qed


subsection \<open>A working local machine\<close>

text \<open>
  The local actions succeed and answer with values of their kind; the merge script may fail, with the
  exception \<open>check=True\<close> raises. Nothing is said of the remote nodes.
\<close>

definition local_ok :: "'e outside \<Rightarrow> bool" where
  "local_ok out \<longleftrightarrow> (\<forall>e.
     (\<forall>n. \<exists>r. fst (out e (Sleep n)) = Inr r) \<and> (\<forall>d. \<exists>r. fst (out e (Mkdirs d)) = Inr r)
   \<and> (\<forall>f s. \<exists>r. fst (out e (Write_file f s)) = Inr r) \<and> (\<exists>s. fst (out e Now) = Inr (Text s))
   \<and> (\<forall>g. \<exists>fs. fst (out e (Glob g)) = Inr (Paths fs)) \<and> (\<forall>f. \<exists>b. fst (out e (Exists f)) = Inr (Flag b))
   \<and> (\<forall>a b. \<exists>n. fst (out e (Randint a b)) = Inr (Number n))
   \<and> (\<forall>c. fst (out e (Call c)) = Inl ''CalledProcessError'' \<or> (\<exists>r. fst (out e (Call c)) = Inr r)))"

lemma local_sleep: "local_ok out \<Longrightarrow> doio out (Sleep n) w = (Inr (), after out (Sleep n) w)"
  unfolding local_ok_def doio_cases by (metis (no_types, lifting) old.sum.simps(6))

lemma local_mkdirs: "local_ok out \<Longrightarrow> doio out (Mkdirs d) w = (Inr (), after out (Mkdirs d) w)"
  unfolding local_ok_def doio_cases by (metis (no_types, lifting) old.sum.simps(6))

lemma local_write: "local_ok out \<Longrightarrow> doio out (Write_file f s) w = (Inr (), after out (Write_file f s) w)"
  unfolding local_ok_def doio_cases by (metis (no_types, lifting) old.sum.simps(6))

lemma local_now: "local_ok out \<Longrightarrow> \<exists>s. ask_text out Now w = (Inr s, after out Now w)"
  unfolding local_ok_def ask_text_cases by (metis (no_types, lifting) old.sum.simps(6) reply.case(2))

lemma local_glob: "local_ok out \<Longrightarrow> \<exists>fs. ask_paths out (Glob g) w = (Inr fs, after out (Glob g) w)"
  unfolding local_ok_def ask_paths_cases by (metis (no_types, lifting) old.sum.simps(6) reply.case(3))

lemma local_exists: "local_ok out \<Longrightarrow> \<exists>b. ask_flag out (Exists f) w = (Inr b, after out (Exists f) w)"
  unfolding local_ok_def ask_flag_cases by (metis (no_types, lifting) old.sum.simps(6) reply.case(4))

lemma local_randint: "local_ok out \<Longrightarrow> \<exists>n. ask_int out (Randint a b) w = (Inr n, after out (Randint a b) w)"
  unfolding local_ok_def ask_int_cases by (metis (no_types, lifting) old.sum.simps(6) reply.case(5))

subsection \<open>The total is the sum of the counts\<close>

interpretation moves: safe_phase "move_all out folder fs" "map (\<lambda>f. Move f (folder @ ''/'' @ f)) fs"
  for out :: "'e outside" and folder fs
  unfolding move_all_def by (rule safe_guarded_loop)

interpretation counts: safe_phase "foreach five (\<lambda>p. guarded (doio out (count_act skip_first skip_last p)))"
    "map (count_act skip_first skip_last) five"
  for out :: "'e outside" and skip_first skip_last
  by (rule safe_guarded_loop)

definition total_count :: "(nat \<Rightarrow> string option) \<Rightarrow> int" where
  "total_count files = sum_list (List.map_filter (node_count files) [0..<5])"

lemma total_count_five: "sum_list (List.map_filter (\<lambda>p. node_count files (fst p)) five) = total_count files"
proof -
  have "List.map_filter (\<lambda>p. node_count files (fst p)) ps = List.map_filter (node_count files) (map fst ps)"
    for ps :: "(nat \<times> node) list"
    by (induction ps) (simp_all add: map_filter_simps split: option.splits)
  moreover have "map fst five = [0..<5]" by (simp add: nodes_def enumerate_eq_zip upt_rec)
  ultimately show ?thesis by (simp only: total_count_def)
qed

abbreviation total_act :: "int \<Rightarrow> act" where
  "total_act n \<equiv> Write_file ''total_timeouts.txt'' (show_int n @ [newline])"

lemma collect_timeouts_run:
  assumes "serves out ok files" "local_ok out" "ok (env w)"
  shows "\<exists>w2 pre post. collect_timeouts out sfx w = (Inr (total_count files), w2)
    \<and> trace w2 = pre @ total_act (total_count files) # post"
proof -
  obtain totals w1 where f: "fold_io (fetch_count out) five [] w = (Inr totals, w1)" "sum_list totals = total_count files"
    using fetch_counts_run [OF assms(1) order_refl assms(3), of "[]"] total_count_five [of files]
    by (cases "fold_io (fetch_count out) five [] w") auto
  let ?w2 = "after out (total_act (total_count files)) w1"
  obtain now where now: "ask_text out Now ?w2 = (Inr now, after out Now ?w2)" using local_now [OF assms(2)] by blast
  let ?folder = "''timeouts_'' @ now @ sfx"
  let ?w3 = "after out (Mkdirs ?folder) (after out Now ?w2)"
  obtain fs where fs: "ask_paths out (Glob ''timeout_*.txt'') ?w3 = (Inr fs, after out (Glob ''timeout_*.txt'') ?w3)"
    using local_glob [OF assms(2)] by blast
  define w4 where "w4 = snd (move_all out ?folder (fs @ [''total_timeouts.txt'']) (after out (Glob ''timeout_*.txt'') ?w3))"
  have m: "move_all out ?folder (fs @ [''total_timeouts.txt'']) (after out (Glob ''timeout_*.txt'') ?w3) = (Inr (), w4)"
    unfolding w4_def by (rule moves.run_eq)
  have "collect_timeouts out sfx w = (Inr (total_count files), w4)"
    unfolding collect_timeouts_def Let_def
    by (simp only: bind_io_def f prod.case sum.case local_write [OF assms(2)] now local_mkdirs [OF assms(2)] fs m return_io_def)
  moreover have "trace w4 = trace w1 @ total_act (total_count files) # [Now, Mkdirs ?folder, Glob ''timeout_*.txt'']
      @ map (\<lambda>f. Move f (?folder @ ''/'' @ f)) (fs @ [''total_timeouts.txt''])"
    by (simp only: w4_def moves.trace_exact after_simps append.assoc append.simps)
  ultimately show ?thesis by (intro exI conjI)
qed

text \<open>
  C11: once the replicas were started, and on a working local machine, \<open>sum_remote_timeouts\<close> always
  returns: whichever nodes cannot be counted, fetched or parsed, the total it prints and writes to
  \<open>total_timeouts.txt\<close> is the sum of the counts in the node files that could be fetched and parsed.
\<close>

theorem sum_remote_timeouts_total:
  assumes "serves out ok files" "local_ok out" "fst (start_remote_default out w) = Inr ()"
    and "\<And>u. ok (env (snd (foreach five (\<lambda>p. guarded (doio out (count_act skip_first skip_last p))) u)))"
  shows "fst (sum_remote_timeouts out skip_first skip_last sfx w) = Inr (total_count files)
    \<and> total_act (total_count files) \<in> set (trace (snd (sum_remote_timeouts out skip_first skip_last sfx w)))"
proof -
  let ?c = "foreach five (\<lambda>p. guarded (doio out (count_act skip_first skip_last p)))"
  obtain w1 where w1: "start_remote_default out w = (Inr (), w1)"
    using assms(3) by (cases "start_remote_default out w") simp
  let ?w2 = "after out (Sleep 504) w1"
  have "sum_remote_timeouts out skip_first skip_last sfx w = collect_timeouts out sfx (snd (?c ?w2))"
    unfolding sum_remote_timeouts_def
    by (simp only: bind_io_def [of "start_remote_default out"] w1 prod.case sum.case bind_io_def [of "doio out a" for a]
      local_sleep [OF assms(2)] counts.run_then)
  moreover obtain w4 pre post where "collect_timeouts out sfx (snd (?c ?w2)) = (Inr (total_count files), w4)"
    "trace w4 = pre @ total_act (total_count files) # post"
    using collect_timeouts_run [OF assms(1,2) assms(4) [of ?w2], of sfx] by blast
  ultimately show ?thesis by simp
qed

text \<open>
  A laboratory for the instances: its state is whether the counters have run; the first node's files cannot
  be fetched, the second node's count is not a number, and the others report seven timeouts.
\<close>

definition lab_text :: "string \<Rightarrow> string" where
  "lab_text f = (if f = ''timeout_1.txt'' then ''?'' else ''7'' @ [newline])"

definition lab :: "bool outside" where
  "lab counted a = (case a of
       Now \<Rightarrow> (Inr (Text ''20250101_120000''), counted)
     | Glob g \<Rightarrow> (Inr (Paths [g]), counted)
     | Exists f \<Rightarrow> (Inr (Flag True), counted)
     | Randint lo hi \<Rightarrow> (Inr (Number lo), counted)
     | Read_file f \<Rightarrow> (Inr (Text (lab_text f)), counted)
     | Get h src dst \<Rightarrow> ((if h = host (hd nodes) then Inl ''unreachable'' else Inr Done), counted)
     | Run h cmd \<Rightarrow> (Inr Done, True)
     | Call cmd \<Rightarrow> (Inl ''CalledProcessError'', counted)
     | _ \<Rightarrow> (Inr Done, counted))"

definition lab_files :: "nat \<Rightarrow> string option" where
  "lab_files i = (if i = 0 then None else Some (lab_text (''timeout_'' @ num i @ ''.txt'')))"

definition lab_world :: "bool world" where
  "lab_world = \<lparr>env = False, trace = [], procs = []\<rparr>"

lemma lab_local: "local_ok lab"
  by (auto simp: local_ok_def lab_def)

lemma lab_serves: "serves lab (\<lambda>c. c) lab_files"
proof -
  have "\<forall>p \<in> set five. fst p = 0 \<longleftrightarrow> host (snd p) = host (hd nodes)"
    by (simp add: nodes_def enumerate_eq_zip upt_rec)
  then show ?thesis by (auto simp: serves_def lab_def lab_files_def fetch_act_def split: option.splits)
qed

lemma lab_counted: "env (snd (foreach (p # ps) (\<lambda>p. guarded (doio lab (count_act i j p))) u))"
proof -
  have "env w \<Longrightarrow> env (snd (foreach qs (\<lambda>p. guarded (doio lab (count_act i j p))) w))" for qs :: "(nat \<times> node) list" and w
    by (induction qs arbitrary: w) (simp_all add: return_io_def bind_io_def lab_def count_act_def)
  then show ?thesis by (simp add: bind_io_def lab_def count_act_def)
qed

lemma lab_boot: "fst (start_remote_default lab lab_world) = Inr ()"
  unfolding start_remote_default_boot by (rule boot_returns) (auto simp: lab_def default_clean_acts_def)

lemma lab_total: "total_count lab_files = 21"
  by code_simp

lemma five_Cons: "\<exists>p ps. five = p # ps"
  by (simp add: nodes_def)

theorem sum_remote_timeouts_total_witness:
  "fst (sum_remote_timeouts lab 30 50 ''raft'' lab_world) = Inr 21"
proof -
  have c: "env (snd (foreach five (\<lambda>p. guarded (doio lab (count_act i j p))) u))" for i j u
    using five_Cons lab_counted by metis
  show ?thesis
    using sum_remote_timeouts_total [OF lab_serves lab_local lab_boot c, where sfx = "''raft''"] lab_total by simp
qed

subsection \<open>The throughput experiment survives its nodes\<close>

definition kill_act :: "string \<Rightarrow> node \<Rightarrow> act" where
  "kill_act victims n = Sudo_async (host n) (''killall '' @ victims)"

definition summary_act :: "node \<Rightarrow> act" where
  "summary_act n = Run (host n) (''cd '' @ REMOTE_BASE @ '' && python3 '' @ REMOTE_THP @ '' client_remote.log --out thp_summary.csv'')"

interpretation client_kills: safe_phase "kill_clients out victims" "map (kill_act victims) (take 5 nodes)"
  for out :: "'e outside" and victims
  unfolding kill_clients_def kill_act_def [abs_def] by (rule safe_guarded_loop)

interpretation summaries: safe_phase "summarize out" "map summary_act (take 5 nodes)"
  for out :: "'e outside"
  unfolding summarize_def summary_act_def [abs_def] by (rule safe_guarded_loop)

interpretation pulls: safe_phase "pull_summaries out" "map pull_act five"
  for out :: "'e outside"
  unfolding pull_summaries_def by (rule safe_guarded_loop)

lemma always_sleep: "local_ok out \<Longrightarrow> always (doio out (Sleep n)) (\<lambda>t. t = [Sleep n])"
  by (rule alwaysI) (simp add: local_sleep)

lemma returns_local:
  assumes "local_ok out"
  shows "returns (doio out (Mkdirs d))" "returns (ask_text out Now)" "returns (ask_paths out (Glob g))"
    "returns (ask_flag out (Exists f))" "returns (ask_int out (Randint lo hi))"
proof -
  show "returns (doio out (Mkdirs d))" by (rule alwaysI) (simp add: local_mkdirs [OF assms])
  show "returns (ask_text out Now)" using local_now [OF assms] by (intro alwaysI) fastforce
  show "returns (ask_paths out (Glob g))" using local_glob [OF assms] by (intro alwaysI) fastforce
  show "returns (ask_flag out (Exists f))" using local_exists [OF assms] by (intro alwaysI) fastforce
  show "returns (ask_int out (Randint lo hi))" using local_randint [OF assms] by (intro alwaysI) fastforce
qed

lemma returns_random_ids: "local_ok out \<Longrightarrow> returns (random_ids out)"
  unfolding random_ids_def by (rule returns_map_io) (rule returns_local)

lemma returns_call: "local_ok out \<Longrightarrow> returns (try_called (doio out (Call c)))"
proof (rule alwaysI)
  fix w :: "'a world"
  assume "local_ok out"
  then have "fst (out (env w) (Call c)) = Inl ''CalledProcessError'' \<or> (\<exists>r. fst (out (env w) (Call c)) = Inr r)"
    unfolding local_ok_def by blast
  then show "\<exists>x w' t. try_called (doio out (Call c)) w = (Inr x, w') \<and> trace w' = trace w @ t \<and> True"
    by (auto simp: try_called_def doio_cases called_error_def)
qed

lemma returns_merge: "local_ok out \<Longrightarrow> returns (merge_summaries out)"
  unfolding merge_summaries_def
  by (rule returns_bind [OF returns_local(3)], assumption) (simp add: returns_call returns_return)

lemma returns_archive:
  assumes "local_ok out"
  shows "returns (archive_thp out folder)"
proof -
  have mv: "returns (move_all out folder fs)" for fs by (rule always_returns [OF moves.always_exact])
  have final: "returns (bind_io (ask_flag out (Exists f)) (\<lambda>b.
      if b then guarded (doio out (Move f (folder @ ''/'' @ f))) else return_io ()))" for f
    by (rule returns_bind [OF returns_local(4) [OF assms]])
      (simp add: returns_return always_returns [OF always_guarded_doio])
  show ?thesis unfolding archive_thp_def block.simps
    by (intro returns_bind returns_foreach returns_return returns_local [OF assms] mv final)
qed

lemma list_all2_in_set1: "list_all2 P xs ys \<Longrightarrow> x \<in> set xs \<Longrightarrow> (\<And>y. y \<in> set ys \<Longrightarrow> P x y \<Longrightarrow> thesis) \<Longrightarrow> thesis"
  by (induction rule: list_all2_induct) auto

lemma always_launch:
  "always (launch_clients out base server serverPort v ids)
     (\<lambda>t. \<forall>n \<in> set (take 5 nodes). Sudo_warn (host n) ''killall client'' \<in> set t)"
  unfolding launch_clients_def
proof (rule always_weaken [OF always_foreach [where P = "\<lambda>p t. Sudo_warn (host (snd p)) ''killall client'' \<in> set t"]])
  fix p :: "nat \<times> node"
  show "always (guarded (acts_io out (launch_acts base server serverPort v ids p))) (\<lambda>t. Sudo_warn (host (snd p)) ''killall client'' \<in> set t)"
    by (rule always_weaken [OF always_guarded_acts]) (auto simp: launch_acts_def take_Cons')
next
  fix t
  assume "\<exists>ts. t = concat ts \<and> list_all2 (\<lambda>p t. Sudo_warn (host (snd p)) ''killall client'' \<in> set t) five ts"
  then obtain ts where ts: "t = concat ts" "list_all2 (\<lambda>p t. Sudo_warn (host (snd p)) ''killall client'' \<in> set t) five ts" by blast
  show "\<forall>n \<in> set (take 5 nodes). Sudo_warn (host n) ''killall client'' \<in> set t"
  proof
    fix n assume "n \<in> set (take 5 nodes)"
    then have "n \<in> snd ` set five" by (metis map_snd_enumerate set_map)
    then obtain p where "p \<in> set five" "n = snd p" by blast
    moreover obtain s where "s \<in> set ts" "Sudo_warn (host (snd p)) ''killall client'' \<in> set s"
      by (rule list_all2_in_set1 [OF ts(2) \<open>p \<in> set five\<close>])
    ultimately show "Sudo_warn (host n) ''killall client'' \<in> set t" using ts(1) by auto
  qed
qed

text \<open>
  for a valid leader id and a working local machine \<open>start_clients_remote_collect\<close> never fails, whatever
  the remote nodes and the merge script do: it has tried to stop the old client on all five
  nodes, waits, and then attempts on each of them, in this order, to stop the clients, to summarise
  the client log and to fetch the summary.
\<close>

theorem start_clients_remote_collect_robust:
  assumes "server_of leaderId = Inr server" "local_ok out"
  shows "\<exists>pre post. fst (start_clients_remote_collect out leaderId serverPort v logSuffix run_seconds w) = Inr ()
    \<and> trace (snd (start_clients_remote_collect out leaderId serverPort v logSuffix run_seconds w)) =
        trace w @ pre @ Sleep run_seconds # map (kill_act ''client'') (take 5 nodes)
          @ map summary_act (take 5 nodes) @ map pull_act five @ post
    \<and> (\<forall>n \<in> set (take 5 nodes). Sudo_warn (host n) ''killall client'' \<in> set pre)"
proof -
  define finish where "finish = block [merge_summaries out,
    bind_io (ask_text out Now) (\<lambda>now. archive_thp out (''leader'' @ leaderId @ ''_'' @ now @ logSuffix))]"
  define middle where "middle = bind_io (doio out (Sleep run_seconds)) (\<lambda>_. bind_io (kill_clients out ''client'') (\<lambda>_.
    bind_io (summarize out) (\<lambda>_. bind_io (pull_summaries out) (\<lambda>_. finish))))"
  define launch where "launch ids = launch_clients out REMOTE_BASE server serverPort v ids" for ids
  have task: "start_clients_remote_collect out leaderId serverPort v logSuffix run_seconds =
      bind_io (random_ids out) (\<lambda>ids. bind_io (launch ids) (\<lambda>_. middle))"
    unfolding start_clients_remote_collect_def assms(1) launch_def middle_def finish_def
    by (simp add: bind_io_def from_res_def fun_eq_iff)
  have finish: "returns finish"
    unfolding finish_def block.simps
    by (intro returns_bind returns_return returns_merge returns_archive returns_local [OF assms(2)] assms(2))
  define mid where "mid = Sleep run_seconds # map (kill_act ''client'') (take 5 nodes) @ map summary_act (take 5 nodes) @ map pull_act five"
  have middle: "always middle (\<lambda>t. \<exists>post. t = mid @ post)"
    unfolding middle_def mid_def
    by (rule always_weaken [OF always_bind [OF always_sleep [OF assms(2)] always_bind [OF client_kills.always_exact
      always_bind [OF summaries.always_exact always_bind [OF pulls.always_exact finish]]]]])
      (elim exE conjE, simp only: append.assoc append.simps, rule exI, rule refl)
  have launch: "always (launch ids) (\<lambda>t. \<forall>n \<in> set (take 5 nodes). Sudo_warn (host n) ''killall client'' \<in> set t)" for ids
    unfolding launch_def by (rule always_launch)
  have "always (start_clients_remote_collect out leaderId serverPort v logSuffix run_seconds)
      (\<lambda>t. \<exists>pre post. t = pre @ mid @ post \<and> (\<forall>n \<in> set (take 5 nodes). Sudo_warn (host n) ''killall client'' \<in> set pre))"
    unfolding task
  proof (rule always_weaken [OF always_bind [OF returns_random_ids [OF assms(2)] always_bind [OF launch middle]]])
    fix t
    assume "\<exists>a b. t = a @ b \<and> True \<and> (\<exists>c d. b = c @ d
      \<and> (\<forall>n \<in> set (take 5 nodes). Sudo_warn (host n) ''killall client'' \<in> set c) \<and> (\<exists>post. d = mid @ post))"
    then obtain a c post where "t = (a @ c) @ mid @ post"
      "\<forall>n \<in> set (take 5 nodes). Sudo_warn (host n) ''killall client'' \<in> set (a @ c)" by auto
    then show "\<exists>pre post. t = pre @ mid @ post \<and> (\<forall>n \<in> set (take 5 nodes). Sudo_warn (host n) ''killall client'' \<in> set pre)"
      by (intro exI conjI)
  qed
  from alwaysD [OF this, of w] show ?thesis unfolding mid_def
    by (elim exE conjE, intro exI conjI) (simp_all only: fst_conv snd_conv append.assoc append.simps, simp)
qed

text \<open>An instance in which no remote node can be reached at all.\<close>

definition dead_lab :: "bool outside" where
  "dead_lab c a = (case a of
       Sudo_warn _ _ \<Rightarrow> (Inl ''unreachable'', c) | Sudo_async _ _ \<Rightarrow> (Inl ''unreachable'', c)
     | Run _ _ \<Rightarrow> (Inl ''unreachable'', c) | Run_async _ _ \<Rightarrow> (Inl ''unreachable'', c)
     | Get _ _ _ \<Rightarrow> (Inl ''unreachable'', c) | _ \<Rightarrow> lab c a)"

lemma dead_lab_local: "local_ok dead_lab"
  by (auto simp: local_ok_def dead_lab_def lab_def)

theorem start_clients_remote_collect_robust_witness:
  "server_of ''2'' = Inr ''10.0.4.2'' \<and> local_ok dead_lab
   \<and> fst (start_clients_remote_collect dead_lab ''2'' ''6114'' ''100'' ''raft'' 150 lab_world) = Inr ()"
proof -
  have s: "server_of ''2'' = Inr ''10.0.4.2''" by code_simp
  from start_clients_remote_collect_robust [OF s dead_lab_local, of "''6114''" "''100''" "''raft''" 150 lab_world] s dead_lab_local
  show ?thesis by blast
qed

end
