(* ===== verification/Tcp_Sim.thy ===== *)
theory Tcp_Sim
  imports Py_Prelude
begin

text \<open>
  The background traffic of the experiments: \<open>background_tcp_simulation/tcp_sim.py\<close> and its local
  variant \<open>local_tcp_sim.py\<close>. Threads share the list \<open>active_sockets\<close> under a lock: one
  connector per target (\<open>start_tcp_connection\<close>), a listener (\<open>listen_for_connections\<close>) and one handler
  per accepted connection (\<open>handle_client_connection\<close>). A thread is a program counter with its local
  variables; its next step is a function of whether the operating system call it makes succeeds. A
  block under the lock is one step. \<open>sim_step\<close> interleaves the threads with the passing of time
  and with the keyboard interrupt of \<open>main\<close>, and the invariants hold in every reachable state.
\<close>

subsection \<open>Parameters\<close>

datatype sock_op = Setsockopt string int | Bind string int | Connect string int

text \<open>The calls between \<open>socket()\<close> and the registration, by platform.\<close>

definition keepalive :: "string \<Rightarrow> int \<Rightarrow> int \<Rightarrow> int \<Rightarrow> sock_op list" where
  "keepalive platform idle intvl cnt = Setsockopt ''SO_KEEPALIVE'' 1 #
     (if prefix ''linux'' platform
      then [Setsockopt ''TCP_KEEPIDLE'' idle, Setsockopt ''TCP_KEEPINTVL'' intvl, Setsockopt ''TCP_KEEPCNT'' cnt]
      else if platform = ''darwin'' then [Setsockopt ''TCP_KEEPALIVE'' 60] else [])"

definition tcp_conn_setup :: "string \<Rightarrow> string \<Rightarrow> string \<Rightarrow> int \<Rightarrow> sock_op list" where
  "tcp_conn_setup platform source_ip target_ip target_port = keepalive platform 60 10 5
     @ (if source_ip \<noteq> [] then [Bind source_ip 0] else []) @ [Connect target_ip target_port]"

definition local_conn_setup :: "string \<Rightarrow> string \<Rightarrow> string \<Rightarrow> int \<Rightarrow> sock_op list" where
  "local_conn_setup platform local_ip target_ip target_port = keepalive platform 30 10 20
     @ [Bind local_ip 0, Connect target_ip target_port]"

text \<open>How long a connector runs, the pause between messages and the pause before it reconnects, in seconds.\<close>

record sim_params =
  duration :: real
  send_interval :: real
  backoff :: real

definition tcp_params :: sim_params where
  "tcp_params = \<lparr>duration = 50000, send_interval = 1 / 200, backoff = 1\<rparr>"

definition local_params :: "real \<Rightarrow> sim_params" where
  "local_params dur = \<lparr>duration = dur, send_interval = 1 / 10, backoff = 5\<rparr>"

subsection \<open>Shared state and threads\<close>

text \<open>Sockets are numbered in the order of their creation.\<close>

record shared =
  clock :: real
  next_sock :: nat
  shut :: "nat set"
  active_sockets :: "nat list"

datatype cpc = Outer | Create | Setup "sock_op list" | Register | Inner | Send | Nap real | Cleanup | Closing
  | Backoff real | Ended | Died

text \<open>\<open>sock\<close> is the variable \<open>s\<close>, which survives an iteration; \<open>attempts\<close> counts the iterations.\<close>

record connector =
  start_time :: real
  cpc :: cpc
  sock :: "nat option"
  attempts :: nat
  ops :: "sock_op list"

definition add_active :: "nat \<Rightarrow> shared \<Rightarrow> shared" where
  "add_active n sh = sh\<lparr>active_sockets := active_sockets sh @ [n]\<rparr>"

definition drop_active :: "nat \<Rightarrow> shared \<Rightarrow> shared" where
  "drop_active n sh = (if n \<in> set (active_sockets sh) then sh\<lparr>active_sockets := remove1 n (active_sockets sh)\<rparr> else sh)"

definition close_sock :: "nat \<Rightarrow> shared \<Rightarrow> shared" where
  "close_sock n sh = sh\<lparr>shut := insert n (shut sh)\<rparr>"

definition new_sock :: "shared \<Rightarrow> shared" where
  "new_sock sh = sh\<lparr>next_sock := Suc (next_sock sh)\<rparr>"

definition running :: "sim_params \<Rightarrow> connector \<Rightarrow> shared \<Rightarrow> bool" where
  "running P c sh \<longleftrightarrow> clock sh - start_time c < duration P"

text \<open>
  One step of \<open>start_tcp_connection\<close>; \<open>ok\<close> is whether the call made there succeeds. In the \<open>finally\<close>
  block an \<open>s\<close> that was never assigned raises and ends the thread. A sleeping thread stays where it is
  until its time has come.
\<close>

definition conn_step :: "sim_params \<Rightarrow> bool \<Rightarrow> connector \<Rightarrow> shared \<Rightarrow> connector \<times> shared" where
  "conn_step P ok c sh = (case cpc c of
       Outer \<Rightarrow> if running P c sh then (c\<lparr>cpc := Create, attempts := Suc (attempts c)\<rparr>, sh) else (c\<lparr>cpc := Ended\<rparr>, sh)
     | Create \<Rightarrow> if ok then (c\<lparr>cpc := Setup (ops c), sock := Some (next_sock sh)\<rparr>, new_sock sh) else (c\<lparr>cpc := Cleanup\<rparr>, sh)
     | Setup [] \<Rightarrow> (c\<lparr>cpc := Register\<rparr>, sh)
     | Setup (x # xs) \<Rightarrow> if ok then (c\<lparr>cpc := Setup xs\<rparr>, sh) else (c\<lparr>cpc := Cleanup\<rparr>, sh)
     | Register \<Rightarrow> (c\<lparr>cpc := Inner\<rparr>, (case sock c of None \<Rightarrow> sh | Some s \<Rightarrow> add_active s sh))
     | Inner \<Rightarrow> (c\<lparr>cpc := (if running P c sh then Send else Cleanup)\<rparr>, sh)
     | Send \<Rightarrow> (c\<lparr>cpc := (if ok then Nap (clock sh + send_interval P) else Cleanup)\<rparr>, sh)
     | Nap t \<Rightarrow> (if t \<le> clock sh then c\<lparr>cpc := Inner\<rparr> else c, sh)
     | Cleanup \<Rightarrow> (case sock c of None \<Rightarrow> (c\<lparr>cpc := Died\<rparr>, sh) | Some s \<Rightarrow> (c\<lparr>cpc := Closing\<rparr>, drop_active s sh))
     | Closing \<Rightarrow> (c\<lparr>cpc := Backoff (clock sh + backoff P)\<rparr>, (case sock c of None \<Rightarrow> sh | Some s \<Rightarrow> close_sock s sh))
     | Backoff t \<Rightarrow> (if t \<le> clock sh then c\<lparr>cpc := Outer\<rparr> else c, sh)
     | Ended \<Rightarrow> (c, sh)
     | Died \<Rightarrow> (c, sh))"

text \<open>\<open>handle_client_connection\<close>: the socket is closed before it is taken off the list.\<close>

datatype hpc = Recv | Hclose | Unregister | Done

definition hand_step :: "bool \<Rightarrow> hpc \<times> nat \<Rightarrow> shared \<Rightarrow> (hpc \<times> nat) \<times> shared" where
  "hand_step data h sh = (case fst h of
       Recv \<Rightarrow> ((if data then Recv else Hclose, snd h), sh)
     | Hclose \<Rightarrow> ((Unregister, snd h), close_sock (snd h) sh)
     | Unregister \<Rightarrow> ((Done, snd h), drop_active (snd h) sh)
     | Done \<Rightarrow> (h, sh))"

text \<open>
  \<open>listen_for_connections\<close>; any exception ends it, also one while the handler thread is started.
\<close>

datatype lpc = Opening | Accept | Append nat | Spawn nat | Stopped "nat option"

definition listen_step :: "bool \<Rightarrow> lpc \<Rightarrow> shared \<Rightarrow> lpc \<times> (hpc \<times> nat) list \<times> shared" where
  "listen_step ok l sh = (case l of
       Opening \<Rightarrow> (if ok then Accept else Stopped None, [], sh)
     | Accept \<Rightarrow> if ok then (Append (next_sock sh), [], new_sock sh) else (Stopped None, [], sh)
     | Append n \<Rightarrow> (Spawn n, [], add_active n sh)
     | Spawn n \<Rightarrow> if ok then (Accept, [(Recv, n)], sh) else (Stopped (Some n), [], sh)
     | Stopped x \<Rightarrow> (Stopped x, [], sh))"

definition close_all_connections :: "shared \<Rightarrow> shared" where
  "close_all_connections sh = sh\<lparr>shut := shut sh \<union> set (active_sockets sh), active_sockets := []\<rparr>"

subsection \<open>Interleaving\<close>

datatype thread = Connector connector | Handler "hpc \<times> nat" | Listener lpc

text \<open>A step gives the thread, the threads it started and the shared state.\<close>

definition thread_step :: "sim_params \<Rightarrow> bool \<Rightarrow> thread \<Rightarrow> shared \<Rightarrow> thread \<times> thread list \<times> shared" where
  "thread_step P ok t sh = (case t of
       Connector c \<Rightarrow> (let (c', sh') = conn_step P ok c sh in (Connector c', [], sh'))
     | Handler h \<Rightarrow> (let (h', sh') = hand_step ok h sh in (Handler h', [], sh'))
     | Listener l \<Rightarrow> (let (l', hs, sh') = listen_step ok l sh in (Listener l', map Handler hs, sh')))"

definition fresh_connector :: "real \<Rightarrow> sock_op list \<Rightarrow> thread" where
  "fresh_connector t xs = Connector \<lparr>start_time = t, cpc = Outer, sock = None, attempts = 0, ops = xs\<rparr>"

record sim =
  net :: shared
  threads :: "thread list"

inductive sim_step :: "sim_params \<Rightarrow> sim \<Rightarrow> sim \<Rightarrow> bool" for P where
  tick: "0 \<le> d \<Longrightarrow> sim_step P s (s\<lparr>net := (net s)\<lparr>clock := clock (net s) + d\<rparr>\<rparr>)"
| listen: "sim_step P s (s\<lparr>threads := threads s @ [Listener Opening]\<rparr>)"
| connect: "sim_step P s (s\<lparr>threads := threads s @ [fresh_connector (clock (net s)) xs]\<rparr>)"
| run: "i < length (threads s) \<Longrightarrow> thread_step P ok (threads s ! i) (net s) = (t, new, sh') \<Longrightarrow>
    sim_step P s (s\<lparr>threads := (threads s)[i := t] @ new, net := sh'\<rparr>)"
| interrupt: "sim_step P s (s\<lparr>net := close_all_connections (net s)\<rparr>)"

definition sim_init :: "real \<Rightarrow> sim" where
  "sim_init t = \<lparr>net = \<lparr>clock = t, next_sock = 0, shut = {}, active_sockets = []\<rparr>, threads = []\<rparr>"

inductive sim_reach :: "sim_params \<Rightarrow> sim \<Rightarrow> bool" for P where
  start: "sim_reach P (sim_init t)"
| step: "sim_reach P s \<Longrightarrow> sim_step P s s' \<Longrightarrow> sim_reach P s'"

inductive_cases sim_stepE: "sim_step P s s'"

subsection \<open>Who holds a socket\<close>

fun tsock :: "thread \<Rightarrow> nat option" where
  "tsock (Connector c) = sock c"
| "tsock (Handler h) = Some (snd h)"
| "tsock (Listener (Append n)) = Some n"
| "tsock (Listener (Spawn n)) = Some n"
| "tsock (Listener (Stopped x)) = x"
| "tsock (Listener l) = None"

text \<open>Program points at which the thread's socket may be on the list.\<close>

fun listed :: "thread \<Rightarrow> bool" where
  "listed (Connector c) = (cpc c \<in> {Inner, Send, Cleanup} \<or> (\<exists>t. cpc c = Nap t))"
| "listed (Handler h) = (fst h \<noteq> Done)"
| "listed (Listener l) = ((\<exists>n. l = Spawn n) \<or> (\<exists>n. l = Stopped (Some n)))"

text \<open>Program points at which a thread is through with its socket.\<close>

fun idle :: "thread \<Rightarrow> bool" where
  "idle (Connector c) = (cpc c \<in> {Outer, Create, Ended, Died} \<or> (\<exists>t. cpc c = Backoff t))"
| "idle (Handler h) = (fst h \<in> {Unregister, Done})"
| "idle (Listener l) = False"

fun bound :: "thread \<Rightarrow> bool" where
  "bound (Connector c) = (sock c \<noteq> None \<or> cpc c \<in> {Outer, Create, Cleanup, Ended, Died})"
| "bound _ = True"

definition thread_ok :: "shared \<Rightarrow> thread \<Rightarrow> bool" where
  "thread_ok sh t \<longleftrightarrow> bound t \<and> (case tsock t of None \<Rightarrow> True | Some n \<Rightarrow> n < next_sock sh
     \<and> (n \<in> set (active_sockets sh) \<longrightarrow> listed t) \<and> (idle t \<longrightarrow> n \<in> shut sh))"

definition apart :: "thread list \<Rightarrow> bool" where
  "apart ts \<longleftrightarrow> (\<forall>i j. i < length ts \<longrightarrow> j < length ts \<longrightarrow> i \<noteq> j \<longrightarrow> tsock (ts ! i) \<noteq> None \<longrightarrow> tsock (ts ! i) \<noteq> tsock (ts ! j))"

definition held :: "thread list \<Rightarrow> nat \<Rightarrow> bool" where
  "held ts n \<longleftrightarrow> (\<exists>t \<in> set ts. tsock t = Some n)"

definition sim_inv :: "sim \<Rightarrow> bool" where
  "sim_inv s \<longleftrightarrow> apart (threads s) \<and> (\<forall>t \<in> set (threads s). thread_ok (net s) t)
     \<and> distinct (active_sockets (net s))
     \<and> (\<forall>n \<in> set (active_sockets (net s)). held (threads s) n)
     \<and> (\<forall>n < next_sock (net s). n \<notin> shut (net s) \<longrightarrow> held (threads s) n)"

lemmas sh_ops = add_active_def drop_active_def close_sock_def new_sock_def

text \<open>What a step may do: only the thread's own socket is touched, and it keeps, draws or passes on its socket.\<close>

lemma thread_step_frame:
  assumes "thread_step P ok t s = (t', new, s')" "thread_ok s t" "distinct (active_sockets s)"
  shows "shut s \<subseteq> shut s'" "next_sock s \<le> next_sock s'" "distinct (active_sockets s')"
    "Some n \<noteq> tsock t \<Longrightarrow> n \<in> set (active_sockets s') \<longleftrightarrow> n \<in> set (active_sockets s)"
    "Some n \<noteq> tsock t \<Longrightarrow> n \<in> shut s' \<longleftrightarrow> n \<in> shut s"
proof -
  have cs: "shut s \<subseteq> shut s' \<and> next_sock s \<le> next_sock s' \<and> distinct (active_sockets s')
    \<and> (Some n \<noteq> tsock t \<longrightarrow> (n \<in> set (active_sockets s') \<longleftrightarrow> n \<in> set (active_sockets s)) \<and> (n \<in> shut s' \<longleftrightarrow> n \<in> shut s))" for n
  proof (cases t)
    case (Connector c)
    with assms show ?thesis
      by (auto simp: thread_step_def conn_step_def sh_ops thread_ok_def split: prod.splits cpc.splits list.splits if_splits option.splits)
  next
    case (Handler h)
    with assms show ?thesis
      by (auto simp: thread_step_def hand_step_def sh_ops split: prod.splits hpc.splits if_splits)
  next
    case (Listener l)
    with assms show ?thesis
      by (auto simp: thread_step_def listen_step_def sh_ops thread_ok_def split: prod.splits lpc.splits if_splits)
  qed
  show "shut s \<subseteq> shut s'" using cs by blast
  show "next_sock s \<le> next_sock s'" using cs by blast
  show "distinct (active_sockets s')" using cs by blast
  show "Some n \<noteq> tsock t \<Longrightarrow> n \<in> set (active_sockets s') \<longleftrightarrow> n \<in> set (active_sockets s)" using cs by blast
  show "Some n \<noteq> tsock t \<Longrightarrow> n \<in> shut s' \<longleftrightarrow> n \<in> shut s" using cs by blast
qed



lemma thread_step_ok:
  assumes "thread_step P ok t s = (t', new, s')" "thread_ok s t" "distinct (active_sockets s)"
    "set (active_sockets s) \<subseteq> {..<next_sock s}"
  shows "thread_ok s' t'"
proof (cases t)
  case (Connector c)
  with assms show ?thesis
    by (cases "cpc c") (auto simp: thread_step_def conn_step_def sh_ops thread_ok_def split: prod.splits list.splits if_splits option.splits)
next
  case (Handler h)
  with assms show ?thesis
    by (cases "fst h") (auto simp: thread_step_def hand_step_def sh_ops thread_ok_def split: prod.splits if_splits)
next
  case (Listener l)
  with assms show ?thesis
    by (cases l) (auto simp: thread_step_def listen_step_def sh_ops thread_ok_def split: prod.splits if_splits option.splits)
qed

lemma thread_step_sock:
  assumes "thread_step P ok t s = (t', new, s')" "thread_ok s t"
  shows "(tsock t' = tsock t \<and> new = [] \<and> next_sock s' = next_sock s)
      \<or> (tsock t' = Some (next_sock s) \<and> new = [] \<and> next_sock s' = Suc (next_sock s)
          \<and> active_sockets s' = active_sockets s \<and> (\<forall>m. tsock t = Some m \<longrightarrow> m \<in> shut s \<and> m \<notin> set (active_sockets s)))
      \<or> (\<exists>n. tsock t = Some n \<and> tsock t' = None \<and> new = [Handler (Recv, n)] \<and> s' = s)"
proof (cases t)
  case (Connector c)
  with assms show ?thesis
    by (cases "cpc c") (auto simp: thread_step_def conn_step_def sh_ops thread_ok_def split: prod.splits list.splits if_splits option.splits)
next
  case (Handler h)
  with assms show ?thesis
    by (cases "fst h") (auto simp: thread_step_def hand_step_def sh_ops split: prod.splits if_splits)
next
  case (Listener l)
  with assms show ?thesis
    by (cases l) (auto simp: thread_step_def listen_step_def sh_ops thread_ok_def split: prod.splits if_splits option.splits)
qed

lemma in_set_update: "x \<in> set xs \<Longrightarrow> x \<noteq> xs ! i \<Longrightarrow> x \<in> set (xs[i := y])"
  by (metis in_set_conv_nth length_list_update nth_list_update_neq)

lemma apart_update:
  assumes "apart ts" "i < length ts" "tsock t = tsock (ts ! i) \<or> tsock t = None \<or> (\<forall>u \<in> set ts. tsock u \<noteq> tsock t)"
  shows "apart (ts[i := t])"
  unfolding apart_def
proof (intro allI impI)
  fix j k
  assume jk: "j < length (ts[i := t])" "k < length (ts[i := t])" "j \<noteq> k" "tsock (ts[i := t] ! j) \<noteq> None"
  then have "tsock (ts ! j) \<noteq> None \<longrightarrow> tsock (ts ! j) \<noteq> tsock (ts ! k)" "tsock (ts ! k) \<noteq> None \<longrightarrow> tsock (ts ! k) \<noteq> tsock (ts ! j)"
    using assms(1) by (auto simp: apart_def)
  with jk assms(2,3) show "tsock (ts[i := t] ! j) \<noteq> tsock (ts[i := t] ! k)"
    by (auto simp: nth_list_update split: if_splits)
qed

lemma apartD: "apart ts \<Longrightarrow> i < length ts \<Longrightarrow> j < length ts \<Longrightarrow> tsock (ts ! i) = Some n \<Longrightarrow> tsock (ts ! j) = Some n \<Longrightarrow> i = j"
  unfolding apart_def by (metis option.discI)

lemma apart_snoc: "apart ts \<Longrightarrow> tsock t = None \<or> (\<forall>u \<in> set ts. tsock u \<noteq> tsock t) \<Longrightarrow> apart (ts @ [t])"
  by (auto simp: apart_def nth_append less_Suc_eq)

lemma held_update:
  assumes "held ts n" "tsock (ts ! i) = Some n \<longrightarrow> tsock t = Some n" "i < length ts"
  shows "held (ts[i := t]) n"
  using assms unfolding held_def by (metis in_set_update set_update_memI)

lemma thread_ok_frame:
  assumes "thread_step P ok t s = (t', new, s')" "thread_ok s t" "distinct (active_sockets s)"
    "thread_ok s u" "tsock u = None \<or> tsock u \<noteq> tsock t"
  shows "thread_ok s' u"
proof -
  note frame = thread_step_frame [OF assms(1-3)]
  show ?thesis using assms(4,5) frame(2) frame(4,5) by (fastforce simp: thread_ok_def split: option.splits)
qed

lemma run_inv:
  assumes inv: "sim_inv s" and i: "i < length (threads s)"
    and step: "thread_step P ok (threads s ! i) (net s) = (t, new, s')"
  shows "sim_inv \<lparr>net = s', threads = (threads s)[i := t] @ new\<rparr>"
proof -
  let ?ts = "threads s" and ?t = "threads s ! i"
  have ap: "apart ?ts" and ok: "\<forall>u \<in> set ?ts. thread_ok (net s) u" and d: "distinct (active_sockets (net s))"
    and act: "\<forall>n \<in> set (active_sockets (net s)). held ?ts n" and op: "\<forall>n < next_sock (net s). n \<notin> shut (net s) \<longrightarrow> held ?ts n"
    using inv by (simp_all add: sim_inv_def)
  have okt: "thread_ok (net s) ?t" using ok i by simp
  have lt: "n < next_sock (net s)" if "held ?ts n" for n using that ok by (auto simp: held_def thread_ok_def split: option.splits)
  note frame = thread_step_frame [OF step okt d]
  have okt': "thread_ok s' t" using thread_step_ok [OF step okt d] act lt by auto
  have other: "thread_ok s' (?ts ! j)" if "j < length ?ts" "j \<noteq> i" for j
  proof (rule thread_ok_frame [OF step okt d])
    show "thread_ok (net s) (?ts ! j)" using ok that(1) by simp
    show "tsock (?ts ! j) = None \<or> tsock (?ts ! j) \<noteq> tsock ?t" using ap that i unfolding apart_def by blast
  qed
  have oks: "\<forall>u \<in> set (?ts[i := t]). thread_ok s' u"
    unfolding set_conv_nth using okt' other by (force simp: nth_list_update i)
  from thread_step_sock [OF step okt] consider
      (keep) "tsock t = tsock ?t" "new = []" "next_sock s' = next_sock (net s)"
    | (draw) "tsock t = Some (next_sock (net s))" "new = []" "next_sock s' = Suc (next_sock (net s))"
        "active_sockets s' = active_sockets (net s)" "\<forall>m. tsock ?t = Some m \<longrightarrow> m \<in> shut (net s) \<and> m \<notin> set (active_sockets (net s))"
    | (pass) n where "tsock ?t = Some n" "tsock t = None" "new = [Handler (Recv, n)]" "s' = net s" by blast
  then show ?thesis
  proof cases
    case keep
    have h: "held (?ts[i := t]) n" if "held ?ts n" for n using held_update [OF that _ i] keep(1) by simp
    have "n \<in> set (active_sockets s') \<Longrightarrow> held (?ts[i := t]) n" for n
      using frame(4) [of n] act h i by (cases "tsock ?t = Some n") (auto simp: held_def keep(1) intro!: bexI [of _ t] set_update_memI)
    moreover have "held (?ts[i := t]) n" if "n < next_sock s'" "n \<notin> shut s'" for n
      using op h that frame(1) keep(3) by auto
    ultimately show ?thesis using apart_update [OF ap i, of t] oks frame(3) keep(1,2) by (simp add: sim_inv_def)
  next
    case draw
    have "\<forall>u \<in> set ?ts. tsock u \<noteq> tsock t" using lt draw(1) by (auto simp: held_def)
    then have "apart (?ts[i := t])" using apart_update [OF ap i, of t] by simp
    moreover have new: "held (?ts[i := t]) (next_sock (net s))" using draw(1) i by (auto simp: held_def intro!: bexI [of _ t] set_update_memI)
    have h: "held (?ts[i := t]) n" if "held ?ts n" "n \<notin> shut (net s) \<or> n \<in> set (active_sockets (net s))" for n
      using held_update [OF that(1) _ i] draw(5) that(2) by auto
    have "n \<in> set (active_sockets s') \<Longrightarrow> held (?ts[i := t]) n" for n
      using act h draw(4) by auto
    moreover have "held (?ts[i := t]) n" if "n < next_sock s'" "n \<notin> shut s'" for n
      using op h [of n] that frame(1) draw(3) new by (cases "n = next_sock (net s)") (auto simp: less_Suc_eq)
    ultimately show ?thesis using oks frame(3) draw(2) by (simp add: sim_inv_def)
  next
    case (pass n)
    have un: "\<forall>u \<in> set (?ts[i := t]). tsock u \<noteq> Some n"
    proof
      fix u
      assume "u \<in> set (?ts[i := t])"
      then obtain j where "j < length ?ts" "u = ?ts[i := t] ! j" by (auto simp: in_set_conv_nth)
      then show "tsock u \<noteq> Some n" using apartD [OF ap i, of j n] pass(1,2) by (cases "j = i") auto
    qed
    have "apart (?ts[i := t] @ new)"
      using apart_snoc [OF apart_update [OF ap i, of t]] pass(2,3) un by simp
    moreover have h: "held (?ts[i := t] @ new) m" if "held ?ts m" for m
    proof (cases "m = n")
      case True
      then show ?thesis by (simp add: held_def pass(3))
    next
      case False
      with held_update [OF that _ i, of t] pass(1) show ?thesis by (auto simp: held_def)
    qed
    moreover have "thread_ok s' (Handler (Recv, n))"
      using okt pass(1,4) by (simp add: thread_ok_def)
    ultimately show ?thesis using oks frame(3) act op pass(3,4) by (simp add: sim_inv_def)
  qed
qed

lemma snoc_inv: "sim_inv s \<Longrightarrow> tsock t = None \<Longrightarrow> bound t \<Longrightarrow> sim_inv (s\<lparr>threads := threads s @ [t]\<rparr>)"
  by (auto simp: sim_inv_def held_def thread_ok_def apart_snoc)

lemma sim_inv_step: "sim_step P s s' \<Longrightarrow> sim_inv s \<Longrightarrow> sim_inv s'"
proof (induction rule: sim_step.induct)
  case (tick d s)
  have "thread_ok ((net s)\<lparr>clock := c\<rparr>) t = thread_ok (net s) t" for c t
    by (simp add: thread_ok_def split: option.splits)
  with tick show ?case by (simp add: sim_inv_def)
next
  case (listen s)
  then show ?case by (intro snoc_inv) simp_all
next
  case (connect s xs)
  then show ?case by (intro snoc_inv) (simp_all add: fresh_connector_def)
next
  case (run i s ok t new sh')
  then show ?case using run_inv [of s i P ok t new sh'] by (cases s) simp
next
  case (interrupt s)
  then show ?case by (auto simp: sim_inv_def thread_ok_def close_all_connections_def split: option.splits)
qed

lemma sim_reach_inv: "sim_reach P s \<Longrightarrow> sim_inv s"
proof (induction rule: sim_reach.induct)
  case (start t)
  show ?case by (simp add: sim_init_def sim_inv_def apart_def)
next
  case (step s s')
  then show ?case by (blast intro: sim_inv_step)
qed

subsection \<open>What holds in every reachable state\<close>


text \<open>One connector that has just registered its first socket.\<close>

definition busy_sim :: sim where
  "busy_sim = \<lparr>net = \<lparr>clock = 0, next_sock = 1, shut = {}, active_sockets = [0]\<rparr>,
     threads = [Connector \<lparr>start_time = 0, cpc = Inner, sock = Some 0, attempts = 1, ops = []\<rparr>]\<rparr>"

lemma busy_sim_reach: "sim_reach tcp_params busy_sim"
proof -
  define pt where "pt p so a n act = \<lparr>net = \<lparr>clock = 0, next_sock = n, shut = {}, active_sockets = act\<rparr>,
    threads = [Connector \<lparr>start_time = 0, cpc = p, sock = so, attempts = a, ops = []\<rparr>]\<rparr>" for p so a n act
  have go: "sim_reach tcp_params (pt q so' a' n' act')" if "sim_reach tcp_params (pt p so a n act)"
    "conn_step tcp_params True \<lparr>start_time = 0, cpc = p, sock = so, attempts = a, ops = []\<rparr>
       \<lparr>clock = 0, next_sock = n, shut = {}, active_sockets = act\<rparr> =
     (\<lparr>start_time = 0, cpc = q, sock = so', attempts = a', ops = []\<rparr>, \<lparr>clock = 0, next_sock = n', shut = {}, active_sockets = act'\<rparr>)"
    for p so a n act q so' a' n' act'
    using sim_reach.step [OF that(1) sim_step.run [of 0 _ tcp_params True]] that(2) by (simp add: pt_def thread_step_def)
  note st = conn_step_def running_def tcp_params_def new_sock_def add_active_def
  have "sim_reach tcp_params (pt Outer None 0 0 [])"
    using sim_reach.step [OF sim_reach.start [of tcp_params 0] sim_step.connect [of _ _ "[]"]]
    by (simp add: sim_init_def fresh_connector_def pt_def)
  then have "sim_reach tcp_params (pt Create None 1 0 [])" by (rule go) (simp add: st)
  then have "sim_reach tcp_params (pt (Setup []) (Some 0) 1 1 [])" by (rule go) (simp add: st)
  then have "sim_reach tcp_params (pt Register (Some 0) 1 1 [])" by (rule go) (simp add: st)
  then have "sim_reach tcp_params (pt Inner (Some 0) 1 1 [0])" by (rule go) (simp add: st)
  then show ?thesis by (simp add: pt_def busy_sim_def)
qed


subsection \<open>How often a connector tries\<close>

definition attempts_ok :: "sim_params \<Rightarrow> real \<Rightarrow> connector \<Rightarrow> bool" where
  "attempts_ok P now c \<longleftrightarrow> (attempts c = 0 \<or> (real (attempts c) - 1) * backoff P < duration P) \<and> (case cpc c of
       Outer \<Rightarrow> real (attempts c) * backoff P \<le> now - start_time c
     | Backoff t \<Rightarrow> real (attempts c) * backoff P \<le> t - start_time c
     | Ended \<Rightarrow> True
     | _ \<Rightarrow> (real (attempts c) - 1) * backoff P \<le> now - start_time c)"

lemma attempts_step:
  "attempts_ok P (clock s) c \<Longrightarrow> conn_step P ok c s = (c', s') \<Longrightarrow> attempts_ok P (clock s') c'"
  by (cases "cpc c") (auto simp: attempts_ok_def conn_step_def running_def sh_ops algebra_simps split: list.splits if_splits option.splits)

lemma attempts_mono: "attempts_ok P now c \<Longrightarrow> now \<le> later \<Longrightarrow> attempts_ok P later c"
  by (auto simp: attempts_ok_def split: cpc.splits)

lemma sim_reach_attempts:
  "sim_reach P s \<Longrightarrow> \<forall>c. Connector c \<in> set (threads s) \<longrightarrow> attempts_ok P (clock (net s)) c"
proof (induction rule: sim_reach.induct)
  case (start t)
  show ?case by (simp add: sim_init_def)
next
  case (step s s')
  from step.hyps(2) step.IH show ?case
  proof (induction rule: sim_step.induct)
    case (run i s ok t new sh')
    have same: "clock sh' = clock (net s)"
      using run(2) by (auto simp: thread_step_def conn_step_def hand_step_def listen_step_def sh_ops
        split: thread.splits prod.splits cpc.splits list.splits if_splits option.splits hpc.splits lpc.splits)
    have "attempts_ok P (clock sh') c" if "t = Connector c" for c
    proof -
      from run(2) that obtain c0 where "threads s ! i = Connector c0" "conn_step P ok c0 (net s) = (c, sh')"
        by (auto simp: thread_step_def split: thread.splits prod.splits)
      with attempts_step [of P "net s" c0] run(1,3) show ?thesis by (metis nth_mem)
    qed
    moreover have "\<forall>u \<in> set new. \<forall>c. u \<noteq> Connector c"
      using run(2) by (auto simp: thread_step_def split: thread.splits prod.splits)
    ultimately show ?case using run(3) same set_update_subset_insert [of "threads s" i t] by auto
  qed (auto simp: close_all_connections_def fresh_connector_def attempts_mono attempts_ok_def [of P _ "\<lparr>start_time = _, cpc = Outer, sock = _, attempts = _, ops = _\<rparr>"])
qed

text \<open>
  C37: every connection attempt is followed by the pause before reconnecting, so in any run a connector with
  a positive pause makes fewer than \<open>duration / backoff + 1\<close> attempts, however often the connection
  breaks: the reconnection loop is bounded.
\<close>

theorem attempts_bounded:
  assumes "sim_reach P s" "Connector c \<in> set (threads s)" "0 < backoff P" "0 < duration P"
  shows "real (attempts c) < duration P / backoff P + 1"
proof (cases "attempts c = 0")
  case True
  then show ?thesis using assms(3,4) by (simp add: add_pos_pos)
next
  case False
  moreover have "attempts_ok P (clock (net s)) c" using sim_reach_attempts [OF assms(1)] assms(2) by blast
  ultimately have "(real (attempts c) - 1) * backoff P < duration P" by (simp add: attempts_ok_def)
  then show ?thesis using assms(3) by (simp add: pos_less_divide_eq diff_less_eq [symmetric])
qed

theorem attempts_bounded_witness:
  "sim_reach tcp_params busy_sim
   \<and> real (attempts \<lparr>start_time = 0, cpc = Inner, sock = Some 0, attempts = 1, ops = []\<rparr>) < 50001"
  using attempts_bounded [OF busy_sim_reach, of "\<lparr>start_time = 0, cpc = Inner, sock = Some 0, attempts = 1, ops = []\<rparr>"] busy_sim_reach
  by (simp add: busy_sim_def tcp_params_def)

subsection \<open>Which connections are made\<close>

datatype launch = Start_listener string int | Wait real | Start_connector string int string

definition tcp_node_ip_list :: "string list" where
  "tcp_node_ip_list = [''10.0.0.2'', ''10.0.0.3'', ''10.0.4.2'', ''10.0.1.2'', ''10.0.1.3'']"

text \<open>\<open>main\<close> of \<open>tcp_sim.py\<close>: what it starts, in order, before it waits for the threads.\<close>

definition tcp_main :: "int \<Rightarrow> int \<Rightarrow> launch list res" where
  "tcp_main node_id central_port =
     (if node_id < 1 \<or> 5 < node_id then Inl (SystemExit ''1'')
      else let listen_ip = tcp_node_ip_list ! nat (node_id - 1) in
        Inr ([Start_listener listen_ip central_port, Wait 10] @ concat (map (\<lambda>target_id.
          [Start_connector (tcp_node_ip_list ! nat (target_id - 1)) central_port listen_ip, Wait (1 / 10)])
          (filter (\<lambda>target_id. target_id \<noteq> node_id) [1..5]))))"

definition tcp_cli :: "string list \<Rightarrow> launch list res" where
  "tcp_cli argv = (case argv of
       [_, a, b] \<Rightarrow> (case (py_int a, py_int b) of
           (Inr node_id, Inr central_port) \<Rightarrow> tcp_main node_id central_port
         | _ \<Rightarrow> Inl (SystemExit ''1''))
     | _ \<Rightarrow> Inl (SystemExit ''1''))"

text \<open>\<open>start_node\<close> of \<open>local_tcp_sim.py\<close>; \<open>main\<close> runs it for the five nodes, each in a thread.\<close>

definition local_ip :: "int \<Rightarrow> string" where
  "local_ip node_id = ''127.0.0.'' @ show_int (node_id + 1)"

definition local_start_node :: "int \<Rightarrow> int \<Rightarrow> launch list" where
  "local_start_node node_id central_port =
     [Start_listener (local_ip node_id) central_port, Wait 5] @ concat (map (\<lambda>target_id.
       [Start_connector (local_ip target_id) central_port (local_ip node_id), Wait (1 / 10)])
       (filter (\<lambda>target_id. target_id \<noteq> node_id) [1..5]))"

definition local_main :: "int \<Rightarrow> launch list list" where
  "local_main central_port = map (\<lambda>node_id. local_start_node node_id central_port) [1..5]"

definition local_cli :: "string list \<Rightarrow> (launch list list \<times> int) res" where
  "local_cli argv = (case argv of
       [_, a, b] \<Rightarrow> (case (py_int a, py_int b) of
           (Inr central_port, Inr dur) \<Rightarrow> Inr (local_main central_port, dur)
         | _ \<Rightarrow> Inl (SystemExit ''1''))
     | _ \<Rightarrow> Inl (SystemExit ''1''))"

text \<open>The directed links of a launch sequence, and the addresses it listens on.\<close>

definition links :: "launch list \<Rightarrow> (string \<times> string \<times> int) list" where
  "links ls = List.map_filter (\<lambda>l. case l of Start_connector t p src \<Rightarrow> Some (src, t, p) | _ \<Rightarrow> None) ls"

definition listens :: "launch list \<Rightarrow> (string \<times> int) list" where
  "listens ls = List.map_filter (\<lambda>l. case l of Start_listener ip p \<Rightarrow> Some (ip, p) | _ \<Rightarrow> None) ls"

lemma count_list_distinct: "distinct xs \<Longrightarrow> count_list xs x = (if x \<in> set xs then 1 else 0)"
  by (induction xs) auto

locale full_mesh =
  fixes runs :: "launch list list" and ips :: "string list" and port :: int
  assumes listen_all: "concat (map listens runs) = map (\<lambda>ip. (ip, port)) ips"
    and links_distinct: "distinct (concat (map links runs))"
    and links_set: "set (concat (map links runs)) = {(a, b, p). a \<in> set ips \<and> b \<in> set ips \<and> a \<noteq> b \<and> p = port}"
begin

lemma link_once:
  "count_list (concat (map links runs)) (a, b, p) = (if a \<in> set ips \<and> b \<in> set ips \<and> a \<noteq> b \<and> p = port then 1 else 0)"
  using links_distinct links_set by (simp add: count_list_distinct del: set_concat)

lemma link_listened: "(a, b, p) \<in> set (concat (map links runs)) \<Longrightarrow> (b, p) \<in> set (concat (map listens runs))"
  unfolding links_set listen_all by auto

end

text \<open>What the five runs of a script start together.\<close>

definition tcp_runs :: "int \<Rightarrow> launch list list" where
  "tcp_runs port = map (\<lambda>node_id. case tcp_main node_id port of Inl _ \<Rightarrow> [] | Inr ls \<Rightarrow> ls) [1..5]"

text \<open>Both scripts start the same shape of plan over a numbering of the addresses.\<close>

definition plan :: "(int \<Rightarrow> string) \<Rightarrow> real \<Rightarrow> int list \<Rightarrow> int \<Rightarrow> int \<Rightarrow> launch list" where
  "plan ip wait ids port i = [Start_listener (ip i) port, Wait wait]
     @ concat (map (\<lambda>t. [Start_connector (ip t) port (ip i), Wait (1 / 10)]) (filter (\<lambda>t. t \<noteq> i) ids))"

lemma plan_links: "links (plan ip wait ids port i) = map (\<lambda>t. (ip i, ip t, port)) (filter (\<lambda>t. t \<noteq> i) ids)"
  by (simp add: plan_def links_def map_filter_simps) (induction ids; simp add: map_filter_simps)

lemma plan_listens: "listens (plan ip wait ids port i) = [(ip i, port)]"
  by (simp add: plan_def listens_def map_filter_simps) (induction ids; simp add: map_filter_simps)

lemma links_product:
  "concat (map (\<lambda>i. map (\<lambda>t. (ip i, ip t, port)) (filter (\<lambda>t. t \<noteq> i) ids)) is) =
     map (\<lambda>(i, t). (ip i, ip t, port)) (filter (\<lambda>(i, t). t \<noteq> i) (List.product is ids))"
  by (induction "is") (simp_all add: filter_map o_def)

lemma plan_mesh:
  assumes "distinct (map ip ids)"
  shows "full_mesh (map (plan ip wait ids port) ids) (map ip ids) port"
proof
  have inj: "inj_on ip (set ids)" and ids: "distinct ids" using assms by (simp_all add: distinct_map)
  have l: "concat (map links (map (plan ip wait ids port) ids)) =
      map (\<lambda>(i, t). (ip i, ip t, port)) (filter (\<lambda>(i, t). t \<noteq> i) (List.product ids ids))"
    by (simp add: o_def plan_links links_product)
  show "concat (map listens (map (plan ip wait ids port) ids)) = map (\<lambda>ip. (ip, port)) (map ip ids)"
    by (simp add: o_def plan_listens)
  have "inj_on (\<lambda>(i, t). (ip i, ip t, port)) (set ids \<times> set ids)" using inj by (auto simp: inj_on_def)
  then show "distinct (concat (map links (map (plan ip wait ids port) ids)))"
    unfolding l by (auto simp: distinct_map distinct_product ids intro: inj_on_subset)
  show "set (concat (map links (map (plan ip wait ids port) ids))) =
      {(a, b, p). a \<in> set (map ip ids) \<and> b \<in> set (map ip ids) \<and> a \<noteq> b \<and> p = port}"
    unfolding l using inj by (auto simp: inj_on_def image_iff split: prod.splits) blast
qed

lemma tcp_runs_plan: "tcp_runs port = map (plan (\<lambda>i. tcp_node_ip_list ! nat (i - 1)) 10 [1..5] port) [1..5]"
  by (simp add: tcp_runs_def tcp_main_def plan_def Let_def)

lemma local_main_plan: "local_main port = map (plan local_ip 5 [1..5] port) [1..5]"
  by (simp add: local_main_def local_start_node_def plan_def)

lemma node_ips: "map (\<lambda>i. tcp_node_ip_list ! nat (i - 1)) [1..5] = tcp_node_ip_list"
  by code_simp

interpretation tcp_mesh: full_mesh "tcp_runs port" tcp_node_ip_list port
  for port
  using plan_mesh [of "\<lambda>i. tcp_node_ip_list ! nat (i - 1)" "[1..5]" 10 port] unfolding tcp_runs_plan node_ips
  by (simp add: tcp_node_ip_list_def)

lemma local_ips_distinct: "distinct (map local_ip [1..5])"
  by code_simp

interpretation local_mesh: full_mesh "local_main port" "map local_ip [1..5]" port
  for port
  unfolding local_main_plan by (rule plan_mesh [OF local_ips_distinct])

text \<open>
  the five nodes of either simulator form a full mesh: for every ordered pair of different node addresses
  exactly one connector is started, from the one address to the other at the common port, no
  connector goes anywhere else, and every target address is listened on once. A node id outside 1 to 5
  exits without starting anything.
\<close>

theorem traffic_full_mesh:
  "count_list (concat (map links (tcp_runs port))) (a, b, p) =
     (if a \<in> set tcp_node_ip_list \<and> b \<in> set tcp_node_ip_list \<and> a \<noteq> b \<and> p = port then 1 else 0)
   \<and> concat (map listens (tcp_runs port)) = map (\<lambda>ip. (ip, port)) tcp_node_ip_list
   \<and> count_list (concat (map links (local_main port))) (a, b, p) =
     (if a \<in> set (map local_ip [1..5]) \<and> b \<in> set (map local_ip [1..5]) \<and> a \<noteq> b \<and> p = port then 1 else 0)
   \<and> concat (map listens (local_main port)) = map (\<lambda>ip. (ip, port)) (map local_ip [1..5])
   \<and> tcp_main node_id port = (if node_id \<in> {1..5} then Inr (tcp_runs port ! nat (node_id - 1)) else Inl (SystemExit ''1''))"
proof -
  have "tcp_main node_id port = Inr (tcp_runs port ! nat (node_id - 1))" if n: "1 \<le> node_id" "node_id \<le> 5"
  proof -
    from n have "nat (node_id - 1) < length [1..5]" "[1..5] ! nat (node_id - 1) = node_id" by (simp_all add: nth_upto)
    then have "tcp_runs port ! nat (node_id - 1) = (case tcp_main node_id port of Inl _ \<Rightarrow> [] | Inr ls \<Rightarrow> ls)"
      by (simp only: tcp_runs_def nth_map)
    with n show ?thesis by (simp add: tcp_main_def Let_def)
  qed
  then show ?thesis
    using tcp_mesh.link_once tcp_mesh.listen_all local_mesh.link_once local_mesh.listen_all by (simp add: tcp_main_def)
qed

end
