(* ===== verification/Threads.thy ===== *)
theory Threads
  imports Remote_IO "HOL-Library.Sublist"
begin

text \<open>
  The parallel drivers of the scripts: a loop that starts one thread per node, each running the same
  function, and a second loop that joins the threads in the order they were started. A thread is its
  remaining code, a tree of remote actions that branches on whether an action raised; \<open>run_code\<close> runs
  such a code alone, which ties it to the function the source hands to \<open>Thread\<close>. The driver
  and its threads take turns in any order, one action or one call of \<open>start\<close> or \<open>join\<close> at a time, so
  a schedule is a list of turns. The contract \<open>fan_out\<close> covers the drivers whose threads run a list of
  actions under one \<open>try\<close>; it is interpreted on \<open>auto_sim.py\<close>, \<open>auto_run_leader_election.py\<close> and
  \<open>install_zookeeper_parallel\<close>.
\<close>

subsection \<open>The code of a thread\<close>

datatype thread_code = Ret | Act act thread_code thread_code

fun run_code :: "'e outside \<Rightarrow> thread_code \<Rightarrow> ('e, unit) io" where
  "run_code out Ret w = (Inr (), w)"
| "run_code out (Act a ok err) w = (case fst (out (env w) a) of
       Inl _ \<Rightarrow> run_code out err (after out a w) | Inr _ \<Rightarrow> run_code out ok (after out a w))"

text \<open>The actions \<open>as\<close>, then \<open>k\<close>, or \<open>h\<close> as soon as one of them raises.\<close>

definition then_acts :: "act list \<Rightarrow> thread_code \<Rightarrow> thread_code \<Rightarrow> thread_code" where
  "then_acts as k h = foldr (\<lambda>a c. Act a c h) as k"

definition try_acts :: "act list \<Rightarrow> thread_code" where
  "try_acts as = then_acts as Ret Ret"

lemma then_acts_simps [simp]: "then_acts [] k h = k" "then_acts (a # as) k h = Act a (then_acts as k h) h"
  by (simp_all add: then_acts_def)

lemma run_then_acts:
  "run_code out (then_acts as k h) w =
     (case acts_io out as w of (Inl _, w') \<Rightarrow> run_code out h w' | (Inr _, w') \<Rightarrow> run_code out k w')"
  by (induction as arbitrary: w) (auto simp: acts_io_def return_io_def bind_io_def doio_cases split: sum.splits)

lemma acts_io_exception: "fst (acts_io out as w) = Inl e \<Longrightarrow> is_exception e"
proof (induction as arbitrary: w)
  case Nil
  then show ?case by (simp add: acts_io_def return_io_def)
next
  case (Cons a as)
  then show ?case
    by (auto simp: acts_io_def bind_io_def doio_cases is_exception_def split: sum.splits)
qed

lemma run_try_acts: "run_code out (try_acts as) = guarded (acts_io out as)"
proof
  fix w
  show "run_code out (try_acts as) w = guarded (acts_io out as) w"
    using acts_io_exception [of out as w]
    by (auto simp: try_acts_def run_then_acts guarded_def try_io_def split: prod.splits sum.splits)
qed

lemma run_then_either:
  "run_code out (then_acts as (try_acts bs) (try_acts bs)) = guarded (bind_io (run_code out (try_acts as)) (\<lambda>_. acts_io out bs))"
proof
  fix w
  have "guarded (acts_io out as) w = (Inr (), snd (acts_io out as w))"
    using acts_io_exception [of out as w] by (auto simp: guarded_def try_io_def split: prod.splits sum.splits)
  then show "run_code out (then_acts as (try_acts bs) (try_acts bs)) w
      = guarded (bind_io (run_code out (try_acts as)) (\<lambda>_. acts_io out bs)) w"
    by (simp add: run_then_acts run_try_acts guarded_def try_io_def bind_io_def split: prod.splits sum.splits)
qed

fun code_height :: "thread_code \<Rightarrow> nat" where
  "code_height Ret = 0"
| "code_height (Act a ok err) = Suc (max (code_height ok) (code_height err))"

lemma height_then_acts: "code_height h = 0 \<Longrightarrow> code_height (then_acts as k h) = length as + code_height k"
  by (induction as) auto

lemma height_try_acts [simp]: "code_height (try_acts as) = length as"
  by (simp add: try_acts_def height_then_acts)

text \<open>The code left after some answered actions (\<open>True\<close>: returned, \<open>False\<close>: raised).\<close>

fun follow :: "thread_code \<Rightarrow> (act \<times> bool) list \<Rightarrow> thread_code option" where
  "follow c [] = Some c"
| "follow Ret (e # es) = None"
| "follow (Act a ok err) ((b, r) # es) = (if a = b then follow (if r then ok else err) es else None)"

lemma follow_append:
  "follow c (es @ fs) = (case follow c es of None \<Rightarrow> None | Some d \<Rightarrow> follow d fs)"
  by (induction c es rule: follow.induct) auto

lemma follow_try_acts:
  "follow (try_acts as) es = Some c \<Longrightarrow> prefix (map fst es) as"
proof (induction as arbitrary: es)
  case Nil
  then show ?case by (cases es) (auto simp: try_acts_def)
next
  case (Cons a as)
  note IH = Cons.IH and prem = Cons.prems
  show ?case
  proof (cases es)
    case Nil
    then show ?thesis by simp
  next
    case (Cons e es')
    with prem show ?thesis using IH [of es']
      by (cases e; cases es') (auto simp: try_acts_def split: if_splits)
  qed
qed

text \<open>What a thread has attempted once its code is used up: all actions, or those up to the first that raised.\<close>

definition up_to_failure :: "act list \<Rightarrow> (act \<times> bool) list \<Rightarrow> bool" where
  "up_to_failure as es \<longleftrightarrow> prefix (map fst es) as \<and> list_all snd (butlast es)
     \<and> (length es = length as \<or> (es \<noteq> [] \<and> \<not> snd (List.last es)))"

lemma up_to_failure_ok: "up_to_failure as es \<Longrightarrow> list_all snd es \<Longrightarrow> map fst es = as"
  by (auto simp: up_to_failure_def list_all_iff prefix_def)

lemma follow_try_acts_Ret: "follow (try_acts as) es = Some Ret \<Longrightarrow> up_to_failure as es"
proof (induction as arbitrary: es)
  case Nil
  then show ?case by (cases es) (auto simp: try_acts_def up_to_failure_def)
next
  case (Cons a as)
  note IH = Cons.IH and prem = Cons.prems
  show ?case
  proof (cases es)
    case Nil
    with prem show ?thesis by (simp add: try_acts_def)
  next
    case (Cons e es')
    show ?thesis
    proof (cases "snd e")
      case True
      with Cons prem have "up_to_failure as es'" by (intro IH) (cases e; simp add: try_acts_def split: if_splits)
      with Cons prem True show ?thesis
        by (cases e) (auto simp: up_to_failure_def try_acts_def split: if_splits)
    next
      case False
      with Cons prem show ?thesis by (cases e; cases es') (auto simp: up_to_failure_def try_acts_def split: if_splits)
    qed
  qed
qed

subsection \<open>The driver and its threads\<close>

record 'e fan =
  fan_world :: "'e world"
  fan_todo :: "thread_code list"
  fan_threads :: "thread_code list"
  fan_joined :: nat
  fan_log :: "(nat \<times> act \<times> bool) list"

datatype turn = Start | Turn nat | Join

definition fan_init :: "thread_code list \<Rightarrow> 'e world \<Rightarrow> 'e fan" where
  "fan_init codes w = \<lparr>fan_world = w, fan_todo = codes, fan_threads = [], fan_joined = 0, fan_log = []\<rparr>"

text \<open>
  One turn, if it is possible: the first loop starts the next thread; thread \<open>i\<close> performs its next action; the
  second loop, reached when all threads are started, passes a \<open>join\<close> when that thread has returned.
\<close>

fun fan_step :: "'e outside \<Rightarrow> turn \<Rightarrow> 'e fan \<Rightarrow> 'e fan option" where
  "fan_step out Start s = (case fan_todo s of
       [] \<Rightarrow> None
     | c # cs \<Rightarrow> Some (s\<lparr>fan_todo := cs, fan_threads := fan_threads s @ [c]\<rparr>))"
| "fan_step out (Turn i) s =
     (if i < length (fan_threads s) then (case fan_threads s ! i of
          Ret \<Rightarrow> None
        | Act a ok err \<Rightarrow> let good = (\<not> isl (fst (out (env (fan_world s)) a))) in
            Some (s\<lparr>fan_world := after out a (fan_world s),
              fan_threads := (fan_threads s)[i := if good then ok else err], fan_log := fan_log s @ [(i, a, good)]\<rparr>))
      else None)"
| "fan_step out Join s =
     (if fan_todo s = [] \<and> fan_joined s < length (fan_threads s) \<and> fan_threads s ! fan_joined s = Ret
      then Some (s\<lparr>fan_joined := Suc (fan_joined s)\<rparr>) else None)"

fun fan_run :: "'e outside \<Rightarrow> turn list \<Rightarrow> 'e fan \<Rightarrow> 'e fan option" where
  "fan_run out [] s = Some s"
| "fan_run out (t # ts) s = (case fan_step out t s of None \<Rightarrow> None | Some s' \<Rightarrow> fan_run out ts s')"

text \<open>Both loops are over.\<close>

definition fan_over :: "'e fan \<Rightarrow> bool" where
  "fan_over s \<longleftrightarrow> fan_todo s = [] \<and> fan_joined s = length (fan_threads s)"

definition thread_log :: "nat \<Rightarrow> 'e fan \<Rightarrow> (act \<times> bool) list" where
  "thread_log i s = map snd (filter (\<lambda>e. fst e = i) (fan_log s))"


lemma fan_run_append:
  "fan_run out (ts @ us) s = (case fan_run out ts s of None \<Rightarrow> None | Some s' \<Rightarrow> fan_run out us s')"
  by (induction out ts s rule: fan_run.induct) (auto split: option.splits)

lemma thread_log_snoc:
  "thread_log i (s\<lparr>fan_world := w, fan_threads := ts, fan_log := fan_log s @ [(j, e)]\<rparr>)
     = thread_log i s @ (if j = i then [e] else [])"
  by (simp add: thread_log_def)

text \<open>The logs of the threads together are the whole log.\<close>

lemma log_by_thread:
  "list_all (\<lambda>e. fst e < n) evs \<Longrightarrow> mset (map f evs) = (\<Sum>i\<leftarrow>[0..<n]. mset (map f (filter (\<lambda>e. fst e = i) evs)))"
proof (induction evs)
  case Nil
  then show ?case by (simp add: sum_list_0)
next
  case (Cons e evs)
  have "(\<Sum>i\<leftarrow>[0..<n]. mset (map f (filter (\<lambda>e. fst e = i) (e # evs))))
      = (\<Sum>i\<leftarrow>[0..<n]. (if i = fst e then {#f e#} else {#}) + mset (map f (filter (\<lambda>e. fst e = i) evs)))"
    by (intro arg_cong [where f = sum_list] map_cong) auto
  also have "\<dots> = (\<Sum>i\<leftarrow>[0..<n]. if i = fst e then {#f e#} else {#}) + (\<Sum>i\<leftarrow>[0..<n]. mset (map f (filter (\<lambda>e. fst e = i) evs)))"
    by (rule sum_list_addf)
  also have "(\<Sum>i\<leftarrow>[0..<n]. if i = fst e then {#f e#} else {#}) = {#f e#}"
    using Cons.prems by (simp add: interv_sum_list_conv_sum_set_nat)
  finally show ?case using Cons by simp
qed

lemma thread_log_acts: "map (fst \<circ> snd) (filter (\<lambda>e. fst e = i) (fan_log s)) = map fst (thread_log i s)"
  by (simp add: thread_log_def)

subsection \<open>The invariant\<close>

definition fan_inv :: "thread_code list \<Rightarrow> 'e world \<Rightarrow> 'e fan \<Rightarrow> bool" where
  "fan_inv codes w s \<longleftrightarrow> (\<exists>n \<le> length codes. length (fan_threads s) = n \<and> fan_todo s = drop n codes)
     \<and> (\<forall>i < length (fan_threads s). follow (codes ! i) (thread_log i s) = Some (fan_threads s ! i))
     \<and> (\<forall>i \<ge> length (fan_threads s). thread_log i s = [])
     \<and> fan_joined s \<le> length (fan_threads s) \<and> (\<forall>i < fan_joined s. fan_threads s ! i = Ret)
     \<and> trace (fan_world s) = trace w @ map (fst \<circ> snd) (fan_log s) \<and> procs (fan_world s) = procs w"

lemma fan_inv_init: "fan_inv codes w (fan_init codes w)"
  by (simp add: fan_inv_def fan_init_def thread_log_def)

lemma fan_inv_spawn:
  assumes "fan_inv codes w s" and "fan_todo s = c # cs"
  shows "fan_inv codes w (s\<lparr>fan_todo := cs, fan_threads := fan_threads s @ [c]\<rparr>)"
proof -
  let ?n = "length (fan_threads s)"
  from assms have n: "?n \<le> length codes" "c # cs = drop ?n codes" by (auto simp: fan_inv_def)
  then have lt: "?n < length codes" by (cases "?n < length codes") auto
  with n(2) have c: "codes ! ?n = c" "drop (Suc ?n) codes = cs"
    by (simp_all add: Cons_nth_drop_Suc [symmetric])
  have log: "thread_log i (s\<lparr>fan_todo := cs, fan_threads := fan_threads s @ [c]\<rparr>) = thread_log i s" for i
    by (simp add: thread_log_def)
  show ?thesis
    using assms(1) lt c unfolding fan_inv_def log
    by (auto simp: nth_append less_Suc_eq)
qed

lemma fan_inv_turn:
  assumes inv: "fan_inv codes w s" and i: "i < length (fan_threads s)" and a: "fan_threads s ! i = Act a ok err"
  shows "fan_inv codes w (s\<lparr>fan_world := after out a (fan_world s),
     fan_threads := (fan_threads s)[i := if r then ok else err], fan_log := fan_log s @ [(i, a, r)]\<rparr>)"
proof -
  from inv i a have "follow (codes ! i) (thread_log i s @ [(a, r)]) = Some (if r then ok else err)"
    by (simp add: fan_inv_def follow_append)
  moreover from inv i a have "\<not> i < fan_joined s" by (auto simp: fan_inv_def)
  ultimately show ?thesis
    using inv i unfolding fan_inv_def thread_log_snoc by (auto simp: nth_list_update)
qed

lemma fan_inv_step: "fan_inv codes w s \<Longrightarrow> fan_step out t s = Some s' \<Longrightarrow> fan_inv codes w s'"
proof (cases t)
  case Start
  assume "fan_inv codes w s" "fan_step out t s = Some s'"
  with Start show ?thesis by (auto split: list.splits intro: fan_inv_spawn)
next
  case (Turn i)
  assume "fan_inv codes w s" "fan_step out t s = Some s'"
  with Turn show ?thesis
    using fan_inv_turn [of codes w s i _ _ _ True out] fan_inv_turn [of codes w s i _ _ _ False out]
    by (auto simp: Let_def split: if_splits thread_code.splits)
next
  case Join
  assume "fan_inv codes w s" "fan_step out t s = Some s'"
  with Join show ?thesis by (auto simp: fan_inv_def thread_log_def less_Suc_eq split: if_splits)
qed

lemma fan_inv_run: "fan_run out ts s = Some s' \<Longrightarrow> fan_inv codes w s \<Longrightarrow> fan_inv codes w s'"
  by (induction out ts s rule: fan_run.induct) (auto split: option.splits intro: fan_inv_step)

lemma fan_inv_reached: "fan_run out ts (fan_init codes w) = Some s \<Longrightarrow> fan_inv codes w s"
  using fan_inv_run fan_inv_init by blast

subsection \<open>Every schedule ends\<close>

definition fan_left :: "'e fan \<Rightarrow> nat" where
  "fan_left s = (\<Sum>c\<leftarrow>fan_todo s. code_height c + 2) + (\<Sum>c\<leftarrow>fan_threads s. code_height c)
     + (length (fan_threads s) - fan_joined s)"

lemma sum_list_update_less:
  "i < length cs \<Longrightarrow> code_height c < code_height (cs ! i) \<Longrightarrow>
     sum_list (map code_height (cs[i := c])) < sum_list (map code_height cs)"
  by (induction cs arbitrary: i) (auto split: nat.splits)

lemma fan_step_less:
  assumes "fan_step out t s = Some s'" and "fan_joined s \<le> length (fan_threads s)"
  shows "fan_left s' < fan_left s"
proof (cases t)
  case Start
  with assms show ?thesis by (auto simp: fan_left_def split: list.splits)
next
  case (Turn i)
  with assms(1) obtain a ok err c where i: "i < length (fan_threads s)" "fan_threads s ! i = Act a ok err"
    and s': "fan_todo s' = fan_todo s" "fan_threads s' = (fan_threads s)[i := c]" "fan_joined s' = fan_joined s"
    and c: "c = ok \<or> c = err"
    by (auto simp: Let_def split: if_splits thread_code.splits)
  from i c have "sum_list (map code_height ((fan_threads s)[i := c])) < sum_list (map code_height (fan_threads s))"
    by (intro sum_list_update_less) auto
  with s' show ?thesis by (simp add: fan_left_def)
next
  case Join
  with assms show ?thesis by (auto simp: fan_left_def split: if_splits)
qed

lemma fan_run_bound:
  "fan_run out ts s = Some s' \<Longrightarrow> fan_inv codes w s \<Longrightarrow> length ts + fan_left s' \<le> fan_left s"
proof (induction out ts s rule: fan_run.induct)
  case (1 out s)
  then show ?case by simp
next
  case (2 out t ts s)
  then obtain r where r: "fan_step out t s = Some r" "fan_run out ts r = Some s'" by (auto split: option.splits)
  from "2.prems"(2) have "fan_joined s \<le> length (fan_threads s)" by (simp add: fan_inv_def)
  with r(1) have "fan_left r < fan_left s" by (rule fan_step_less)
  moreover from "2.IH" [OF r] fan_inv_step [OF "2.prems"(2) r(1)] have "length ts + fan_left s' \<le> fan_left r" by simp
  ultimately show ?case by simp
qed

definition next_turn :: "'e fan \<Rightarrow> turn" where
  "next_turn s = (if fan_todo s \<noteq> [] then Start
     else if fan_threads s ! fan_joined s = Ret then Join else Turn (fan_joined s))"

lemma fan_progress:
  "fan_joined s \<le> length (fan_threads s) \<Longrightarrow> \<not> fan_over s \<Longrightarrow> \<exists>s'. fan_step out (next_turn s) s = Some s'"
  by (cases "fan_todo s"; cases "fan_threads s ! fan_joined s") (auto simp: fan_over_def next_turn_def Let_def)

lemma fan_finishes:
  assumes "fan_inv codes w s"
  shows "\<exists>ts s'. fan_run out ts s = Some s' \<and> fan_over s'"
  using assms
proof (induction "fan_left s" arbitrary: s rule: less_induct)
  case less
  show ?case
  proof (cases "fan_over s")
    case True
    then have "fan_run out [] s = Some s \<and> fan_over s" by simp
    then show ?thesis by blast
  next
    case False
    from less.prems have j: "fan_joined s \<le> length (fan_threads s)" by (simp add: fan_inv_def)
    from fan_progress [OF j False] obtain r where r: "fan_step out (next_turn s) s = Some r" by blast
    from less.hyps [OF fan_step_less [OF r j] fan_inv_step [OF less.prems r]]
    obtain ts s' where "fan_run out ts r = Some s'" "fan_over s'" by blast
    with r have "fan_run out (next_turn s # ts) s = Some s' \<and> fan_over s'" by simp
    then show ?thesis by blast
  qed
qed

subsection \<open>The sequential schedule\<close>

text \<open>Running the threads one after another is one of the schedules.\<close>

lemma run_thread:
  assumes "n < length (fan_threads s)" and "fan_threads s ! n = c"
  shows "\<exists>ts s'. fan_run out ts s = Some s' \<and> fan_world s' = snd (run_code out c (fan_world s))
     \<and> fan_todo s' = fan_todo s \<and> fan_threads s' = (fan_threads s)[n := Ret] \<and> fan_joined s' = fan_joined s"
  using assms
proof (induction c arbitrary: s)
  case Ret
  then have "fan_run out [] s = Some s" "fan_threads s = (fan_threads s)[n := Ret]"
    using list_update_id [of "fan_threads s" n] by simp_all
  then show ?case by (intro exI [of _ "[]"] exI [of _ s]) simp
next
  case (Act a ok err)
  let ?good = "\<not> isl (fst (out (env (fan_world s)) a))"
  let ?c = "if ?good then ok else err"
  let ?s = "s\<lparr>fan_world := after out a (fan_world s), fan_threads := (fan_threads s)[n := ?c],
     fan_log := fan_log s @ [(n, a, ?good)]\<rparr>"
  from Act.prems have step: "fan_step out (Turn n) s = Some ?s" by (simp add: Let_def)
  have "\<exists>ts s'. fan_run out ts ?s = Some s' \<and> fan_world s' = snd (run_code out ?c (fan_world ?s))
     \<and> fan_todo s' = fan_todo ?s \<and> fan_threads s' = (fan_threads ?s)[n := Ret] \<and> fan_joined s' = fan_joined ?s"
    using Act.IH(1) [of ?s] Act.IH(2) [of ?s] Act.prems(1) by (cases ?good) simp_all
  then obtain ts s' where r: "fan_run out ts ?s = Some s'" "fan_world s' = snd (run_code out ?c (after out a (fan_world s)))"
    "fan_todo s' = fan_todo s" "fan_threads s' = (fan_threads s)[n := Ret]" "fan_joined s' = fan_joined s" by auto
  have "run_code out (Act a ok err) (fan_world s) = run_code out ?c (after out a (fan_world s))"
    by (simp add: isl_def split: sum.splits)
  with step r show ?case by (intro exI [of _ "Turn n # ts"] exI [of _ s']) simp
qed

lemma run_all_threads:
  assumes "fan_todo s = codes"
  shows "\<exists>ts s'. fan_run out ts s = Some s' \<and> fan_world s' = snd (block (map (run_code out) codes) (fan_world s))
     \<and> fan_todo s' = [] \<and> fan_threads s' = fan_threads s @ replicate (length codes) Ret \<and> fan_joined s' = fan_joined s"
  using assms
proof (induction codes arbitrary: s)
  case Nil
  then show ?case by (intro exI [of _ "[]"] exI [of _ s]) (simp add: return_io_def)
next
  case (Cons c codes)
  let ?s = "s\<lparr>fan_todo := codes, fan_threads := fan_threads s @ [c]\<rparr>"
  from Cons.prems have step: "fan_step out Start s = Some ?s" by simp
  from run_thread [of "length (fan_threads s)" ?s c out]
  obtain ts r where r: "fan_run out ts ?s = Some r" "fan_world r = snd (run_code out c (fan_world s))"
    "fan_todo r = codes" "fan_threads r = fan_threads s @ [Ret]" "fan_joined r = fan_joined s"
    by (auto simp: list_update_append)
  from Cons.IH [OF r(3)] obtain us s' where s': "fan_run out us r = Some s'"
    "fan_world s' = snd (block (map (run_code out) codes) (fan_world r))"
    "fan_todo s' = []" "fan_threads s' = fan_threads r @ replicate (length codes) Ret" "fan_joined s' = fan_joined r" by blast
  have "fst (run_code out c w) = Inr ()" for w :: "'a world"
    by (induction c arbitrary: w) (auto split: sum.splits)
  then have "block (map (run_code out) (c # codes)) (fan_world s) = block (map (run_code out) codes) (fan_world r)"
    using r(2) by (simp add: bind_io_def split: prod.splits) (metis fst_conv old.sum.simps(6) snd_conv)
  with step r s' show ?case
    by (intro exI [of _ "Start # ts @ us"] exI [of _ s']) (simp add: fan_run_append)
qed

lemma join_all:
  assumes "fan_todo s = []" and "fan_joined s + n = length (fan_threads s)" and "\<forall>c \<in> set (fan_threads s). c = Ret"
  shows "\<exists>s'. fan_run out (replicate n Join) s = Some s' \<and> fan_over s' \<and> fan_world s' = fan_world s"
  using assms
proof (induction n arbitrary: s)
  case 0
  then show ?case by (simp add: fan_over_def)
next
  case (Suc n)
  then have "fan_step out Join s = Some (s\<lparr>fan_joined := Suc (fan_joined s)\<rparr>)" by (simp add: nth_mem)
  with Suc.IH [of "s\<lparr>fan_joined := Suc (fan_joined s)\<rparr>"] Suc.prems show ?case by simp
qed

lemma sequential_schedule:
  "\<exists>ts s. fan_run out ts (fan_init codes w) = Some s \<and> fan_over s \<and> fan_world s = snd (block (map (run_code out) codes) w)"
proof -
  from run_all_threads [of "fan_init codes w" codes out] obtain ts r where r: "fan_run out ts (fan_init codes w) = Some r"
    "fan_world r = snd (block (map (run_code out) codes) w)" "fan_todo r = []" "fan_threads r = replicate (length codes) Ret"
    "fan_joined r = 0" by (auto simp: fan_init_def)
  from join_all [of r "length codes" out] r obtain s where "fan_run out (replicate (length codes) Join) r = Some s"
    "fan_over s" "fan_world s = fan_world r" by auto
  with r show ?thesis by (intro exI [of _ "ts @ replicate (length codes) Join"] exI [of _ s]) (simp add: fan_run_append)
qed

subsection \<open>Drivers whose threads run one guarded list of actions\<close>

locale fan_out =
  fixes out :: "'e outside" and bodies :: "('e, unit) io list" and plans :: "act list list"
  assumes bodies_run: "bodies = map (\<lambda>p. run_code out (try_acts p)) plans"
begin

lemma ends:
  assumes "fan_run out ts (fan_init (map try_acts plans) w) = Some s"
  shows "length ts \<le> (\<Sum>p\<leftarrow>plans. length p + 2)" and "\<exists>us s'. fan_run out us s = Some s' \<and> fan_over s'"
proof -
  have "fan_left (fan_init (map try_acts plans) w) = (\<Sum>p\<leftarrow>plans. length p + 2)"
    by (simp add: fan_left_def fan_init_def comp_def)
  with fan_run_bound [OF assms fan_inv_init] show "length ts \<le> (\<Sum>p\<leftarrow>plans. length p + 2)" by simp
  show "\<exists>us s'. fan_run out us s = Some s' \<and> fan_over s'" by (rule fan_finishes [OF fan_inv_reached [OF assms]])
qed

lemma log_prefix:
  assumes "fan_run out ts (fan_init (map try_acts plans) w) = Some s" and "i < length plans"
  shows "prefix (map fst (thread_log i s)) (plans ! i)"
proof (cases "i < length (fan_threads s)")
  case True
  with fan_inv_reached [OF assms(1)] assms(2) show ?thesis by (auto simp: fan_inv_def intro: follow_try_acts)
next
  case False
  with fan_inv_reached [OF assms(1)] show ?thesis by (simp add: fan_inv_def)
qed

lemma over_log:
  assumes run: "fan_run out ts (fan_init (map try_acts plans) w) = Some s" and over: "fan_over s" and i: "i < length plans"
  shows "up_to_failure (plans ! i) (thread_log i s)"
proof -
  from fan_inv_reached [OF run] have inv: "fan_inv (map try_acts plans) w s" .
  with over have n: "length (fan_threads s) = length plans" "fan_joined s = length plans"
    by (auto simp: fan_inv_def fan_over_def)
  with inv i have "follow (try_acts (plans ! i)) (thread_log i s) = Some Ret" by (simp add: fan_inv_def)
  then show ?thesis by (rule follow_try_acts_Ret)
qed

lemma log_total:
  assumes "fan_run out ts (fan_init (map try_acts plans) w) = Some s"
  shows "trace (fan_world s) = trace w @ map (fst \<circ> snd) (fan_log s)"
    and "list_all (\<lambda>e. fst e < length plans) (fan_log s)"
proof -
  from fan_inv_reached [OF assms] have inv: "fan_inv (map try_acts plans) w s" .
  then show "trace (fan_world s) = trace w @ map (fst \<circ> snd) (fan_log s)" by (simp add: fan_inv_def)
  have "fst e < length plans" if e: "e \<in> set (fan_log s)" for e
  proof (rule ccontr)
    assume "\<not> fst e < length plans"
    with inv have "thread_log (fst e) s = []" by (auto simp: fan_inv_def)
    with e show False by (auto simp: thread_log_def filter_empty_conv)
  qed
  then show "list_all (\<lambda>e. fst e < length plans) (fan_log s)" by (simp add: list_all_iff)
qed

lemma complete_log:
  assumes run: "fan_run out ts (fan_init (map try_acts plans) w) = Some s" and "fan_over s" and ok: "list_all (snd \<circ> snd) (fan_log s)"
  shows "mset (map (fst \<circ> snd) (fan_log s)) = mset (concat plans)"
proof -
  have "map fst (thread_log i s) = plans ! i" if "i < length plans" for i
    using over_log [OF assms(1,2) that] ok by (intro up_to_failure_ok) (auto simp: thread_log_def list_all_iff)
  then have "(\<Sum>i\<leftarrow>[0..<length plans]. mset (map (fst \<circ> snd) (filter (\<lambda>e. fst e = i) (fan_log s))))
      = (\<Sum>i\<leftarrow>[0..<length plans]. mset (plans ! i))"
    by (intro arg_cong [where f = sum_list] map_cong) (simp_all only: thread_log_acts, simp)
  also have "\<dots> = sum_list (map mset plans)" 
    using map_map [of mset "(!) plans" "[0..<length plans]"] by (simp add: map_nth comp_def)
  also have "\<dots> = mset (concat plans)" by (simp add: mset_concat)
  finally show ?thesis using log_by_thread [OF log_total(2) [OF run], of "fst \<circ> snd"] by simp
qed

lemma sequential:
  "\<exists>ts s. fan_run out ts (fan_init (map try_acts plans) w) = Some s \<and> fan_over s \<and> fan_world s = snd (block bodies w)"
  using sequential_schedule [of out "map try_acts plans" w] by (simp add: bodies_run comp_def)

end

end
