(* ===== verification/Traffic_Gen.thy ===== *)
theory Traffic_Gen
  imports Tasks Threads Tcp_Sim Py_Regex
begin

text \<open>
  The scripts that set the background traffic up: \<open>background_tcp_simulation/iperf_tcp_gen.py\<close> (iperf3
  servers and clients of one node), \<open>auto_sim.py\<close> (the TCP simulator on every node) and
  \<open>auto_run_leader_election.py\<close> (installing and building on every node). The last two run the same
  function for each node in a thread of its own: the function is modelled as it is written, and the threads
  as its code in an arbitrary schedule.
\<close>

subsection \<open>iperf_tcp_gen.py\<close>

definition TOTAL_NODES :: int where "TOTAL_NODES = 5"

definition node_addr :: "int \<Rightarrow> string" where
  "node_addr n = ''10.0.'' @ show_int n @ ''.2''"

text \<open>A missing program is a \<open>FileNotFoundError\<close>; without \<open>check\<close> an exit code is not looked at.\<close>

definition not_found :: py_error where "not_found = RemoteError ''FileNotFoundError''"

definition install_iperf3 :: "'e outside \<Rightarrow> ('e, unit) io" where
  "install_iperf3 out w = (case doio out (Call [''iperf3'', ''--version'']) w of
       (Inr x, w') \<Rightarrow> (Inr x, w')
     | (Inl e, w') \<Rightarrow> if e = not_found
         then acts_io out [Call [''sudo'', ''apt-get'', ''update''], Call [''sudo'', ''apt-get'', ''install'', ''-y'', ''iperf3'']] w'
         else (Inl e, w'))"

definition server_act :: "int \<Rightarrow> int \<Rightarrow> act" where
  "server_act node_num k = Call [''iperf3'', ''-s'', ''-p'', show_int (5000 + k), ''-B'', node_addr node_num, ''-D'']"

definition start_iperf3_servers :: "'e outside \<Rightarrow> int \<Rightarrow> ('e, unit) io" where
  "start_iperf3_servers out node_num = acts_io out (map (server_act node_num) [1..TOTAL_NODES])"

definition client_act :: "int \<Rightarrow> int \<Rightarrow> act" where
  "client_act node_num target_node = Popen [''iperf3'', ''-c'', node_addr target_node, ''-p'', show_int (5000 + node_num),
     ''-t'', ''0'', ''-P'', ''1'', ''-b'', ''10K'', ''-l'', ''0.5K''] ''/dev/null''"

definition start_iperf3_clients :: "'e outside \<Rightarrow> int \<Rightarrow> ('e, unit) io" where
  "start_iperf3_clients out node_num =
     acts_io out (map (client_act node_num) (filter (\<lambda>target_node. target_node \<noteq> node_num) [1..TOTAL_NODES]))"

definition iperf_main :: "'e outside \<Rightarrow> string list \<Rightarrow> ('e, unit) io" where
  "iperf_main out argv = (case argv of
       [_, a, b] \<Rightarrow> (case py_int a of
           Inl _ \<Rightarrow> raise_io (SystemExit ''1'')
         | Inr node_num \<Rightarrow>
             if node_num < 1 \<or> TOTAL_NODES < node_num then raise_io (SystemExit ''1'')
             else let mode = map lower b in
               if mode = ''server'' then start_iperf3_servers out node_num
               else if mode = ''client'' then start_iperf3_clients out node_num
               else raise_io (SystemExit ''1''))
     | _ \<Rightarrow> raise_io (SystemExit ''1''))"

subsection \<open>auto_sim.py and auto_run_leader_election.py\<close>

definition target_script :: string where
  "target_script = ''~/frugal-leader-election/scripts/background_tcp_simulation/tcp_sim.py''"

definition repo_url :: string where
  "repo_url = ''https://github.com/PeterYaoNYU/frugal-leader-election.git''"

definition sim_nodes :: "node list" where
  "sim_nodes = map (\<lambda>h. \<lparr>host = h, port = 22\<rparr>) [''amd128.utah.cloudlab.us'', ''amd141.utah.cloudlab.us'',
     ''amd147.utah.cloudlab.us'', ''amd139.utah.cloudlab.us'', ''amd158.utah.cloudlab.us'']"

definition build_nodes :: "node list" where
  "build_nodes = map (\<lambda>h. \<lparr>host = h, port = 22\<rparr>) [''amd128.utah.cloudlab.us'', ''amd141.utah.cloudlab.us'',
     ''amd147.utah.cloudlab.us'', ''amd139.utah.cloudlab.us'', ''amd158.utah.cloudlab.us'']"

definition sim_execute_on_node :: "'e outside \<Rightarrow> node \<Rightarrow> nat \<Rightarrow> ('e, unit) io" where
  "sim_execute_on_node out n i = guarded (acts_io out
     [Run_warn (host n) ''sudo killall python3'',
      Run_async (host n) (''nohup python3 '' @ target_script @ '' '' @ num i @ '' 7899 &'')])"

definition bazel_cmds :: "string list" where
  "bazel_cmds = [''sudo apt install apt-transport-https curl gnupg -y'',
     ''curl -fsSL https://bazel.build/bazel-release.pub.gpg | gpg --dearmor > bazel-archive-keyring.gpg'',
     ''sudo mv bazel-archive-keyring.gpg /usr/share/keyrings/bazel-archive-keyring.gpg'',
     ''echo '' @ [CHR 0x27] @ ''deb [signed-by=/usr/share/keyrings/bazel-archive-keyring.gpg] https://storage.googleapis.com/bazel-apt stable jdk1.8''
       @ [CHR 0x27] @ '' | sudo tee /etc/apt/sources.list.d/bazel.list'',
     ''sudo apt update && sudo apt install -y bazel-7.5.0'',
     ''sudo apt install libboost-all-dev -y'']"

definition build_install_bazel :: "'e outside \<Rightarrow> string \<Rightarrow> ('e, unit) io" where
  "build_install_bazel out h = guarded (acts_io out (map (Run h) bazel_cmds))"

definition build_cmd :: string where
  "build_cmd = ''cd frugal-leader-election && git stash save && git checkout main && git pull && bazel-7.5.0 build //:leader_election && bazel-7.5.0 build //:client''"

definition build_execute_on_node :: "'e outside \<Rightarrow> node \<Rightarrow> bool \<Rightarrow> bool \<Rightarrow> bool \<Rightarrow> ('e, unit) io" where
  "build_execute_on_node out n build_bazel build_invoke build_fabric = guarded (block [
     if build_bazel then build_install_bazel out (host n) else return_io (),
     if build_invoke then doio out (Run_warn (host n) ''sudo apt install python3-invoke -y'') else return_io (),
     if build_fabric then acts_io out [Run_warn (host n) ''sudo apt install python3-pip -y'', Run_warn (host n) ''pip install fabric'']
       else return_io (),
     if build_bazel then doio out (Run (host n) (''git clone '' @ repo_url)) else return_io (),
     doio out (Run (host n) build_cmd)])"

subsection \<open>The threads of both drivers\<close>

text \<open>The code of one thread: \<open>execute_on_node\<close> of \<open>auto_sim.py\<close>.\<close>

definition sim_plan :: "nat \<times> node \<Rightarrow> act list" where
  "sim_plan p = [Run_warn (host (snd p)) ''sudo killall python3'',
     Run_async (host (snd p)) (''nohup python3 '' @ target_script @ '' '' @ num (fst p + 1) @ '' 7899 &'')]"

definition sim_driver :: "'e outside \<Rightarrow> turn list \<Rightarrow> 'e world \<Rightarrow> 'e fan option" where
  "sim_driver out ts w = fan_run out ts (fan_init (map (try_acts \<circ> sim_plan) (enumerate 0 sim_nodes)) w)"

text \<open>
  \<open>execute_on_node\<close> of \<open>auto_run_leader_election.py\<close>: \<open>build_install_bazel\<close> has a \<open>try\<close> of its own, so the thread goes
  on after it in either case.
\<close>

definition build_code :: "node \<Rightarrow> bool \<Rightarrow> bool \<Rightarrow> bool \<Rightarrow> thread_code" where
  "build_code n build_bazel build_invoke build_fabric =
     (let k = try_acts ((if build_invoke then [Run_warn (host n) ''sudo apt install python3-invoke -y''] else [])
         @ (if build_fabric then [Run_warn (host n) ''sudo apt install python3-pip -y'', Run_warn (host n) ''pip install fabric''] else [])
         @ (if build_bazel then [Run (host n) (''git clone '' @ repo_url)] else []) @ [Run (host n) build_cmd])
      in if build_bazel then then_acts (map (Run (host n)) bazel_cmds) k k else k)"

definition build_driver :: "'e outside \<Rightarrow> turn list \<Rightarrow> 'e world \<Rightarrow> 'e fan option" where
  "build_driver out ts w = fan_run out ts (fan_init (map (\<lambda>n. build_code n False False False) build_nodes) w)"

text \<open>Alone, each thread does what the function of the source does.\<close>

lemma run_build_code:
  "run_code out (build_code n build_bazel build_invoke build_fabric) =
     build_execute_on_node out n build_bazel build_invoke build_fabric"
proof -
  let ?as = "(if build_invoke then [Run_warn (host n) ''sudo apt install python3-invoke -y''] else [])
     @ (if build_fabric then [Run_warn (host n) ''sudo apt install python3-pip -y'', Run_warn (host n) ''pip install fabric''] else [])
     @ (if build_bazel then [Run (host n) (''git clone '' @ repo_url)] else []) @ [Run (host n) build_cmd]"
  have rest: "block [if build_invoke then doio out (Run_warn (host n) ''sudo apt install python3-invoke -y'') else return_io (),
      if build_fabric then acts_io out [Run_warn (host n) ''sudo apt install python3-pip -y'', Run_warn (host n) ''pip install fabric'']
        else return_io (),
      if build_bazel then doio out (Run (host n) (''git clone '' @ repo_url)) else return_io (),
      doio out (Run (host n) build_cmd)] = acts_io out ?as"
    by (simp add: acts_io_append) (simp add: acts_io_def)
  have "run_code out (then_acts (map (Run (host n)) bazel_cmds) (try_acts ?as) (try_acts ?as))
      = guarded (bind_io (build_install_bazel out (host n)) (\<lambda>_. acts_io out ?as))"
    unfolding build_install_bazel_def run_try_acts [symmetric] by (rule run_then_either)
  then show ?thesis
    unfolding build_code_def build_execute_on_node_def Let_def block.simps(2) [of "if build_bazel then _ else _"] rest
    by (cases build_bazel) (simp_all only: if_True if_False run_try_acts bind_return)
qed

lemma run_sim_plan: "run_code out (try_acts (sim_plan (i, n))) = sim_execute_on_node out n (i + 1)"
  by (simp add: run_try_acts sim_plan_def sim_execute_on_node_def)

interpretation sim: fan_out out "map (\<lambda>(i, n). sim_execute_on_node out n (i + 1)) (enumerate 0 sim_nodes)"
    "map sim_plan (enumerate 0 sim_nodes)"
  for out :: "'e outside"
  by unfold_locales (auto simp: run_sim_plan simp del: enumerate_simps)

interpretation build: fan_out out "map (\<lambda>n. build_execute_on_node out n False False False) build_nodes"
    "map (\<lambda>n. [Run (host n) build_cmd]) build_nodes"
  for out :: "'e outside"
  by unfold_locales (simp add: run_build_code [symmetric] build_code_def)

lemma sim_driver_init: "sim_driver out ts w = fan_run out ts (fan_init (map try_acts (map sim_plan (enumerate 0 sim_nodes))) w)"
  by (simp add: sim_driver_def comp_def)

lemma build_driver_init:
  "build_driver out ts w = fan_run out ts (fan_init (map try_acts (map (\<lambda>n. [Run (host n) build_cmd]) build_nodes)) w)"
  by (simp add: build_driver_def build_code_def comp_def)

lemma driver_turns: "(\<Sum>p\<leftarrow>map sim_plan (enumerate 0 sim_nodes). length p + 2) = 20"
  "(\<Sum>p\<leftarrow>map (\<lambda>n. [Run (host n) build_cmd]) build_nodes. length p + 2) = 15"
  by (simp_all add: sim_nodes_def build_nodes_def sim_plan_def)


text \<open>
  in every schedule of \<open>auto_sim.py\<close>, the thread of the \<open>k\<close>-th node works on that node alone, with the id
  \<open>k + 1\<close>, in the order of the source; when the script ends each thread has done all its actions or stopped at
  the first that raised, no action is from anywhere else, and a failing node keeps no other node from being served.
\<close>

theorem sim_driver_threads:
  "case sim_driver out ts w of None \<Rightarrow> True
   | Some s \<Rightarrow> trace (fan_world s) = trace w @ map (fst \<circ> snd) (fan_log s)
       \<and> list_all (\<lambda>e. fst e < 5) (fan_log s)
       \<and> list_all (\<lambda>p. prefix (map fst (thread_log (fst p) s)) (sim_plan p)
            \<and> (if fan_over s then up_to_failure (sim_plan p) (thread_log (fst p) s) else True)) (enumerate 0 sim_nodes)"
proof (cases "sim_driver out ts w")
  case (Some s)
  then have run: "fan_run out ts (fan_init (map try_acts (map sim_plan (enumerate 0 sim_nodes))) w) = Some s"
    by (simp only: sim_driver_init)
  have n: "length (map sim_plan (enumerate 0 sim_nodes)) = 5" by (simp add: sim_nodes_def)
  have "prefix (map fst (thread_log (fst p) s)) (sim_plan p)
      \<and> (if fan_over s then up_to_failure (sim_plan p) (thread_log (fst p) s) else True)"
    if "p \<in> set (enumerate 0 sim_nodes)" for p
  proof -
    from that obtain i where i: "i < length sim_nodes" "p = (i, sim_nodes ! i)"
      by (auto simp: in_set_conv_nth nth_enumerate_eq)
    then have "map sim_plan (enumerate 0 sim_nodes) ! i = sim_plan p" "fst p = i" by (simp_all add: nth_enumerate_eq)
    then show ?thesis using sim.log_prefix [OF run, of i] sim.over_log [OF run, of i] i by auto
  qed
  then show ?thesis using Some sim.log_total [OF run] n by (simp add: list_all_iff del: enumerate_simps)
qed simp

text \<open>What the command line of an action starts when it runs \<open>tcp_sim.py\<close>.\<close>

definition launched :: "act \<Rightarrow> launch list res option" where
  "launched a = (case a of
       Run_async h cmd \<Rightarrow> (case split_ws cmd of
           [_, _, script, node_id, prt, _] \<Rightarrow> if script = target_script then Some (tcp_cli [script, node_id, prt]) else None
         | _ \<Rightarrow> None)
     | _ \<Rightarrow> None)"

lemma sim_launches: "List.map_filter launched (concat (map sim_plan (enumerate 0 sim_nodes))) = map Inr (tcp_runs 7899)"
  by code_simp

lemma mset_map_filter: "mset (List.map_filter f xs) = image_mset (the \<circ> f) (filter_mset (\<lambda>x. f x \<noteq> None) (mset xs))"
  by (simp add: List.map_filter_def)

lemma all_Inr: "set xs \<subseteq> range Inr \<Longrightarrow> xs = map Inr (map projr xs)"
  by (induction xs) auto

text \<open>
  C31: when \<open>auto_sim.py\<close> ends and no remote call raised, the command lines it ran have started the simulator
  exactly once for each of the five node ids, so that together they make, whatever the order, exactly one connection for
  every ordered pair of different addresses of the simulator's list, all at port 7899.
\<close>

theorem sim_driver_mesh:
  assumes "sim_driver out ts w = Some s" and "fan_over s" and "list_all (snd \<circ> snd) (fan_log s)"
  shows "\<exists>runs. List.map_filter launched (map (fst \<circ> snd) (fan_log s)) = map Inr runs
     \<and> mset runs = mset (tcp_runs 7899)
     \<and> count_list (concat (map links runs)) (a, b, p) =
         (if a \<in> set tcp_node_ip_list \<and> b \<in> set tcp_node_ip_list \<and> a \<noteq> b \<and> p = 7899 then 1 else 0)"
proof -
  let ?ls = "List.map_filter launched (map (fst \<circ> snd) (fan_log s))"
  have "mset (map (fst \<circ> snd) (fan_log s)) = mset (concat (map sim_plan (enumerate 0 sim_nodes)))"
    using assms unfolding sim_driver_init by (intro sim.complete_log)
  then have ms: "mset ?ls = mset (map Inr (tcp_runs 7899))"
    unfolding sim_launches [symmetric] by (simp only: mset_map_filter)
  define runs where "runs = map projr ?ls"
  have "set ?ls \<subseteq> range Inr" using mset_eq_setD [OF ms] by auto
  then have ls: "?ls = map Inr runs" unfolding runs_def by (rule all_Inr)
  have "mset runs = image_mset projr (mset ?ls)" by (simp only: runs_def mset_map)
  then have eq: "mset runs = mset (tcp_runs 7899)" unfolding ms by (simp add: multiset.map_comp comp_def)
  then have "mset (concat (map links runs)) = mset (concat (map links (tcp_runs 7899)))"
    by (simp add: mset_concat flip: sum_mset_sum_list)
  then show ?thesis using ls eq tcp_mesh.link_once [of 7899 a b p] by (metis count_mset)
qed

text \<open>An uneventful run with the threads of the nodes interleaved.\<close>

definition quiet :: "unit outside" where
  "quiet e a = (Inr reply.Done, e)"

definition quiet_turns :: "turn list" where
  "quiet_turns = [Start, Start, Turn 1, Start, Turn 0, Turn 2, Turn 1, Start, Start, Turn 4, Turn 0, Turn 3, Turn 2, Turn 4, Turn 3]
     @ replicate 5 Join"

definition quiet_end :: "unit fan" where
  "quiet_end = the (sim_driver quiet quiet_turns \<lparr>env = (), trace = [], procs = []\<rparr>)"

lemma quiet_run:
  "sim_driver quiet quiet_turns \<lparr>env = (), trace = [], procs = []\<rparr> \<noteq> None"
  "fan_over quiet_end" "list_all (snd \<circ> snd) (fan_log quiet_end)"
  by code_simp+

theorem sim_driver_mesh_witness:
  "fan_over quiet_end \<and> list_all (snd \<circ> snd) (fan_log quiet_end)
   \<and> (\<exists>runs. List.map_filter launched (map (fst \<circ> snd) (fan_log quiet_end)) = map Inr runs
     \<and> mset runs = mset (tcp_runs 7899)
     \<and> count_list (concat (map links runs)) (''10.0.0.2'', ''10.0.1.3'', 7899) = 1)"
proof -
  have run: "sim_driver quiet quiet_turns \<lparr>env = (), trace = [], procs = []\<rparr> = Some quiet_end"
    using quiet_run(1) by (auto simp: quiet_end_def)
  show ?thesis
    using sim_driver_mesh [OF run quiet_run(2,3), of "''10.0.0.2''" "''10.0.1.3''" 7899] quiet_run
    by (simp add: tcp_node_ip_list_def)
qed

subsection \<open>Every iperf client has a server of its own\<close>

text \<open>The address and port of an iperf3 command line.\<close>

definition served_at :: "act \<Rightarrow> (string \<times> string) option" where
  "served_at a = (case a of Call [_, _, _, p, _, ip, _] \<Rightarrow> Some (ip, p) | _ \<Rightarrow> None)"

definition dialled :: "act \<Rightarrow> (string \<times> string) option" where
  "dialled a = (case a of Popen (_ # _ # ip # _ # p # _) _ \<Rightarrow> Some (ip, p) | _ \<Rightarrow> None)"

definition all_servers :: "act list" where
  "all_servers = concat (map (\<lambda>n. map (server_act n) [1..TOTAL_NODES]) [1..TOTAL_NODES])"

definition all_clients :: "act list" where
  "all_clients = concat (map (\<lambda>n. map (client_act n) (filter (\<lambda>t. t \<noteq> n) [1..TOTAL_NODES])) [1..TOTAL_NODES])"

definition iperf_plan :: "string \<Rightarrow> string \<Rightarrow> act list" where
  "iperf_plan a mode = (case py_int a of
       Inl _ \<Rightarrow> []
     | Inr n \<Rightarrow> if n \<notin> {1..TOTAL_NODES} then []
         else if map lower mode = ''server'' then map (server_act n) [1..TOTAL_NODES]
         else if map lower mode = ''client'' then map (client_act n) (filter (\<lambda>t. t \<noteq> n) [1..TOTAL_NODES])
         else [])"

lemma iperf_main_follows: "follows (iperf_main out [prog, a, mode]) (iperf_plan a mode)"
proof -
  have exit: "follows (raise_io e :: ('e, unit) io) []" for e by (simp add: follows_def raise_io_def)
  show ?thesis
    by (auto simp: iperf_main_def iperf_plan_def start_iperf3_servers_def start_iperf3_clients_def Let_def
      intro: follows_acts exit split: sum.splits)
qed

text \<open>
  \<open>iperf_tcp_gen.py\<close>. A call attempts the command lines of its mode and node in order up to the first
  failure, and none for any other mode or node id. Over the five nodes no two clients dial the same
  address and port, and each dials one that a server is started on: every client has a server of
  its own.
\<close>

theorem iperf_own_server:
  "(case iperf_main out [prog, a, mode] w of
      (Inl e, w') \<Rightarrow> (\<exists>k. trace w' = trace w @ take k (iperf_plan a mode))
    | (Inr _, w') \<Rightarrow> trace w' = trace w @ iperf_plan a mode)
   \<and> distinct (map dialled all_clients) \<and> None \<notin> set (map dialled all_clients)
   \<and> set (map dialled all_clients) \<subseteq> set (map served_at all_servers) \<and> length all_clients = 20"
proof (intro conjI)
  show "case iperf_main out [prog, a, mode] w of
      (Inl e, w') \<Rightarrow> (\<exists>k. trace w' = trace w @ take k (iperf_plan a mode))
    | (Inr _, w') \<Rightarrow> trace w' = trace w @ iperf_plan a mode"
    by (rule follows_cases [OF iperf_main_follows])
  show "distinct (map dialled all_clients)" by code_simp
  show "None \<notin> set (map dialled all_clients)" by code_simp
  show "set (map dialled all_clients) \<subseteq> set (map served_at all_servers)" by code_simp
  show "length all_clients = 20" by code_simp
qed

end
