(* ===== verification/Failover_Cdf.thy ===== *)
theory Failover_Cdf
  imports Log_Window Elections
begin

text \<open>
  \<open>scripts/time_cdf.ipynb\<close>: how long the cluster needs to elect a new leader after a leader failed. The
  first cell collects failures and elections from the logs, the last one pairs every failure with the next
  election and draws the distribution of the distances. The data frames of pandas are lists of rows;
  \<open>sort_values\<close> is a parameter \<open>srt\<close> that returns the rows ordered by time, with no
  promise about rows of the same time. A column of a frame without rows does not exist (\<open>KeyError\<close>).
\<close>

subsection \<open>Reading the logs\<close>

definition fo_stamp :: regex where
  "fo_stamp = rseq [lit ''I'', Cap 1 (rseq [rep 8 rdigit, lit '' '', rep 2 rdigit, lit '':'', rep 2 rdigit, lit '':'', rep 2 rdigit, lit ''.'', plus rdigit]), Star rdot]"

definition fo_failure_pattern :: regex where
  "fo_failure_pattern = rseq [fo_stamp, lit ''Leader has stopped for term: '', Cap 2 (plus rdigit)]"

definition fo_election_pattern :: regex where
  "fo_election_pattern = rseq [fo_stamp, lit ''Became leader. Starting to send heartbeats. Elected Term: '', Cap 2 (plus rdigit)]"

record fo_event =
  ev_time :: datetime
  ev_term :: int
  ev_file :: string

text \<open>
  \<open>election_match\<close> is a local variable that a line assigns only when it is not a failure line: \<open>None\<close> before
  the first such line.
\<close>

record fo_state =
  fo_failures :: "fo_event list"
  fo_elections :: "fo_event list"
  election_match :: "caps option option"

definition fo_init :: fo_state where
  "fo_init = \<lparr>fo_failures = [], fo_elections = [], election_match = None\<rparr>"

text \<open>The term of a failure is read from \<open>election_match\<close>, not from \<open>failure_match\<close>.\<close>

definition match_term :: "caps option option \<Rightarrow> int res" where
  "match_term em = (case em of
       None \<Rightarrow> Inl UnboundLocalError
     | Some None \<Rightarrow> Inl AttributeError
     | Some (Some m) \<Rightarrow> Inr (int_of_digits (group m 2)))"

definition fo_line :: "string \<Rightarrow> fo_state \<Rightarrow> string \<Rightarrow> fo_state res" where
  "fo_line fname s line = (case re_search fo_failure_pattern line of
       Some fm \<Rightarrow>
         bind_res (strptime (group fm 1)) (\<lambda>t.
         bind_res (match_term (election_match s)) (\<lambda>tm.
         Inr (s\<lparr>fo_failures := fo_failures s @ [\<lparr>ev_time = t, ev_term = tm, ev_file = fname\<rparr>]\<rparr>)))
     | None \<Rightarrow>
         let em = re_search fo_election_pattern line; s' = s\<lparr>election_match := Some em\<rparr> in
         case em of
           None \<Rightarrow> Inr s'
         | Some m \<Rightarrow>
             let tm = int_of_digits (group m 2) in
             bind_res (strptime (group m 1)) (\<lambda>t.
             Inr (s'\<lparr>fo_elections := fo_elections s @ [\<lparr>ev_time = t, ev_term = tm, ev_file = fname\<rparr>]\<rparr>)))"

definition fo_parse_log_file :: "string \<Rightarrow> string list \<Rightarrow> (fo_event list \<times> fo_event list) res" where
  "fo_parse_log_file fname lines = bind_res (res_fold (fo_line fname) lines fo_init) (\<lambda>s. Inr (fo_failures s, fo_elections s))"

definition fo_file :: "(string \<Rightarrow> string list option) \<Rightarrow> fo_event list \<times> fo_event list \<Rightarrow> string \<Rightarrow> (fo_event list \<times> fo_event list) res" where
  "fo_file read acc fname = (case read fname of
       None \<Rightarrow> Inl FileNotFoundError
     | Some lines \<Rightarrow> bind_res (fo_parse_log_file fname lines) (\<lambda>(fs, es). Inr (fst acc @ fs, snd acc @ es)))"

definition parse_all_logs :: "string list option \<Rightarrow> (string \<Rightarrow> string list option) \<Rightarrow> (fo_event list \<times> fo_event list) res" where
  "parse_all_logs listing read = (case listing of
       None \<Rightarrow> Inl FileNotFoundError
     | Some names \<Rightarrow> res_fold (fo_file read) (files_to_process names) ([], []))"

subsection \<open>From failures to the curve\<close>

record fo_diff =
  fd_term :: int
  fd_failure :: datetime
  fd_election :: datetime
  fd_ms :: real

definition next_election :: "fo_event list \<Rightarrow> fo_event \<Rightarrow> fo_diff option" where
  "next_election es f = (case filter (\<lambda>e. ev_time f < ev_time e) es of
       [] \<Rightarrow> None
     | e # _ \<Rightarrow> Some \<lparr>fd_term = ev_term e, fd_failure = ev_time f, fd_election = ev_time e,
         fd_ms = total_seconds (ev_time e) (ev_time f) * 1000\<rparr>)"

definition time_differences :: "(fo_event list \<Rightarrow> fo_event list) \<Rightarrow> fo_event list \<Rightarrow> fo_event list \<Rightarrow> fo_diff list res" where
  "time_differences srt failures elections =
     (if failures = [] \<or> elections = [] then Inl KeyError
      else Inr (List.map_filter (next_election (srt elections)) (srt failures)))"

definition cdf_points :: "fo_diff list \<Rightarrow> (real \<times> real) list res" where
  "cdf_points ds =
     (if ds = [] then Inl KeyError
      else let sorted_times = sort (map fd_ms ds) in
        Inr (zip sorted_times (map (\<lambda>i. real i / real (length sorted_times)) [1..<length sorted_times + 1])))"

definition notebook :: "(fo_event list \<Rightarrow> fo_event list) \<Rightarrow> string list option \<Rightarrow> (string \<Rightarrow> string list option) \<Rightarrow> (real \<times> real) list res" where
  "notebook srt listing read =
     bind_res (parse_all_logs listing read) (\<lambda>(failures, elections).
     bind_res (time_differences srt failures elections) cdf_points)"

subsection \<open>Which logs can be read\<close>

definition is_failure :: "string \<Rightarrow> bool" where
  "is_failure line \<longleftrightarrow> re_search fo_failure_pattern line \<noteq> None"

definition elected :: "string \<Rightarrow> int option" where
  "elected line = (if is_failure line then None
     else map_option (\<lambda>m. int_of_digits (group m 2)) (re_search fo_election_pattern line))"

text \<open>The timestamp of a failure or election line, and whether it is a date.\<close>

definition line_time :: "string \<Rightarrow> datetime res option" where
  "line_time line = (case re_search fo_failure_pattern line of
       Some m \<Rightarrow> Some (strptime (group m 1))
     | None \<Rightarrow> map_option (\<lambda>m. strptime (group m 1)) (re_search fo_election_pattern line))"

definition dated :: "string \<Rightarrow> bool" where
  "dated line \<longleftrightarrow> (case line_time line of None \<Rightarrow> True | Some r \<Rightarrow> \<not> isl r)"

definition the_time :: "string \<Rightarrow> datetime" where
  "the_time line = projr (the (line_time line))"

lemma not_dated: "\<not> list_all dated lines \<longleftrightarrow> list_ex (\<lambda>l. line_time l \<in> Some ` range Inl) lines"
  by (induction lines) (auto simp: dated_def isl_def split: option.splits)

text \<open>The last line before a position that is not itself a failure line, and the term elected there.\<close>

definition last_plain :: "string list \<Rightarrow> string option" where
  "last_plain pre = (case dropWhile is_failure (rev pre) of [] \<Rightarrow> None | l # _ \<Rightarrow> Some l)"

definition failure_terms :: "string list \<Rightarrow> int option list" where
  "failure_terms lines = map (\<lambda>i. Option.bind (last_plain (take i lines)) elected) (filter (\<lambda>i. is_failure (lines ! i)) [0..<length lines])"

definition election_events :: "string \<Rightarrow> string list \<Rightarrow> fo_event list" where
  "election_events fname lines = List.map_filter (\<lambda>l. map_option (\<lambda>tm. \<lparr>ev_time = the_time l, ev_term = tm, ev_file = fname\<rparr>) (elected l)) lines"

lemma failure_terms_Nil [simp]: "failure_terms [] = []"
  by (simp add: failure_terms_def)

lemma failure_terms_snoc [simp]:
  "failure_terms (lines @ [l]) = failure_terms lines @ (if is_failure l then [Option.bind (last_plain lines) elected] else [])"
proof -
  have "filter (\<lambda>i. is_failure ((lines @ [l]) ! i)) [0..<length lines] = filter (\<lambda>i. is_failure (lines ! i)) [0..<length lines]"
    by (rule filter_cong) (auto simp: nth_append)
  moreover have "map (\<lambda>i. Option.bind (last_plain (take i (lines @ [l]))) elected) (filter (\<lambda>i. is_failure (lines ! i)) [0..<length lines])
      = map (\<lambda>i. Option.bind (last_plain (take i lines)) elected) (filter (\<lambda>i. is_failure (lines ! i)) [0..<length lines])"
    by (rule map_cong) auto
  ultimately show ?thesis by (simp add: failure_terms_def)
qed

lemma last_plain_Nil [simp]: "last_plain [] = None"
  by (simp add: last_plain_def)

lemma last_plain_snoc [simp]: "last_plain (lines @ [l]) = (if is_failure l then last_plain lines else Some l)"
  by (simp add: last_plain_def)

lemma election_events_snoc [simp]:
  "election_events f (lines @ [l]) = election_events f lines
     @ (case elected l of None \<Rightarrow> [] | Some tm \<Rightarrow> [\<lparr>ev_time = the_time l, ev_term = tm, ev_file = f\<rparr>])"
  by (simp add: election_events_def split: option.splits)

lemma last_plain_plain: "last_plain lines = Some l \<Longrightarrow> \<not> is_failure l"
  by (induction lines rule: rev_induct) (auto split: if_splits)

lemma match_term_elected:
  "match_term (map_option (re_search fo_election_pattern) (last_plain lines)) = Inr tm
     \<longleftrightarrow> Option.bind (last_plain lines) elected = Some tm"
  using last_plain_plain [of lines]
  by (cases "last_plain lines") (auto simp: match_term_def elected_def split: option.splits)

text \<open>What the loop has collected after a part of the log.\<close>

definition read_ok :: "string \<Rightarrow> string list \<Rightarrow> fo_state \<Rightarrow> bool" where
  "read_ok f lines s \<longleftrightarrow> list_all dated lines \<and> failure_terms lines = map (\<lambda>e. Some (ev_term e)) (fo_failures s)
     \<and> map ev_time (fo_failures s) = map the_time (filter is_failure lines) \<and> (\<forall>e \<in> set (fo_failures s). ev_file e = f)
     \<and> fo_elections s = election_events f lines
     \<and> election_match s = map_option (re_search fo_election_pattern) (last_plain lines)"

lemma fo_line_fails:
  assumes "read_ok f lines s" "fo_line f s l = Inl e"
  shows "\<not> dated l \<or> None \<in> set (failure_terms (lines @ [l]))"
proof (cases "is_failure l")
  case True
  then obtain m where m: "re_search fo_failure_pattern l = Some m" by (auto simp: is_failure_def)
  show ?thesis
  proof (cases "strptime (group m 1)")
    case (Inl e)
    then show ?thesis by (simp add: dated_def line_time_def m)
  next
    case (Inr t)
    with assms(2) m have "\<exists>e. match_term (election_match s) = Inl e" by (auto simp: fo_line_def bind_res_def split: sum.splits)
    then have "\<nexists>tm. match_term (election_match s) = Inr tm" by auto
    then have "Option.bind (last_plain lines) elected = None" using assms(1) by (auto simp: read_ok_def match_term_elected)
    with True show ?thesis by simp
  qed
next
  case False
  then have "re_search fo_failure_pattern l = None" by (simp add: is_failure_def)
  then show ?thesis using assms(2)
    by (auto simp: fo_line_def dated_def line_time_def bind_res_def Let_def split: option.splits sum.splits)
qed

lemma fo_line_step:
  assumes "read_ok f lines s" "fo_line f s l = Inr s'"
  shows "read_ok f (lines @ [l]) s'"
proof (cases "is_failure l")
  case True
  then obtain m where m: "re_search fo_failure_pattern l = Some m" by (auto simp: is_failure_def)
  with assms(2) obtain t tm where t: "strptime (group m 1) = Inr t" "match_term (election_match s) = Inr tm"
    and s': "s' = s\<lparr>fo_failures := fo_failures s @ [\<lparr>ev_time = t, ev_term = tm, ev_file = f\<rparr>]\<rparr>"
    by (auto simp: fo_line_def bind_res_def split: sum.splits)
  from t(2) assms(1) have "Option.bind (last_plain lines) elected = Some tm" by (simp add: read_ok_def match_term_elected)
  moreover have "elected l = None" using True by (simp add: elected_def)
  moreover have "dated l" "the_time l = t" using t(1) by (simp_all add: dated_def the_time_def line_time_def m)
  ultimately show ?thesis using assms(1) True s' by (auto simp: read_ok_def)
next
  case False
  then have n: "re_search fo_failure_pattern l = None" by (simp add: is_failure_def)
  show ?thesis
  proof (cases "re_search fo_election_pattern l")
    case None
    then have "dated l" "elected l = None" by (simp_all add: dated_def line_time_def n elected_def)
    with None False assms show ?thesis by (auto simp: read_ok_def fo_line_def n Let_def)
  next
    case (Some m)
    with assms(2) n obtain t where t: "strptime (group m 1) = Inr t"
      and s': "s' = s\<lparr>election_match := Some (Some m), fo_elections := fo_elections s @ [\<lparr>ev_time = t, ev_term = int_of_digits (group m 2), ev_file = f\<rparr>]\<rparr>"
      by (auto simp: fo_line_def bind_res_def Let_def split: sum.splits)
    have "dated l" "the_time l = t" using t by (simp_all add: dated_def the_time_def line_time_def n Some)
    moreover have "elected l = Some (int_of_digits (group m 2))" using False Some by (simp add: elected_def)
    ultimately show ?thesis using assms(1) False Some s' by (auto simp: read_ok_def)
  qed
qed

lemma res_fold_fo_line:
  "case res_fold (fo_line f) lines fo_init of
     Inl e \<Rightarrow> \<not> list_all dated lines \<or> None \<in> set (failure_terms lines)
   | Inr s \<Rightarrow> read_ok f lines s"
proof (induction lines rule: rev_induct)
  case Nil
  then show ?case by (simp add: read_ok_def fo_init_def election_events_def)
next
  case (snoc l lines)
  show ?case
  proof (cases "res_fold (fo_line f) lines fo_init")
    case (Inl e)
    with snoc show ?thesis by (auto simp: res_fold_append)
  next
    case (Inr s)
    with snoc have ok: "read_ok f lines s" by simp
    show ?thesis
      using Inr fo_line_step [OF ok] fo_line_fails [OF ok] by (cases "fo_line f s l") (auto simp: res_fold_append)
  qed
qed

text \<open>
  When a log can be read, and what is read. \<open>parse_log_file\<close> of the notebook returns exactly when every
  failure or election line carries a date and every failure line comes right after an election
  line, up to further failure lines in between; then the failures are those lines, with the terms of these
  elections, and the elections are the election lines. On any other log it raises, in particular whenever
  an ordinary line stands directly before a failure line.
\<close>

theorem fo_parse_log_file_reads:
  "case fo_parse_log_file fname lines of
     Inr (fs, es) \<Rightarrow> list_all dated lines \<and> failure_terms lines = map (\<lambda>e. Some (ev_term e)) fs
       \<and> map ev_time fs = map the_time (filter is_failure lines) \<and> es = election_events fname lines
   | Inl e \<Rightarrow> None \<in> set (failure_terms lines) \<or> list_ex (\<lambda>l. line_time l \<in> Some ` range Inl) lines"
  using res_fold_fo_line [where f = fname and lines = lines]
  by (cases "res_fold (fo_line fname) lines fo_init") (auto simp: fo_parse_log_file_def read_ok_def not_dated)

subsection \<open>The curve\<close>

text \<open>What pandas documents of \<open>sort_values\<close>: the same rows, ordered by the column.\<close>

definition sorts :: "(fo_event list \<Rightarrow> fo_event list) \<Rightarrow> bool" where
  "sorts srt \<longleftrightarrow> (\<forall>xs. mset (srt xs) = mset xs \<and> sorted (map ev_time (srt xs)))"

definition recovered :: "fo_event list \<Rightarrow> fo_event \<Rightarrow> bool" where
  "recovered es f \<longleftrightarrow> (\<exists>e \<in> set es. ev_time f < ev_time e)"

text \<open>Milliseconds from a failure to the earliest election after it.\<close>

definition wait_ms :: "fo_event list \<Rightarrow> fo_event \<Rightarrow> real" where
  "wait_ms es f = total_seconds (Min {t \<in> ev_time ` set es. ev_time f < t}) (ev_time f) * 1000"

lemma sorts_set: "sorts srt \<Longrightarrow> set (srt xs) = set xs"
  by (metis sorts_def set_mset_mset)

lemma next_election_min:
  assumes "sorts srt"
  shows "map_option fd_ms (next_election (srt es) f) = (if recovered es f then Some (wait_ms es f) else None)"
proof (cases "filter (\<lambda>e. ev_time f < ev_time e) (srt es)")
  case Nil
  then have "\<not> recovered es f" using sorts_set [OF assms, of es] by (auto simp: recovered_def filter_empty_conv)
  with Nil show ?thesis by (simp add: next_election_def)
next
  case (Cons e rest)
  let ?S = "{t \<in> ev_time ` set es. ev_time f < t}"
  have set: "ev_time ` set (e # rest) = ?S"
    using sorts_set [OF assms, of es] by (auto simp flip: Cons)
  have "sorted (map ev_time (e # rest))"
    using assms unfolding Cons [symmetric] sorts_def by (simp add: sorted_filter)
  then have "Min ?S = ev_time e" unfolding set [symmetric] by (intro Min_eqI) auto
  moreover have "e \<in> set es" "ev_time f < ev_time e" using set by (auto simp: sorts_set [OF assms])
    (metis (mono_tags, lifting) Cons assms filter_eq_Cons_iff in_set_conv_decomp sorts_set)+
  ultimately show ?thesis using Cons by (auto simp: next_election_def recovered_def wait_ms_def)
qed

lemma map_filter_map_option: "map g (List.map_filter f xs) = List.map_filter (\<lambda>x. map_option g (f x)) xs"
  by (induction xs) (auto simp: map_filter_def split: option.splits)

lemma map_filter_if: "List.map_filter (\<lambda>x. if P x then Some (g x) else None) xs = map g (filter P xs)"
  by (induction xs) (auto simp: map_filter_def)

lemma differences_ms:
  assumes "sorts srt"
  shows "mset (map fd_ms (List.map_filter (next_election (srt es)) (srt fs))) = image_mset (wait_ms es) (mset (filter (recovered es) fs))"
proof -
  have "mset (filter (recovered es) (srt fs)) = mset (filter (recovered es) fs)"
    using assms by (simp add: sorts_def mset_filter)
  then show ?thesis
    unfolding map_filter_map_option next_election_min [OF assms] map_filter_if by simp
qed

text \<open>In a sorted list, the position after the last value up to \<open>xs ! i\<close> is the number of such values.\<close>

lemma sorted_rank:
  fixes xs :: "real list"
  assumes "sorted xs" "i < length xs"
  defines "c \<equiv> length (filter (\<lambda>y. y \<le> xs ! i) xs)"
  shows "i < c" "c \<le> length xs" "xs ! (c - 1) = xs ! i"
proof -
  have tw: "filter (\<lambda>y. y \<le> x) xs = takeWhile (\<lambda>y. y \<le> x) xs" for x
    using assms(1)
  proof (induction xs)
    case (Cons a xs)
    then show ?case by (cases "a \<le> x"; cases xs) auto
  qed simp
  then have c: "c = length (takeWhile (\<lambda>y. y \<le> xs ! i) xs)" by (simp add: c_def)
  then show le: "c \<le> length xs" by (simp add: length_takeWhile_le)
  show ic: "i < c"
  proof (rule ccontr)
    assume "\<not> i < c"
    then have "c \<le> i" by simp
    then have "\<not> xs ! c \<le> xs ! i" using nth_length_takeWhile [of "\<lambda>y. y \<le> xs ! i" xs] assms(2) unfolding c by simp
    with sorted_nth_mono [OF assms(1) \<open>c \<le> i\<close> assms(2)] show False by simp
  qed
  have "xs ! (c - 1) \<le> xs ! i"
    using ic c takeWhile_nth [of "c - 1" "\<lambda>y. y \<le> xs ! i" xs] set_takeWhileD [of "takeWhile (\<lambda>y. y \<le> xs ! i) xs ! (c - 1)"]
    by (metis diff_less dual_order.strict_trans1 less_one nth_mem not_less0 gr_zeroI le_less_linear)
  moreover have "xs ! i \<le> xs ! (c - 1)" using ic le assms(1) by (intro sorted_nth_mono) auto
  ultimately show "xs ! (c - 1) = xs ! i" by simp
qed

text \<open>
  C10: The curve. Whatever order \<open>sort_values\<close> gives to rows of the same time, the last cell fails (with a
  \<open>KeyError\<close>) exactly when no failure is followed by an election. Otherwise there is one point for each
  failure that is, its distance to the earliest election after it, in increasing order and with the heights
  1/n, ..., n/n; a point lies at most as high as the share of these failures that were over within its
  distance, and the point with that height is there: the dots trace the distribution function.
\<close>

theorem failover_cdf:
  assumes "sorts srt"
  shows "case bind_res (time_differences srt fs es) cdf_points of
     Inl e \<Rightarrow> e = KeyError \<and> filter (recovered es) fs = []
   | Inr pts \<Rightarrow> pts \<noteq> [] \<and> sorted (map fst pts)
       \<and> mset (map fst pts) = image_mset (wait_ms es) (mset (filter (recovered es) fs))
       \<and> map snd pts = map (\<lambda>i. real i / real (length pts)) [1..<length pts + 1]
       \<and> list_all (\<lambda>(x, y). y \<le> real (size (filter_mset (\<lambda>m. m \<le> x) (mset (map fst pts)))) / real (length pts)
           \<and> (x, real (size (filter_mset (\<lambda>m. m \<le> x) (mset (map fst pts)))) / real (length pts)) \<in> set pts) pts"
proof (cases "filter (recovered es) fs")
  case Nil
  then have "List.map_filter (next_election (srt es)) (srt fs) = []" using differences_ms [OF assms, of es fs] by simp
  with Nil show ?thesis by (simp add: time_differences_def cdf_points_def)
next
  case (Cons f rest)
  define ds where "ds = List.map_filter (next_election (srt es)) (srt fs)"
  define xs where "xs = sort (map fd_ms ds)"
  define n where "n = length xs"
  define pts where "pts = zip xs (map (\<lambda>i. real i / real n) [1..<n + 1])"
  have m: "mset xs = image_mset (wait_ms es) (mset (filter (recovered es) fs))"
    using differences_ms [OF assms, of es fs] by (simp add: xs_def ds_def)
  then have "xs \<noteq> []" using Cons by auto
  then have ds: "ds \<noteq> []" by (auto simp: xs_def)
  have "f \<in> set fs" "recovered es f" using Cons by (auto simp: filter_eq_Cons_iff)
  then have "fs \<noteq> []" "es \<noteq> []" by (auto simp: recovered_def)
  then have eq: "bind_res (time_differences srt fs es) cdf_points = Inr pts"
    using ds by (simp add: time_differences_def cdf_points_def ds_def pts_def xs_def n_def Let_def)
  have len: "length pts = n" and fst: "map fst pts = xs" and snd: "map snd pts = map (\<lambda>i. real i / real n) [1..<n + 1]"
    by (simp_all add: pts_def n_def del: upt_Suc)
  have nth: "pts ! i = (xs ! i, real (i + 1) / real n)" if "i < n" for i
    using that by (simp add: pts_def n_def del: upt_Suc)
  have rank: "size (filter_mset (\<lambda>m. m \<le> x) (mset xs)) = length (filter (\<lambda>m. m \<le> x) xs)" for x
    by (metis mset_filter size_mset)
  have srt: "sorted xs" by (simp add: xs_def)
  have "y \<le> real (length (filter (\<lambda>m. m \<le> x) xs)) / real n
      \<and> (x, real (length (filter (\<lambda>m. m \<le> x) xs)) / real n) \<in> set pts" if "(x, y) \<in> set pts" for x y
  proof -
    from that obtain i where i: "i < n" "pts ! i = (x, y)" by (auto simp: in_set_conv_nth len)
    then have xy: "x = xs ! i" "y = real (i + 1) / real n" using nth by auto
    define c where "c = length (filter (\<lambda>m. m \<le> x) xs)"
    have c: "i < c" "c \<le> n" "xs ! (c - 1) = x"
      using sorted_rank [OF srt, of i] i(1) by (simp_all add: c_def xy n_def)
    then have "pts ! (c - 1) = (x, real c / real n)" using nth [of "c - 1"] by simp
    then have "(x, real c / real n) \<in> set pts" using c len by (metis nth_mem Suc_pred' less_or_eq_imp_le linorder_not_le Suc_le_lessD not_less_zero gr_zeroI)
    moreover have "y \<le> real c / real n" using c i(1) by (simp add: xy divide_right_mono)
    ultimately show ?thesis by (simp add: c_def)
  qed
  then have "list_all (\<lambda>(x, y). y \<le> real (length (filter (\<lambda>m. m \<le> x) xs)) / real n
      \<and> (x, real (length (filter (\<lambda>m. m \<le> x) xs)) / real n) \<in> set pts) pts" by (auto simp: list_all_iff)
  moreover have "pts \<noteq> []" using \<open>xs \<noteq> []\<close> len n_def by auto
  ultimately show ?thesis using srt m unfolding eq sum.case fst snd len rank by blast
qed

definition demo_event :: "int \<Rightarrow> int \<Rightarrow> fo_event" where
  "demo_event sec tm = \<lparr>ev_time = Datetime 2024 9 26 18 37 sec 0, ev_term = tm, ev_file = ''node_0.log''\<rparr>"

text \<open>Two failures and two elections: both failures are over within two seconds, one of them within one.\<close>

theorem failover_cdf_witness:
  "\<exists>pts. bind_res (time_differences (sort_key ev_time) [demo_event 20 1, demo_event 10 0] [demo_event 22 2, demo_event 11 1]) cdf_points = Inr pts
     \<and> mset (map fst pts) = {#2000, 1000#} \<and> sorted (map fst pts)"
proof -
  let ?fs = "[demo_event 20 1, demo_event 10 0]" and ?es = "[demo_event 22 2, demo_event 11 1]"
  have srt: "sorts (sort_key ev_time)" by (simp add: sorts_def)
  have lt: "Datetime 2024 9 26 18 37 a 0 < Datetime 2024 9 26 18 37 b 0 \<longleftrightarrow> a < b" for a b
    by (simp add: less_datetime_def dt_key_def)
  have later: "{t \<in> ev_time ` set ?es. ev_time (demo_event 20 1) < t} = {Datetime 2024 9 26 18 37 22 0}"
    "{t \<in> ev_time ` set ?es. ev_time (demo_event 10 0) < t} = {Datetime 2024 9 26 18 37 22 0, Datetime 2024 9 26 18 37 11 0}"
    by (auto simp: demo_event_def lt)
  have "min (Datetime 2024 9 26 18 37 22 0) (Datetime 2024 9 26 18 37 11 0) = Datetime 2024 9 26 18 37 11 0"
    by (simp add: min_def less_eq_datetime_def dt_key_def)
  then have w: "wait_ms ?es (demo_event 20 1) = 2000" "wait_ms ?es (demo_event 10 0) = 1000"
    unfolding wait_ms_def later by (simp_all add: total_seconds_def us_of_def demo_event_def toordinal_def)
  have r: "filter (recovered ?es) ?fs = ?fs" by (simp add: recovered_def demo_event_def lt)
  show ?thesis
    using failover_cdf [OF srt, where fs = ?fs and es = ?es] unfolding r
    by (cases "bind_res (time_differences (sort_key ev_time) ?fs ?es) cdf_points") (simp_all add: w)
qed

end
