(* ===== verification/Py_Float.thy ===== *)
theory Py_Float
  imports Py_Stats
begin

text \<open>
  Python floats that may be infinite or not a number, for the scripts that read the output of a benchmark:
  \<open>float(s)\<close> on any string, the comparison and the arithmetic the scripts use, and \<open>max\<close>, \<open>min\<close>,
  \<open>statistics.mean\<close> and \<open>statistics.stdev\<close>. Finite values are exact reals: rounding, and the overflow of a
  literal to infinity, are not modelled.
\<close>

datatype pyfloat = Finite real | Infinite bool | Not_a_number

fun finite_float :: "pyfloat \<Rightarrow> bool" where
  "finite_float (Finite x) = True"
| "finite_float _ = False"

fun the_float :: "pyfloat \<Rightarrow> real" where
  "the_float (Finite x) = x"
| "the_float _ = 0"

subsection \<open>\<open>float(s)\<close>\<close>

text \<open>The exponent after an \<open>e\<close>: digits with at most one sign.\<close>

definition read_exponent :: "string \<Rightarrow> int option" where
  "read_exponent s = (case s of
       [] \<Rightarrow> None
     | c # t \<Rightarrow> let neg = (c = CHR ''-''); u = (if c = CHR ''-'' \<or> c = CHR ''+'' then t else s) in
         if digits_ok u then Some ((if neg then -1 else 1) * int_of_digits (filter is_digit u)) else None)"

definition scale10 :: "real \<Rightarrow> int \<Rightarrow> real" where
  "scale10 x e = (if 0 \<le> e then x * 10 ^ nat e else x / 10 ^ nat (- e))"

text \<open>The digits before and after the point; one of the two may be missing, but not both.\<close>

definition read_mantissa :: "string \<Rightarrow> real option" where
  "read_mantissa s = (case split_on (CHR ''.'') s of
       [a] \<Rightarrow> if digits_ok a then Some (real_of_int (int_of_digits (filter is_digit a))) else None
     | [a, b] \<Rightarrow> if (a \<noteq> [] \<or> b \<noteq> []) \<and> (a = [] \<or> digits_ok a) \<and> (b = [] \<or> digits_ok b)
         then let fr = filter is_digit b in Some (real_of_int (int_of_digits (filter is_digit a @ fr)) / 10 ^ length fr) else None
     | _ \<Rightarrow> None)"

definition read_unsigned :: "string \<Rightarrow> real option" where
  "read_unsigned s = (let m = takeWhile (\<lambda>c. c \<noteq> CHR ''e'' \<and> c \<noteq> CHR ''E'') s; r = drop (length m) s in
     case read_mantissa m of
       None \<Rightarrow> None
     | Some x \<Rightarrow> if r = [] then Some x else map_option (scale10 x) (read_exponent (tl r)))"

definition lower_ascii :: "char \<Rightarrow> char" where
  "lower_ascii c = (if 65 \<le> code c \<and> code c \<le> 90 then char_of (code c + 32) else c)"

definition read_float :: "string \<Rightarrow> pyfloat res" where
  "read_float s = (let t = strip s; neg = (t \<noteq> [] \<and> hd t = CHR ''-'');
       u = (if t \<noteq> [] \<and> (hd t = CHR ''-'' \<or> hd t = CHR ''+'') then tl t else t); l = map lower_ascii u in
     if l = ''inf'' \<or> l = ''infinity'' then Inr (Infinite neg)
     else if l = ''nan'' then Inr Not_a_number
     else (case read_unsigned u of None \<Rightarrow> Inl ValueError | Some x \<Rightarrow> Inr (Finite (if neg then - x else x))))"

subsection \<open>Comparison and arithmetic\<close>

text \<open>\<open>Infinite True\<close> is minus infinity.\<close>

fun flt_less :: "pyfloat \<Rightarrow> pyfloat \<Rightarrow> bool" where
  "flt_less (Finite x) (Finite y) = (x < y)"
| "flt_less (Finite x) (Infinite n) = (\<not> n)"
| "flt_less (Infinite n) (Finite y) = n"
| "flt_less (Infinite m) (Infinite n) = (m \<and> \<not> n)"
| "flt_less _ _ = False"

fun flt_add :: "pyfloat \<Rightarrow> pyfloat \<Rightarrow> pyfloat" where
  "flt_add (Finite x) (Finite y) = Finite (x + y)"
| "flt_add (Finite x) (Infinite n) = Infinite n"
| "flt_add (Infinite n) (Finite y) = Infinite n"
| "flt_add (Infinite m) (Infinite n) = (if m = n then Infinite m else Not_a_number)"
| "flt_add _ _ = Not_a_number"

fun flt_neg :: "pyfloat \<Rightarrow> pyfloat" where
  "flt_neg (Finite x) = Finite (- x)"
| "flt_neg (Infinite n) = Infinite (\<not> n)"
| "flt_neg Not_a_number = Not_a_number"

definition flt_sub :: "pyfloat \<Rightarrow> pyfloat \<Rightarrow> pyfloat" where
  "flt_sub a b = flt_add a (flt_neg b)"

text \<open>Division by a positive constant.\<close>

fun flt_over :: "pyfloat \<Rightarrow> real \<Rightarrow> pyfloat" where
  "flt_over (Finite x) d = Finite (x / d)"
| "flt_over a d = a"

text \<open>\<open>max\<close> and \<open>min\<close> keep the first of the values that no later one beats; an empty list raises.\<close>

definition flt_max :: "pyfloat list \<Rightarrow> pyfloat res" where
  "flt_max xs = (case xs of [] \<Rightarrow> Inl ValueError | x # r \<Rightarrow> Inr (foldl (\<lambda>m y. if flt_less m y then y else m) x r))"

definition flt_min :: "pyfloat list \<Rightarrow> pyfloat res" where
  "flt_min xs = (case xs of [] \<Rightarrow> Inl ValueError | x # r \<Rightarrow> Inr (foldl (\<lambda>m y. if flt_less y m then y else m) x r))"

text \<open>
  \<open>statistics.mean\<close>: as soon as a value is not finite, the sum of those that are not decides.
  \<open>statistics.stdev\<close> raises on such data (which exception depends on the version of the module).
\<close>

definition flt_mean :: "pyfloat list \<Rightarrow> pyfloat res" where
  "flt_mean xs = (case filter (\<lambda>x. \<not> finite_float x) xs of
       [] \<Rightarrow> if xs = [] then Inl ValueError else Inr (Finite (mean_of (map the_float xs)))
     | x # r \<Rightarrow> Inr (foldl flt_add x r))"

definition flt_stdev :: "pyfloat list \<Rightarrow> pyfloat res" where
  "flt_stdev xs = (if list_all finite_float xs then bind_res (stdev (map the_float xs)) (\<lambda>x. Inr (Finite x)) else Inl ValueError)"

subsection \<open>Finite values\<close>

lemma finite_float_iff: "finite_float a \<longleftrightarrow> (\<exists>x. a = Finite x)"
  by (cases a) auto

lemma flt_sub_Finite [simp]: "flt_sub (Finite x) (Finite y) = Finite (x - y)"
  by (simp add: flt_sub_def)

lemma all_finite: "list_all finite_float xs \<longleftrightarrow> xs = map Finite (map the_float xs)"
proof
  show "list_all finite_float xs \<Longrightarrow> xs = map Finite (map the_float xs)"
    by (induction xs) (auto simp: finite_float_iff)
  show "xs = map Finite (map the_float xs) \<Longrightarrow> list_all finite_float xs"
    by (metis (no_types, lifting) finite_float.simps(1) list_all_length length_map nth_map)
qed

lemma foldl_max_Finite: "foldl (\<lambda>m y. if flt_less m y then y else m) (Finite x) (map Finite ys) = Finite (fold max ys x)"
proof (induction ys arbitrary: x)
  case (Cons y ys)
  then show ?case by (cases "x < y") (simp_all add: max_def)
qed simp

lemma foldl_min_Finite: "foldl (\<lambda>m y. if flt_less y m then y else m) (Finite x) (map Finite ys) = Finite (fold min ys x)"
proof (induction ys arbitrary: x)
  case (Cons y ys)
  then show ?case by (cases "y < x") (simp_all add: min_def)
qed simp

lemma flt_max_Finite: "ys \<noteq> [] \<Longrightarrow> flt_max (map Finite ys) = Inr (Finite (Max (set ys)))"
  by (cases ys) (simp_all add: flt_max_def foldl_max_Finite Max.set_eq_fold del: list.set)

lemma flt_min_Finite: "ys \<noteq> [] \<Longrightarrow> flt_min (map Finite ys) = Inr (Finite (Min (set ys)))"
  by (cases ys) (simp_all add: flt_min_def foldl_min_Finite Min.set_eq_fold del: list.set)

lemma flt_mean_Finite: "ys \<noteq> [] \<Longrightarrow> flt_mean (map Finite ys) = Inr (Finite (mean_of ys))"
  by (simp add: flt_mean_def filter_map comp_def)

lemma flt_stdev_Finite: "2 \<le> length ys \<Longrightarrow> flt_stdev (map Finite ys) = bind_res (stdev ys) (\<lambda>x. Inr (Finite x))"
  by (simp add: flt_stdev_def list_all_iff comp_def)

end
