(* ===== verification/Delay_Setup.thy ===== *)
theory Delay_Setup
  imports Tasks
begin

text \<open>
  Link delays: \<open>delay_setup/delay_setup_asymmetric_topo.py\<close> for the nodes of the asymmetric topology and
  the fat-tree functions of \<open>zookeeper_setup.py\<close> for the switches. What the commands leave behind is
  read off the attempted actions by \<open>qdisc\<close>: the netem rule of an interface after its last
  deletion or addition.
\<close>

definition del_cmd :: "string \<Rightarrow> string" where
  "del_cmd interface = ''sudo tc qdisc del dev '' @ interface @ '' root || true''"

subsection \<open>The asymmetric topology\<close>

definition topo_hosts :: "string list" where
  "topo_hosts = [''c220g1-031111.wisc.cloudlab.us'', ''c220g1-031130.wisc.cloudlab.us'', ''c220g1-031117.wisc.cloudlab.us'',
     ''c220g1-031119.wisc.cloudlab.us'', ''c220g1-031105.wisc.cloudlab.us'']"

definition node_interfaces :: "(string \<times> string list) list" where
  "node_interfaces = [(''node0'', [''enp129s0f0'', ''enp129s0f1'']), (''node1'', [''enp6s0f0'', ''enp6s0f1'']),
     (''node2'', [''enp6s0f0'', ''enp6s0f1'']), (''node3'', [''enp6s0f0'', ''enp6s0f1'']), (''node4'', [''enp129s0f0''])]"

definition add_delay :: "'e outside \<Rightarrow> string \<Rightarrow> string list \<Rightarrow> bool \<Rightarrow> ('e, unit) io" where
  "add_delay out h interfaces no_delay = guarded (foreach interfaces (\<lambda>interface. block [
     doio out (Run h (del_cmd interface)),
     if \<not> no_delay then doio out (Netem h interface 2 None) else return_io ()]))"

text \<open>
  An unknown node has no interfaces to loop over (\<open>TypeError\<close>) and an unknown connection cannot run
  anything (\<open>AttributeError\<close>); both are caught. An empty \<open>interface_list\<close> selects all interfaces.
\<close>

definition node_rule :: "string \<Rightarrow> string \<Rightarrow> real \<Rightarrow> real \<Rightarrow> string \<Rightarrow> act" where
  "node_rule h interface delay_mean delay_std_dev delay_distribution =
     Netem h interface delay_mean (if delay_distribution \<noteq> ''constant'' then Some (delay_std_dev, delay_distribution) else None)"

definition add_delay_to_node :: "'e outside \<Rightarrow> int \<Rightarrow> real \<Rightarrow> real \<Rightarrow> string \<Rightarrow> (int, string) dict \<Rightarrow> string list \<Rightarrow> ('e, unit) io" where
  "add_delay_to_node out node_id delay_mean delay_std_dev delay_distribution connections interface_list = guarded (
     case map_of node_interfaces (''node'' @ show_int node_id) of
       None \<Rightarrow> raise_io TypeError
     | Some interfaces \<Rightarrow> foreach interfaces (\<lambda>interface.
         if interface_list \<noteq> [] \<and> interface \<notin> set interface_list then return_io ()
         else (case map_of connections node_id of
             None \<Rightarrow> raise_io AttributeError
           | Some h \<Rightarrow> acts_io out [Run h (del_cmd interface),
               node_rule h interface delay_mean delay_std_dev delay_distribution])))"

definition configured :: "int \<Rightarrow> string list" where
  "configured node_id = (case map_of node_interfaces (''node'' @ show_int node_id) of None \<Rightarrow> [] | Some is \<Rightarrow> is)"

text \<open>The closing check is not guarded.\<close>

definition add_delay_to_all_nodes :: "'e outside \<Rightarrow> real \<Rightarrow> real \<Rightarrow> string \<Rightarrow> (int, string) dict \<Rightarrow> ('e, unit) io" where
  "add_delay_to_all_nodes out delay_mean delay_std_dev delay_distribution connections = block [
     guarded (foreach connections (\<lambda>(node_id, v).
       if map_of node_interfaces (''node'' @ show_int node_id) \<noteq> None
       then add_delay_to_node out node_id delay_mean delay_std_dev delay_distribution connections [] else return_io ())),
     foreach connections (\<lambda>(node_id, v). foreach (configured node_id) (\<lambda>interface.
       doio out (Run v (''sudo tc qdisc show dev '' @ interface))))]"

definition clear_all_weights :: "'e outside \<Rightarrow> ('e, unit) io" where
  "clear_all_weights out = foreach (enumerate 0 topo_hosts) (\<lambda>(idx, h).
     case map_of node_interfaces (''node'' @ num idx) of
       None \<Rightarrow> return_io ()
     | Some interfaces \<Rightarrow> add_delay out h interfaces True)"

subsection \<open>The fat tree\<close>

record switch =
  sw_id :: int
  sw_conn :: string
  sw_interfaces :: "string list"

definition setup_delay_fat_tree :: "'e outside \<Rightarrow> switch list \<Rightarrow> real \<Rightarrow> ('e, unit) io" where
  "setup_delay_fat_tree out switch_info lat = foreach switch_info (\<lambda>sw. foreach (sw_interfaces sw) (\<lambda>interface.
     acts_io out [Run (sw_conn sw) (del_cmd interface),
       Netem (sw_conn sw) interface (if sw_id sw = 4 then lat * 3 else lat) None]))"

definition setup_delay_fat_tree_normal :: "'e outside \<Rightarrow> switch list \<Rightarrow> real \<Rightarrow> real \<Rightarrow> ('e, unit) io" where
  "setup_delay_fat_tree_normal out switch_info lat stddev = foreach switch_info (\<lambda>sw. foreach (sw_interfaces sw) (\<lambda>interface.
     acts_io out [Run (sw_conn sw) (del_cmd interface),
       Netem (sw_conn sw) interface (if sw_id sw = 4 then lat * 3 else lat) (Some (stddev, ''normal''))]))"

definition clear_all_switch_weights :: "'e outside \<Rightarrow> switch list \<Rightarrow> ('e, unit) io" where
  "clear_all_switch_weights out switch_info = foreach switch_info (\<lambda>sw. foreach (sw_interfaces sw) (\<lambda>interface.
     doio out (Run (sw_conn sw) (del_cmd interface))))"

subsection \<open>What the commands leave behind\<close>

type_synonym rule = "real \<times> (real \<times> string) option"

text \<open>The netem rule of an interface after one command.\<close>

definition qdisc_step :: "string \<Rightarrow> string \<Rightarrow> rule option \<Rightarrow> act \<Rightarrow> rule option" where
  "qdisc_step h i r a = (if a = Run h (del_cmd i) then None
     else case a of Netem h' i' d j \<Rightarrow> (if h' = h \<and> i' = i then Some (d, j) else r) | _ \<Rightarrow> r)"

definition qdisc :: "string \<Rightarrow> string \<Rightarrow> act list \<Rightarrow> rule option" where
  "qdisc h i as = foldl (qdisc_step h i) None as"

lemma qdisc_append: "qdisc h i (as @ bs) = foldl (qdisc_step h i) (qdisc h i as) bs"
  by (simp add: qdisc_def)

text \<open>The rules a call of the fat-tree functions asks for, interface by interface.\<close>

type_synonym rules = "((string \<times> string) \<times> rule) list"

definition fat_tree_rules :: "switch list \<Rightarrow> real \<Rightarrow> (real \<times> string) option \<Rightarrow> rules" where
  "fat_tree_rules sws lat j = concat (map (\<lambda>sw. map (\<lambda>interface.
     ((sw_conn sw, interface), (if sw_id sw = 4 then lat * 3 else lat, j))) (sw_interfaces sw)) sws)"

definition rule_acts :: "(string \<times> string) \<times> rule \<Rightarrow> act list" where
  "rule_acts x = [Run (fst (fst x)) (del_cmd (snd (fst x))), Netem (fst (fst x)) (snd (fst x)) (fst (snd x)) (snd (snd x))]"

lemma del_cmd_inject: "del_cmd i = del_cmd j \<longleftrightarrow> i = j"
  by (simp add: del_cmd_def)

lemma qdisc_rule: "foldl (qdisc_step h i) r (rule_acts x) = (if fst x = (h, i) then Some (snd x) else r)"
  by (cases x) (auto simp: rule_acts_def qdisc_step_def del_cmd_inject)

lemma qdisc_rules:
  "foldl (qdisc_step h i) r (concat (map rule_acts xs)) = (case map_of (rev xs) (h, i) of None \<Rightarrow> r | Some x \<Rightarrow> Some x)"
  by (induction xs rule: rev_induct) (auto simp: qdisc_rule split: option.splits)

lemma qdisc_among:
  assumes "\<forall>a \<in> set as. \<forall>d j. a = Netem h i d j \<longrightarrow> ((h, i), d, j) \<in> set xs"
  shows "foldl (qdisc_step h i) r as \<in> insert r (insert None (Some ` {x. ((h, i), x) \<in> set xs}))"
  using assms
proof (induction as rule: rev_induct)
  case Nil
  then show ?case by simp
next
  case (snoc a as)
  then show ?case by (cases a) (auto simp: qdisc_step_def)
qed

lemma fat_tree_follows:
  "follows (setup_delay_fat_tree_normal out sws lat sd) (concat (map rule_acts (fat_tree_rules sws lat (Some (sd, ''normal'')))))"
  "follows (setup_delay_fat_tree out sws lat) (concat (map rule_acts (fat_tree_rules sws lat None)))"
proof -
  have "follows (foreach sws (\<lambda>sw. foreach (sw_interfaces sw) (\<lambda>interface. acts_io out [Run (sw_conn sw) (del_cmd interface),
       Netem (sw_conn sw) interface (if sw_id sw = 4 then lat * 3 else lat) j])))
     (concat (map rule_acts (fat_tree_rules sws lat j)))" for j
  proof -
    have "concat (map rule_acts (fat_tree_rules sws lat j)) = concat (map (\<lambda>sw. concat (map (\<lambda>interface.
        [Run (sw_conn sw) (del_cmd interface), Netem (sw_conn sw) interface (if sw_id sw = 4 then lat * 3 else lat) j])
        (sw_interfaces sw))) sws)"
      by (induction sws) (simp_all add: fat_tree_rules_def rule_acts_def o_def)
    then show ?thesis by (auto intro!: follows_foreach follows_acts)
  qed
  then show "follows (setup_delay_fat_tree_normal out sws lat sd) (concat (map rule_acts (fat_tree_rules sws lat (Some (sd, ''normal'')))))"
    "follows (setup_delay_fat_tree out sws lat) (concat (map rule_acts (fat_tree_rules sws lat None)))"
    by (simp_all only: setup_delay_fat_tree_normal_def setup_delay_fat_tree_def)
qed

definition clear_acts :: "switch list \<Rightarrow> act list" where
  "clear_acts sws = concat (map (\<lambda>sw. map (\<lambda>interface. Run (sw_conn sw) (del_cmd interface)) (sw_interfaces sw)) sws)"

lemma clear_follows: "follows (clear_all_switch_weights out sws) (clear_acts sws)"
proof -
  have "follows (foreach is (\<lambda>i. doio out (Run h (del_cmd i)))) (map (\<lambda>i. Run h (del_cmd i)) is)" for h "is"
    using follows_foreach [of "is" "\<lambda>i. doio out (Run h (del_cmd i))" "\<lambda>i. [Run h (del_cmd i)]"]
    by (simp add: follows_doio concat_map_singleton)
  then show ?thesis unfolding clear_all_switch_weights_def clear_acts_def by (intro follows_foreach)
qed

lemma qdisc_clear:
  "foldl (qdisc_step h i) r (clear_acts sws) = (if (h, i) \<in> fst ` set (fat_tree_rules sws lat j) then None else r)"
proof -
  have "foldl (qdisc_step h i) r (map (\<lambda>x. Run k (del_cmd x)) xs) = (if h = k \<and> i \<in> set xs then None else r)" for k xs r
    by (induction xs arbitrary: r) (auto simp: qdisc_step_def del_cmd_inject)
  then have "foldl (qdisc_step h i) r (clear_acts sws) = (if \<exists>sw \<in> set sws. h = sw_conn sw \<and> i \<in> set (sw_interfaces sw) then None else r)"
    by (induction sws arbitrary: r) (auto simp: clear_acts_def)
  moreover have "(h, i) \<in> fst ` set (fat_tree_rules sws lat j) \<longleftrightarrow> (\<exists>sw \<in> set sws. h = sw_conn sw \<and> i \<in> set (sw_interfaces sw))"
    by (force simp: fat_tree_rules_def image_iff)
  ultimately show ?thesis by simp
qed

text \<open>The main block of \<open>zookeeper_setup.py\<close>, once the connections are loaded.\<close>

definition zk_main :: "'e outside \<Rightarrow> switch list \<Rightarrow> real \<Rightarrow> real \<Rightarrow> ('e, unit) io" where
  "zk_main out switch_info lat sd = block [
     clear_all_switch_weights out switch_info,
     setup_delay_fat_tree_normal out switch_info lat sd]"


end
