(* ===== verification/Zookeeper.thy ===== *)
theory Zookeeper
  imports Delay_Setup Threads Py_Regex Py_Time
begin

text \<open>
  \<open>scripts/zookeeper_setup.py\<close>: experiments on a ZooKeeper ensemble. The global \<open>connections\<close> (node id to
  connection) and \<open>switch_info\<close> are arguments of the functions that use them; the YAML files are read by a
  library and arrive here as values. The loop of \<open>designate_leader\<close>, which goes on until the
  ensemble elects the wanted node, is a partial function: \<open>None\<close> is a run that never ends.
\<close>

subsection \<open>Connections\<close>

record yaml_node =
  yn_id :: "int option"
  yn_connection :: "string option"
  yn_port :: "int option"
  yn_zk_ip :: "string option"

record fconn =
  fc_host :: string
  fc_user :: "string option"
  fc_port :: int

definition parse_conn :: "string \<Rightarrow> int \<Rightarrow> fconn" where
  "parse_conn conn_str prt =
     (if CHR ''@'' \<in> set conn_str
      then let user = takeWhile (\<lambda>c. c \<noteq> CHR ''@'') conn_str; h = tl (dropWhile (\<lambda>c. c \<noteq> CHR ''@'') conn_str) in
        \<lparr>fc_host = h, fc_user = (if user = [] then None else Some user), fc_port = prt\<rparr>
      else \<lparr>fc_host = conn_str, fc_user = None, fc_port = prt\<rparr>)"

definition load_node :: "(int, fconn) dict \<Rightarrow> yaml_node \<Rightarrow> (int, fconn) dict res" where
  "load_node connections n = (case yn_id n of None \<Rightarrow> Inl KeyError | Some node_id \<Rightarrow>
     (case yn_connection n of None \<Rightarrow> Inl KeyError | Some conn_str \<Rightarrow>
       Inr (AList.update node_id (parse_conn conn_str (case yn_port n of None \<Rightarrow> 22 | Some p \<Rightarrow> p)) connections)))"

fun load_nodes :: "yaml_node list \<Rightarrow> (int, fconn) dict \<Rightarrow> (int, fconn) dict res" where
  "load_nodes [] connections = Inr connections"
| "load_nodes (n # ns) connections = bind_res (load_node connections n) (load_nodes ns)"

definition load_connections :: "yaml_node list \<Rightarrow> switch list \<Rightarrow> (int, fconn) dict \<times> switch list \<Rightarrow> ((int, fconn) dict \<times> switch list) res" where
  "load_connections ns switches g = bind_res (load_nodes ns (fst g)) (\<lambda>connections. Inr (connections, snd g @ switches))"

definition hosts :: "(int, fconn) dict \<Rightarrow> (int, string) dict" where
  "hosts connections = map (\<lambda>(i, c). (i, fc_host c)) connections"

type_synonym conns = "(int, string) dict"

subsection \<open>Leaders\<close>

definition zk_nodes :: "string list" where
  "zk_nodes = [''PeterYao@c220g1-031111.wisc.cloudlab.us'', ''PeterYao@c220g1-031117.wisc.cloudlab.us'',
     ''PeterYao@c220g1-031130.wisc.cloudlab.us'', ''PeterYao@c220g1-031119.wisc.cloudlab.us'', ''PeterYao@c220g1-031105.wisc.cloudlab.us'']"

definition nodes_id_correspondence :: "int list" where
  "nodes_id_correspondence = [0, 2, 1, 3, 4]"

definition status_cmd :: string where "status_cmd = ''/users/PeterYao/zookeeper/bin/zkServer.sh status''"
definition stop_cmd :: string where "stop_cmd = ''~/zookeeper/bin/zkServer.sh stop''"
definition begin_cmd :: string where "begin_cmd = ''~/zookeeper/bin/zkServer.sh start''"

text \<open>\<open>get_leader\<close> ignores its parameter and asks all \<open>connections\<close>; the last one that says leader counts.\<close>

definition check_leader :: "'e outside \<Rightarrow> (int \<times> string) option \<Rightarrow> int \<times> string \<Rightarrow> ('e, (int \<times> string) option) io" where
  "check_leader out cur c = bind_io
     (try_io (bind_io (ask_text out (Run (snd c) status_cmd)) (\<lambda>s. return_io (Some s))) None)
     (\<lambda>r. case r of None \<Rightarrow> return_io cur | Some stdout \<Rightarrow> return_io (if str_in ''leader'' stdout then Some c else cur))"

definition get_leader :: "'e outside \<Rightarrow> conns \<Rightarrow> ('e, (int \<times> string) option) io" where
  "get_leader out connections = fold_io (check_leader out) connections None"

definition kill_node :: "'e outside \<Rightarrow> conns \<Rightarrow> int \<Rightarrow> ('e, unit) io" where
  "kill_node out connections node_id = (case map_of connections node_id of
       None \<Rightarrow> return_io () | Some h \<Rightarrow> guarded (doio out (Sudo h stop_cmd)))"

definition start_node :: "'e outside \<Rightarrow> conns \<Rightarrow> int \<Rightarrow> ('e, unit) io" where
  "start_node out connections node_id = (case map_of connections node_id of
       None \<Rightarrow> return_io () | Some h \<Rightarrow> guarded (doio out (Sudo h begin_cmd)))"

text \<open>One turn of the loop: stop the other nodes, wait, start them again, ask for the leader.\<close>

definition elect_round :: "'e outside \<Rightarrow> conns \<Rightarrow> int \<Rightarrow> int list \<Rightarrow> ('e, (int \<times> string) option) io" where
  "elect_round out connections node_id node_id_list =
     (if node_id \<notin> set node_id_list then raise_io ValueError
      else let temp = remove1 node_id node_id_list in
        bind_io (foreach temp (\<lambda>n. guarded (kill_node out connections n))) (\<lambda>_.
        bind_io (doio out (Sleep 25)) (\<lambda>_.
        bind_io (foreach temp (start_node out connections)) (\<lambda>_. get_leader out connections))))"

partial_function (option) designate_loop ::
    "'e outside \<Rightarrow> conns \<Rightarrow> int \<Rightarrow> int list \<Rightarrow> (int \<times> string) option \<Rightarrow> 'e world \<Rightarrow> (unit res \<times> 'e world) option" where
  "designate_loop out connections node_id node_id_list cur w =
     (if map_option fst cur = Some node_id then Some (Inr (), w)
      else case elect_round out connections node_id node_id_list w of
          (Inl e, w') \<Rightarrow> Some (Inl e, w')
        | (Inr l, w') \<Rightarrow> designate_loop out connections node_id node_id_list l w')"

definition designate_leader :: "'e outside \<Rightarrow> conns \<Rightarrow> int \<Rightarrow> int list \<Rightarrow> 'e world \<Rightarrow> (unit res \<times> 'e world) option" where
  "designate_leader out connections node_id node_id_list w = (case get_leader out connections w of
       (Inl e, w') \<Rightarrow> Some (Inl e, w')
     | (Inr l, w') \<Rightarrow> designate_loop out connections node_id node_id_list l w')"

definition index_of :: "int \<Rightarrow> int list \<Rightarrow> nat res" where
  "index_of x xs = (case List.find (\<lambda>i. xs ! i = x) [0..<length xs] of None \<Rightarrow> Inl ValueError | Some i \<Rightarrow> Inr i)"

text \<open>\<open>None\<close> is not in the list of ids, so without a leader \<open>index\<close> raises.\<close>

definition old_zk :: "string \<Rightarrow> string" where
  "old_zk verb = ''~/apache-zookeeper-3.8.4-bin/bin/zkServer.sh '' @ verb"

definition kill_leader_then_reinstatiate :: "'e outside \<Rightarrow> conns \<Rightarrow> ('e, unit) io" where
  "kill_leader_then_reinstatiate out connections =
     bind_io (get_leader out connections) (\<lambda>l.
     bind_io (from_res (case l of None \<Rightarrow> Inl ValueError | Some (i, _) \<Rightarrow> index_of i nodes_id_correspondence)) (\<lambda>seq.
     guarded (block [acts_io out [Sudo (zk_nodes ! seq) (old_zk ''stop''), Sleep 4, Sudo (zk_nodes ! seq) (old_zk ''start'')],
       bind_io (get_leader out connections) (\<lambda>_. return_io ())])))"

definition check_leader_node :: "'e outside \<Rightarrow> string list \<Rightarrow> ('e, unit) io" where
  "check_leader_node out grp = foreach grp (\<lambda>h. guarded (doio out
     (Run h ''/users/PeterYao/apache-zookeeper-3.8.4-bin/bin/zkServer.sh status'')))"

definition kill_running_zk :: "'e outside \<Rightarrow> string list \<Rightarrow> ('e, unit) io" where
  "kill_running_zk out grp = foreach grp (\<lambda>h. guarded (acts_io out
     [Sudo h stop_cmd, Sudo_warn h ''pkill -f QuorumPeerMain'']))"

definition start_zookeeper_server :: "'e outside \<Rightarrow> string list \<Rightarrow> ('e, unit) io" where
  "start_zookeeper_server out grp = foreach grp (\<lambda>h. guarded (doio out (Run h ''sudo ~/zookeeper/bin/zkServer.sh start'')))"

definition start_zk_ensemble_with_designated_leader :: "'e outside \<Rightarrow> string list \<Rightarrow> int \<Rightarrow> ('e, unit) io" where
  "start_zk_ensemble_with_designated_leader out grp leader =
     bind_io (from_res (index_of leader nodes_id_correspondence)) (\<lambda>idx.
     foreach [0..<length grp] (\<lambda>i. guarded (acts_io out
       [Sudo (grp ! ((idx + i) mod length grp)) (old_zk ''start''), Sleep 1])))"

subsection \<open>Installation\<close>

definition setup_ycsb_acts :: "string \<Rightarrow> bool \<Rightarrow> act list" where
  "setup_ycsb_acts h install_maven = (if install_maven then [Run h ''sudo apt update && sudo apt install -y maven''] else [])
     @ [Run h ''git clone http://github.com/brianfrankcooper/YCSB.git'',
        Run h ''cd YCSB && mvn -pl site.ycsb:zookeeper-binding -am clean package -DskipTests'']"

text \<open>An unknown node ends the whole loop.\<close>

fun setup_ycsb :: "'e outside \<Rightarrow> conns \<Rightarrow> int list \<Rightarrow> bool \<Rightarrow> ('e, unit) io" where
  "setup_ycsb out connections [] install_maven = return_io ()"
| "setup_ycsb out connections (n # ns) install_maven = (case map_of connections n of
       None \<Rightarrow> return_io ()
     | Some h \<Rightarrow> bind_io (guarded (acts_io out (setup_ycsb_acts h install_maven))) (\<lambda>_. setup_ycsb out connections ns install_maven))"

definition vary_link_latency :: "'e outside \<Rightarrow> conns \<Rightarrow> int \<Rightarrow> string \<Rightarrow> real \<Rightarrow> real \<Rightarrow> string \<Rightarrow> ('e, unit) io" where
  "vary_link_latency out connections node_id interface_name mean_delay std_dev dist_name = (case map_of connections node_id of
       None \<Rightarrow> return_io ()
     | Some h \<Rightarrow> guarded (acts_io out [Run h (del_cmd interface_name), Netem h interface_name mean_delay (Some (std_dev, dist_name))]))"

definition create_my_id :: "'e outside \<Rightarrow> conns \<Rightarrow> ('e, unit) io" where
  "create_my_id out group_dict = foreach group_dict (\<lambda>(i, h). acts_io out
     [Run h ''mkdir -p /users/PeterYao/zookeeper/data'',
      Run h (''echo '' @ show_int (i + 1) @ '' | sudo tee /users/PeterYao/zookeeper/data/myid'')])"

definition upload_zoo_cfg :: "'e outside \<Rightarrow> string \<Rightarrow> ('e, unit) io" where
  "upload_zoo_cfg out h = guarded (doio out (Put h ''zoo.cfg'' ''zookeeper/conf/zoo.cfg''))"

definition download_zookeeper :: "'e outside \<Rightarrow> string \<Rightarrow> ('e, unit) io" where
  "download_zookeeper out h = guarded (acts_io out
     [Run h ''wget https://dlcdn.apache.org/zookeeper/zookeeper-3.8.4/apache-zookeeper-3.8.4-bin.tar.gz'',
      Run h ''tar -xvf apache-zookeeper-3.8.4-bin.tar.gz'', Run h ''rm apache-zookeeper-3.8.4-bin.tar.gz''])"

definition download_zookeeper_github :: "'e outside \<Rightarrow> string \<Rightarrow> ('e, unit) io" where
  "download_zookeeper_github out h = guarded (doio out
     (Run h ''export JAVA_HOME=/usr/lib/jvm/java-11-openjdk-amd64 && cd zookeeper && mvn clean install -DskipTests''))"

text \<open>One thread per connection.\<close>

definition install_zookeeper_parallel :: "'e outside \<Rightarrow> conns \<Rightarrow> turn list \<Rightarrow> 'e world \<Rightarrow> 'e fan option" where
  "install_zookeeper_parallel out connections ts w = fan_run out ts (fan_init (map (\<lambda>h. try_acts
     [Run h ''export JAVA_HOME=/usr/lib/jvm/java-11-openjdk-amd64 && cd zookeeper && mvn clean install -DskipTests'']) (map snd connections)) w)"

definition setup_java :: "'e outside \<Rightarrow> string \<Rightarrow> ('e, unit) io" where
  "setup_java out h = guarded (acts_io out [Run h ''sudo apt update'', Run h ''sudo apt install -y default-jdk'', Run h ''java -version''])"

definition upload_new_logback_xml :: "'e outside \<Rightarrow> conns \<Rightarrow> ('e, unit) io" where
  "upload_new_logback_xml out connections = foreach connections (\<lambda>(i, h). guarded (doio out
     (Put h ''logback.xml'' ''/users/PeterYao/apache-zookeeper-3.8.4-bin/conf'')))"

lemma run_download_github:
  "run_code out (try_acts [Run h ''export JAVA_HOME=/usr/lib/jvm/java-11-openjdk-amd64 && cd zookeeper && mvn clean install -DskipTests''])
     = download_zookeeper_github out h"
  by (simp add: run_try_acts download_zookeeper_github_def acts_io_def)

interpretation install: fan_out out "map (download_zookeeper_github out) (map snd connections)"
    "map (\<lambda>h. [Run h ''export JAVA_HOME=/usr/lib/jvm/java-11-openjdk-amd64 && cd zookeeper && mvn clean install -DskipTests'']) (map snd connections)"
  for out :: "'e outside" and connections :: conns
  by unfold_locales (simp add: run_download_github)

text \<open>
  \<open>install_zookeeper_parallel\<close> ends under every schedule, after at most three turns per node, and one of the
  schedules builds on one node after the other; when it ends the build was started on every node once, whatever
  the other nodes answered.
\<close>

theorem install_parallel_all:
  "(case install_zookeeper_parallel out connections ts w of None \<Rightarrow> True
    | Some s \<Rightarrow> length ts \<le> 3 * length connections
       \<and> (\<exists>us s'. install_zookeeper_parallel out connections (ts @ us) w = Some s' \<and> fan_over s')
       \<and> (if fan_over s then list_all (\<lambda>i. map fst (thread_log i s) =
            [Run (snd (connections ! i)) ''export JAVA_HOME=/usr/lib/jvm/java-11-openjdk-amd64 && cd zookeeper && mvn clean install -DskipTests''])
              [0..<length connections] else True))
   \<and> (\<exists>us s. install_zookeeper_parallel out connections us w = Some s \<and> fan_over s
        \<and> fan_world s = snd (block (map (download_zookeeper_github out) (map snd connections)) w))"
proof (intro conjI)
  let ?cmd = "''export JAVA_HOME=/usr/lib/jvm/java-11-openjdk-amd64 && cd zookeeper && mvn clean install -DskipTests''"
  let ?plans = "map (\<lambda>h. [Run h ?cmd]) (map snd connections)"
  have init: "install_zookeeper_parallel out connections us w = fan_run out us (fan_init (map try_acts ?plans) w)" for us
    by (simp add: install_zookeeper_parallel_def comp_def)
  show "\<exists>us s. install_zookeeper_parallel out connections us w = Some s \<and> fan_over s
        \<and> fan_world s = snd (block (map (download_zookeeper_github out) (map snd connections)) w)"
    unfolding init by (rule install.sequential)
  show "case install_zookeeper_parallel out connections ts w of None \<Rightarrow> True
    | Some s \<Rightarrow> length ts \<le> 3 * length connections
       \<and> (\<exists>us s'. install_zookeeper_parallel out connections (ts @ us) w = Some s' \<and> fan_over s')
       \<and> (if fan_over s then list_all (\<lambda>i. map fst (thread_log i s) = [Run (snd (connections ! i)) ?cmd]) [0..<length connections] else True)"
  proof (cases "install_zookeeper_parallel out connections ts w")
    case (Some s)
    then have run: "fan_run out ts (fan_init (map try_acts ?plans) w) = Some s" unfolding init .
    have "map fst (thread_log i s) = [Run (snd (connections ! i)) ?cmd]" if "fan_over s" "i < length connections" for i
    proof -
      from install.over_log [OF run that(1), of i] that(2)
      have "up_to_failure [Run (snd (connections ! i)) ?cmd] (thread_log i s)" by simp
      then show ?thesis by (cases "thread_log i s") (auto simp: up_to_failure_def)
    qed
    moreover have "(\<Sum>p\<leftarrow>?plans. length p + 2) = 3 * length connections" by (induction connections) auto
    ultimately show ?thesis
      using Some install.ends [OF run] by (simp add: init fan_run_append list_all_iff)
  qed simp
qed

subsection \<open>Workloads\<close>

definition yaml_file_name :: string where "yaml_file_name = ''fattree_physical.yaml''"

text \<open>The address of the leader from the YAML file; without an entry the variable is never assigned.\<close>

fun leader_ip :: "yaml_node list \<Rightarrow> int \<Rightarrow> string res" where
  "leader_ip [] leader = Inl UnboundLocalError"
| "leader_ip (n # ns) leader = (case yn_id n of
       None \<Rightarrow> Inl KeyError
     | Some i \<Rightarrow> if i = leader then (case yn_zk_ip n of None \<Rightarrow> Inl KeyError | Some ip \<Rightarrow> Inr ip) else leader_ip ns leader)"

fun scan_server :: "yaml_node list \<Rightarrow> int \<Rightarrow> unit res" where
  "scan_server [] server = Inr ()"
| "scan_server (n # ns) server = (case yn_id n of
       None \<Rightarrow> Inl KeyError
     | Some i \<Rightarrow> if i = server \<and> yn_zk_ip n = None then Inl KeyError else scan_server ns server)"

definition remote_result :: "string \<Rightarrow> string" where
  "remote_result output_file_name = ''/users/PeterYao/YCSB/'' @ output_file_name"

definition run_ycsb_workload_from_node ::
    "'e outside \<Rightarrow> conns \<Rightarrow> yaml_node list \<Rightarrow> int \<Rightarrow> int \<Rightarrow> string \<Rightarrow> bool \<Rightarrow> int \<Rightarrow> int \<Rightarrow> real \<Rightarrow> ('e, unit) io" where
  "run_ycsb_workload_from_node out connections data client_node_id server_node_id output_file_name contact_leader
       threads_count num_operations read_ratio =
     bind_io (doio out (Load_config yaml_file_name)) (\<lambda>_.
     if contact_leader then
       bind_io (get_leader out connections) (\<lambda>l. case l of
         None \<Rightarrow> return_io ()
       | Some (leader_node_id, h) \<Rightarrow>
           bind_io (from_res (leader_ip data leader_node_id)) (\<lambda>ip. block [
             doio out (Ycsb h ip threads_count read_ratio (1 - read_ratio) num_operations output_file_name),
             guarded (doio out (Get h (remote_result output_file_name) output_file_name))]))
     else
       bind_io (from_res (scan_server data server_node_id)) (\<lambda>_.
         if map_of connections client_node_id = None \<or> map_of connections server_node_id = None then return_io ()
         else raise_io UnboundLocalError))"

definition comprehensive_name :: "int \<Rightarrow> int \<Rightarrow> int \<Rightarrow> string \<Rightarrow> int \<Rightarrow> string" where
  "comprehensive_name leader latency_mean latencystd_dev dist_name i =
     ''zk_lat_leader_node'' @ show_int leader @ ''_'' @ show_int latency_mean @ ''_'' @ show_int latencystd_dev @ ''_'' @ dist_name
     @ ''_read_0.'' @ show_int i @ ''_write_0.'' @ show_int (10 - i) @ ''.txt''"

text \<open>
  The delays are whole milliseconds; a missing leader ends the experiment. The address variable
  lives on from one turn to the next, so a leader without an entry gets the address of the last one.
\<close>

definition ip_or_last :: "yaml_node list \<Rightarrow> int \<Rightarrow> string res \<Rightarrow> string res" where
  "ip_or_last data leader old_ip = (if leader_ip data leader = Inl UnboundLocalError then old_ip else leader_ip data leader)"

fun comprehensive_runs :: "'e outside \<Rightarrow> conns \<Rightarrow> yaml_node list \<Rightarrow> int \<Rightarrow> int \<Rightarrow> string \<Rightarrow> string res \<Rightarrow> int list \<Rightarrow> ('e, unit) io" where
  "comprehensive_runs out connections data latency_mean latencystd_dev dist_name old_ip [] = return_io ()"
| "comprehensive_runs out connections data latency_mean latencystd_dev dist_name old_ip (i # is) =
     bind_io (get_leader out connections) (\<lambda>l. case l of
         None \<Rightarrow> return_io ()
       | Some (leader, h) \<Rightarrow>
           bind_io (from_res (ip_or_last data leader old_ip)) (\<lambda>ip.
           let name = comprehensive_name leader latency_mean latencystd_dev dist_name i in
           bind_io (acts_io out [Ycsb h ip 1 (real_of_int i / 10) (1 - real_of_int i / 10) 1000000 name, Get h (remote_result name) name])
             (\<lambda>_. comprehensive_runs out connections data latency_mean latencystd_dev dist_name (Inr ip) is)))"

definition comprehensive_exp :: "'e outside \<Rightarrow> conns \<Rightarrow> yaml_node list \<Rightarrow> int \<Rightarrow> int \<Rightarrow> string \<Rightarrow> bool \<Rightarrow> ('e, unit) io" where
  "comprehensive_exp out connections data latency_mean latencystd_dev dist_name run_from_leader = block [
     add_delay_to_all_nodes out (real_of_int latency_mean) (real_of_int latencystd_dev) dist_name connections,
     doio out (Load_config ''nodes.yaml''),
     if run_from_leader then comprehensive_runs out connections data latency_mean latencystd_dev dist_name (Inl UnboundLocalError) [1..9]
     else return_io ()]"

definition run_once :: "'e outside \<Rightarrow> conns \<Rightarrow> yaml_node list \<Rightarrow> ('e, unit) io" where
  "run_once out connections data = block [
     bind_io (get_leader out connections) (\<lambda>_. return_io ()),
     run_ycsb_workload_from_node out connections data 1 1 ''logtest.txt'' True 1 5 0,
     kill_running_zk out (map snd connections)]"

text \<open>
  Experiments that designate a leader first may never get past that; they return \<open>None\<close> then.
  The delays come with the text Python prints for them.
\<close>

type_synonym 'e run = "'e world \<Rightarrow> (unit res \<times> 'e world) option"

definition always_run :: "('e, unit) io \<Rightarrow> 'e run" where
  "always_run m w = Some (m w)"

definition then_run :: "'e run \<Rightarrow> 'e run \<Rightarrow> 'e run" where
  "then_run m n w = (case m w of None \<Rightarrow> None | Some (Inl e, w') \<Rightarrow> Some (Inl e, w') | Some (Inr _, w') \<Rightarrow> n w')"

fun runs_in_order :: "'e run list \<Rightarrow> 'e run" where
  "runs_in_order [] = always_run (return_io ())"
| "runs_in_order (m # ms) = then_run m (runs_in_order ms)"

definition thread_name :: "int \<Rightarrow> int \<Rightarrow> int \<Rightarrow> string" where
  "thread_name leader latency thd_cnt =
     ''zk_leader_node'' @ show_int leader @ ''_'' @ show_int latency @ ''ms_'' @ show_int thd_cnt @ ''threads.txt''"

definition varying_thread_count_exp :: "'e outside \<Rightarrow> conns \<Rightarrow> yaml_node list \<Rightarrow> switch list \<Rightarrow> int \<Rightarrow> int \<Rightarrow> 'e run" where
  "varying_thread_count_exp out connections data switch_info leader latency = runs_in_order [
     always_run (clear_all_switch_weights out switch_info),
     designate_leader out connections leader [0, 1, 2, 3, 4],
     always_run (block [
       if latency \<noteq> 0 then setup_delay_fat_tree out switch_info (real_of_int latency) else return_io (),
       foreach [10, 12, 14, 16, 18, 20, 22, 24, 26] (\<lambda>thd_cnt. run_ycsb_workload_from_node out connections data 0 0
         (thread_name leader latency thd_cnt)
         True thd_cnt 5000 (1 / 10))])]"

definition run_name :: "int \<Rightarrow> string \<Rightarrow> string \<Rightarrow> string" where
  "run_name node_id lat tail = ''zk_leader_node'' @ show_int node_id @ ''_'' @ lat @ ''ms_20threads_base_delay_0_ms_'' @ tail @ ''.txt''"

definition varying_leader_exp :: "'e outside \<Rightarrow> conns \<Rightarrow> yaml_node list \<Rightarrow> switch list \<Rightarrow> 'e run" where
  "varying_leader_exp out connections data switch_info = runs_in_order [
     always_run (clear_all_switch_weights out switch_info),
     designate_leader out connections 1 [0, 1, 2, 3, 4],
     always_run (foreach [(''0'', 0), (''2.0'', 2)] (\<lambda>(name, lat). block [
       if lat \<noteq> 0 then setup_delay_fat_tree out switch_info lat else return_io (),
       foreach [0, 1, 2] (\<lambda>j. run_ycsb_workload_from_node out connections data 0 0
         (run_name 1 name (''run'' @ num j @ ''_triple'')) True 20 10000 (1 / 10))]))]"

definition varying_read_write_exp :: "'e outside \<Rightarrow> conns \<Rightarrow> yaml_node list \<Rightarrow> 'e run" where
  "varying_read_write_exp out connections data = runs_in_order [
     always_run (clear_all_weights out),
     designate_leader out connections 4 [0, 1, 2, 3, 4],
     always_run (block [
       add_delay_to_node out 4 3 1 ''constant'' connections [],
       foreach [0..10] (\<lambda>j. foreach [0, 1, 2] (\<lambda>i. run_ycsb_workload_from_node out connections data 0 0
         (run_name 4 ''3'' (''read_ratio_'' @ (if j = 10 then ''1.0'' else ''0.'' @ show_int j) @ ''_run'' @ num i))
         True 20 10000 (real_of_int j / 10)))])]"

subsection \<open>Quorums in the leader's log\<close>

definition digits_in :: "nat \<Rightarrow> nat \<Rightarrow> regex" where
  "digits_in lo hi = Sym (\<lambda>c. is_digit c \<and> int lo \<le> digit_val c \<and> digit_val c \<le> int hi)"

text \<open>
  \<open>strptime\<close> with \<open>%Y-%m-%d %H:%M:%S,%f\<close>: the fields may have one digit, and what is left over after
  the match is an error. The date has no blanks, so the blank that \<open>%d\<close> also takes is left out.
\<close>

definition zk_time_re :: regex where
  "zk_time_re = rseq [Cap 1 (rep 4 rdigit), lit ''-'',
     Cap 2 (Alt (Cat (lit ''1'') (digits_in 0 2)) (Alt (Cat (lit ''0'') (digits_in 1 9)) (digits_in 1 9))), lit ''-'',
     Cap 3 (Alt (Cat (lit ''3'') (digits_in 0 1)) (Alt (Cat (digits_in 1 2) rdigit) (Alt (Cat (lit ''0'') (digits_in 1 9)) (digits_in 1 9)))),
     plus rspace,
     Cap 4 (Alt (Cat (lit ''2'') (digits_in 0 3)) (Alt (Cat (digits_in 0 1) rdigit) rdigit)), lit '':'',
     Cap 5 (Alt (Cat (digits_in 0 5) rdigit) rdigit), lit '':'',
     Cap 6 (Alt (Cat (lit ''6'') (digits_in 0 1)) (Alt (Cat (digits_in 0 5) rdigit) rdigit)), lit '','',
     Cap 7 (Alt (rep 6 rdigit) (Alt (rep 5 rdigit) (Alt (rep 4 rdigit) (Alt (rep 3 rdigit) (Alt (rep 2 rdigit) rdigit)))))]"

definition zk_strptime :: "string \<Rightarrow> datetime res" where
  "zk_strptime s = (case rms zk_time_re (None, s, []) of
       [] \<Rightarrow> Inl ValueError
     | y # _ \<Rightarrow> if rest y \<noteq> [] then Inl ValueError
         else let g = (\<lambda>n. int_of_digits (group (groups y) n)) in
           mk_datetime (g 1) (g 2) (g 3) (g 4) (g 5) (g 6) (fraction (group (groups y) 7)))"

definition zk_quorum_re :: regex where
  "zk_quorum_re = rseq [lit ''['', Cap 1 (plus (Sym (\<lambda>c. is_digit c \<or> c = CHR '','' \<or> is_space c))), lit '']'']"

definition quorum_members :: "string \<Rightarrow> int list" where
  "quorum_members quorum_str = List.map_filter (\<lambda>x. if strip x \<noteq> [] \<and> list_all is_digit (strip x)
     then (case py_int x of Inl _ \<Rightarrow> None | Inr n \<Rightarrow> Some n) else None) (split_on (CHR '','') quorum_str)"

text \<open>Both bounds and the timestamps are London times and compare field by field.\<close>

definition zk_line :: "datetime \<Rightarrow> datetime \<Rightarrow> (int, nat) dict \<Rightarrow> string \<Rightarrow> (int, nat) dict" where
  "zk_line start_time end_time counts line =
     (if str_in ''All quorums present in synced leader tracker:'' line
      then let tokens = split_ws line in
        if length tokens < 2 then counts
        else (case zk_strptime (tokens ! 0 @ '' '' @ tokens ! 1) of
            Inl _ \<Rightarrow> counts
          | Inr line_time \<Rightarrow> if start_time \<le> line_time \<and> line_time \<le> end_time
              then (case re_search zk_quorum_re line of
                  None \<Rightarrow> counts
                | Some m \<Rightarrow> foldl (\<lambda>c n. if n \<in> fst ` set c then bump c n else c) counts (quorum_members (group m 1)))
              else counts)
      else counts)"

definition parse_zookeeper_log :: "string list \<Rightarrow> datetime \<Rightarrow> datetime \<Rightarrow> (int, nat) dict" where
  "parse_zookeeper_log lines start_time end_time = foldl (zk_line start_time end_time) (map (\<lambda>i. (i, 0)) [1..5]) lines"

definition plot_quorum_counts :: "'e outside \<Rightarrow> (int, nat) dict \<Rightarrow> string \<Rightarrow> ('e, unit) io" where
  "plot_quorum_counts out counts experiment_info =
     doio out (Bar_chart (''quorum_counts_'' @ experiment_info @ ''.png'') (map (\<lambda>n. (n, dict_get counts n 0)) (sort (map fst counts))))"

definition zk_log_name :: "int \<Rightarrow> string" where
  "zk_log_name leader = ''zookeeper-root-server-node-'' @ show_int leader @ ''.quorum.nyunetworks.emulab.net.out''"

definition download_zookeeper_log :: "'e outside \<Rightarrow> int \<Rightarrow> string \<Rightarrow> ('e, string) io" where
  "download_zookeeper_log out leader h = bind_io
     (guarded (doio out (Get h (''/users/PeterYao/zookeeper/logs/'' @ zk_log_name leader) (zk_log_name leader))))
     (\<lambda>_. return_io (zk_log_name leader))"

definition ask_time :: "'e outside \<Rightarrow> ('e, datetime) io" where
  "ask_time out = bind_io (perform out Clock) (\<lambda>r. case r of Time t \<Rightarrow> return_io t | _ \<Rightarrow> raise_io TypeError)"

definition ask_lines :: "'e outside \<Rightarrow> string \<Rightarrow> ('e, string list) io" where
  "ask_lines out f = bind_io (perform out (Read_lines f)) (\<lambda>r. case r of Lines ls \<Rightarrow> return_io ls | _ \<Rightarrow> raise_io TypeError)"

type_synonym zk_exp = "(string \<times> nat) \<times> datetime \<times> datetime"

definition timed_run :: "'e outside \<Rightarrow> conns \<Rightarrow> yaml_node list \<Rightarrow> int \<Rightarrow> string \<Rightarrow> nat \<Rightarrow> ('e, zk_exp) io" where
  "timed_run out connections data node_id name j =
     bind_io (ask_time out) (\<lambda>start_time.
     bind_io (run_ycsb_workload_from_node out connections data 0 0 (run_name node_id name (''run'' @ num j @ ''_quorum'')) True 20 10000 (1 / 10)) (\<lambda>_.
     bind_io (ask_time out) (\<lambda>end_time. return_io ((name, j), start_time, end_time))))"

definition leader_experiments :: "'e outside \<Rightarrow> conns \<Rightarrow> yaml_node list \<Rightarrow> switch list \<Rightarrow> int \<Rightarrow> ('e, zk_exp list) io" where
  "leader_experiments out connections data switch_info node_id =
     fold_io (\<lambda>acc (name, lat).
       bind_io (setup_delay_fat_tree out switch_info lat) (\<lambda>_.
       bind_io (map_io (timed_run out connections data node_id name) [0, 1, 2]) (\<lambda>es. return_io (acc @ es))))
       [(''0.5'', 1 / 2), (''1.0'', 1), (''1.5'', 3 / 2), (''2.0'', 2)] []"

definition plot_leader :: "'e outside \<Rightarrow> conns \<Rightarrow> int \<Rightarrow> zk_exp list \<Rightarrow> ('e, unit) io" where
  "plot_leader out connections node_id es = (case map_of connections node_id of
       None \<Rightarrow> return_io ()
     | Some h \<Rightarrow> bind_io (download_zookeeper_log out node_id h) (\<lambda>log_file.
         foreach es (\<lambda>((name, j), start_time, end_time). bind_io (ask_lines out log_file) (\<lambda>lines.
           plot_quorum_counts out (parse_zookeeper_log lines start_time end_time)
             (''Leader '' @ show_int node_id @ '', latency '' @ name @ ''ms, run '' @ num j)))))"

definition varying_leader_quorum_exp :: "'e outside \<Rightarrow> conns \<Rightarrow> yaml_node list \<Rightarrow> switch list \<Rightarrow> 'e run" where
  "varying_leader_quorum_exp out connections data switch_info = runs_in_order (concat (map (\<lambda>node_id. [
     always_run (clear_all_switch_weights out switch_info),
     designate_leader out connections node_id [0, 1, 2, 3, 4],
     always_run (bind_io (leader_experiments out connections data switch_info node_id) (plot_leader out connections node_id))])
     [1, 2, 3]))"

subsection \<open>Counting quorums\<close>

text \<open>The members a line counts for.\<close>

definition line_quorum :: "datetime \<Rightarrow> datetime \<Rightarrow> string \<Rightarrow> int list" where
  "line_quorum start_time end_time line =
     (if str_in ''All quorums present in synced leader tracker:'' line \<and> 2 \<le> length (split_ws line)
      then (case zk_strptime (split_ws line ! 0 @ '' '' @ split_ws line ! 1) of
          Inl _ \<Rightarrow> []
        | Inr t \<Rightarrow> if start_time \<le> t \<and> t \<le> end_time
            then (case re_search zk_quorum_re line of None \<Rightarrow> [] | Some m \<Rightarrow> quorum_members (group m 1)) else [])
      else [])"

lemma update_tab:
  "distinct xs \<Longrightarrow> k \<in> set xs \<Longrightarrow>
    AList.update k v (map (\<lambda>n. (n, f n)) xs) = map (\<lambda>n. (n, if n = k then v else f n)) xs"
  by (induction xs) (auto intro!: map_cong)

lemma bump_table:
  assumes "distinct xs"
  shows "foldl (\<lambda>c n. if n \<in> fst ` set c then bump c n else c) (map (\<lambda>n. (n, f n)) xs) qs
    = map (\<lambda>n. (n, f n + count_list qs n)) xs"
proof (induction qs arbitrary: f)
  case Nil
  show ?case by simp
next
  case (Cons q qs)
  have keys: "fst ` set (map (\<lambda>n. (n, f n)) xs) = set xs" by force
  show ?case
  proof (cases "q \<in> set xs")
    case True
    have "dict_get (map (\<lambda>n. (n, f n)) xs) q 0 = f q"
      using True by (simp add: dict_get_def map_of_map_restrict)
    then have "bump (map (\<lambda>n. (n, f n)) xs) q = map (\<lambda>n. (n, if n = q then Suc (f q) else f n)) xs"
      using update_tab [OF assms True] by (simp add: bump_def bump_by_def)
    then show ?thesis using True Cons.IH [of "\<lambda>n. if n = q then Suc (f q) else f n"] keys
      by (simp del: set_map)
  next
    case False
    then show ?thesis using Cons.IH [of f] keys by (simp del: set_map) (auto intro!: map_cong)
  qed
qed

lemma zk_line_eq:
  "zk_line a b counts line = foldl (\<lambda>c n. if n \<in> fst ` set c then bump c n else c) counts (line_quorum a b line)"
  by (simp add: zk_line_def line_quorum_def Let_def split: sum.split option.split)

lemma zk_line_table:
  "zk_line a b (map (\<lambda>n. (n, f n)) [1..5]) line = map (\<lambda>n. (n, f n + count_list (line_quorum a b line) n)) [1..5]"
  unfolding zk_line_eq by (rule bump_table) simp

text \<open>
  the quorum counts of an experiment. For every log and time window \<open>parse_zookeeper_log\<close> returns exactly
  the nodes 1 to 5 in order, each with the number of times it is listed in the quorum of a tracker
  line whose timestamp parses and lies in the window, both ends included.
\<close>

theorem parse_zookeeper_log_counts:
  "parse_zookeeper_log lines start_time end_time =
     map (\<lambda>n. (n, count_list (concat (map (line_quorum start_time end_time) lines)) n)) [1..5]"
proof -
  have "foldl (zk_line start_time end_time) (map (\<lambda>n. (n, f n)) [1..5]) lines =
      map (\<lambda>n. (n, f n + count_list (concat (map (line_quorum start_time end_time) lines)) n)) [1..5]" for f
    by (induction lines arbitrary: f) (simp_all only: foldl.simps zk_line_table list.map concat.simps count_list_append count_list.simps add_0_right add.assoc)
  from this [of "\<lambda>_. 0"] show ?thesis by (simp only: parse_zookeeper_log_def add_0)
qed

subsection \<open>Designating a leader\<close>

lemma check_leader_returns: "\<exists>r w'. check_leader out cur c w = (Inr r, w')"
proof -
  have "\<exists>r w'. try_io (bind_io (ask_text out (Run (snd c) status_cmd)) (\<lambda>s. return_io (Some s))) None w = (Inr r, w')"
    by (auto simp: try_io_def bind_io_def ask_text_cases return_io_def is_exception_def split: sum.splits reply.splits)
  then obtain r w' where "try_io (bind_io (ask_text out (Run (snd c) status_cmd)) (\<lambda>s. return_io (Some s))) None w = (Inr r, w')" by blast
  then show ?thesis by (simp add: check_leader_def bind_io_def return_io_def split: option.splits)
qed

lemma get_leader_returns: "\<exists>l w'. get_leader out connections w = (Inr l, w')"
proof -
  have "\<exists>l w'. fold_io (check_leader out) cs cur w = (Inr l, w')" for cs cur
  proof (induction cs arbitrary: cur w)
    case Nil
    show ?case by (simp add: return_io_def)
  next
    case (Cons c cs)
    from check_leader_returns [of out cur c w] obtain r w1 where "check_leader out cur c w = (Inr r, w1)" by blast
    with Cons.IH [of r w1] show ?case by (simp add: bind_io_def)
  qed
  then show ?thesis by (simp add: get_leader_def)
qed

definition sleeps :: "'e outside \<Rightarrow> bool" where
  "sleeps out \<longleftrightarrow> (\<forall>e. \<exists>r. fst (out e (Sleep 25)) = Inr r)"

lemma foreach_returns: "(\<And>x w. \<exists>w'. body x w = (Inr (), w')) \<Longrightarrow> \<exists>w'. foreach xs body w = (Inr (), w')"
proof (induction xs arbitrary: w)
  case (Cons x xs)
  then obtain w1 where "body x w = (Inr (), w1)" by blast
  with Cons.IH [OF Cons.prems, of w1] show ?case by (simp add: bind_io_def)
qed (simp add: return_io_def)

lemma node_ops_return: "\<exists>w'. kill_node out cs n w = (Inr (), w')" "\<exists>w'. start_node out cs n w = (Inr (), w')"
  by (auto simp: kill_node_def start_node_def return_io_def split: option.splits)

lemma elect_round_returns:
  assumes "sleeps out" "node_id \<in> set ids"
  shows "\<exists>l w'. elect_round out cs node_id ids w = (Inr l, w')"
proof -
  have "\<exists>w'. guarded (kill_node out cs x) v = (Inr (), w')" for x v
    using node_ops_return(1) [of out cs x v] by (auto simp: guarded_def try_io_def)
  then obtain w1 where 1: "foreach (remove1 node_id ids) (\<lambda>n. guarded (kill_node out cs n)) w = (Inr (), w1)"
    using foreach_returns [where body = "\<lambda>n. guarded (kill_node out cs n)"] by blast
  obtain w2 where 2: "doio out (Sleep 25) w1 = (Inr (), w2)"
    using assms(1) by (metis (no_types, lifting) doio_cases sleeps_def old.sum.simps(6))
  obtain w3 where 3: "foreach (remove1 node_id ids) (start_node out cs) w2 = (Inr (), w3)"
    using foreach_returns [where body = "start_node out cs"] node_ops_return(2) by blast
  from get_leader_returns [of out cs w3] 1 2 3 assms(2) show ?thesis
    by (simp add: elect_round_def Let_def bind_io_def)
qed

text \<open>What the ensemble answers after so many turns of the loop.\<close>

definition first_look :: "'e outside \<Rightarrow> conns \<Rightarrow> 'e world \<Rightarrow> (int \<times> string) option \<times> 'e world" where
  "first_look out cs w = (case get_leader out cs w of (Inr l, w') \<Rightarrow> (l, w') | (Inl _, w') \<Rightarrow> (None, w'))"

definition next_look :: "'e outside \<Rightarrow> conns \<Rightarrow> int \<Rightarrow> int list \<Rightarrow> (int \<times> string) option \<times> 'e world \<Rightarrow> (int \<times> string) option \<times> 'e world" where
  "next_look out cs node_id ids x = (case elect_round out cs node_id ids (snd x) of (Inr l, w') \<Rightarrow> (l, w') | (Inl _, w') \<Rightarrow> (None, w'))"

definition looks :: "'e outside \<Rightarrow> conns \<Rightarrow> int \<Rightarrow> int list \<Rightarrow> 'e world \<Rightarrow> nat \<Rightarrow> (int \<times> string) option \<times> 'e world" where
  "looks out cs node_id ids w n = (next_look out cs node_id ids ^^ n) (first_look out cs w)"

definition leads :: "int \<Rightarrow> (int \<times> string) option \<times> 'e world \<Rightarrow> bool" where
  "leads node_id x \<longleftrightarrow> map_option fst (fst x) = Some node_id"

lemma loop_hits:
  assumes "sleeps out" "node_id \<in> set ids"
  shows "leads node_id ((next_look out cs node_id ids ^^ n) x) \<Longrightarrow>
    \<forall>m < n. \<not> leads node_id ((next_look out cs node_id ids ^^ m) x) \<Longrightarrow>
    designate_loop out cs node_id ids (fst x) (snd x) = Some (Inr (), snd ((next_look out cs node_id ids ^^ n) x))"
proof (induction n arbitrary: x)
  case 0
  then show ?case by (subst designate_loop.simps) (simp add: leads_def)
next
  case (Suc n)
  obtain l w' where r: "elect_round out cs node_id ids (snd x) = (Inr l, w')"
    using elect_round_returns [OF assms] by blast
  have nx: "next_look out cs node_id ids x = (l, w')" by (simp add: next_look_def r)
  have "\<not> leads node_id x" using Suc.prems(2) by force
  then have "designate_loop out cs node_id ids (fst x) (snd x) = designate_loop out cs node_id ids l w'"
    by (subst designate_loop.simps) (simp add: leads_def r)
  also have "\<dots> = Some (Inr (), snd ((next_look out cs node_id ids ^^ n) (l, w')))"
  proof -
    have "\<not> leads node_id ((next_look out cs node_id ids ^^ m) (l, w'))" if "m < n" for m
      using Suc.prems(2) [rule_format, of "Suc m"] that nx by (simp add: funpow_swap1)
    then show ?thesis using Suc.IH [of "(l, w')"] Suc.prems(1) nx by (simp add: funpow_swap1)
  qed
  finally show ?case by (simp add: nx funpow_swap1)
qed

lemma loop_stops:
  "designate_loop out cs node_id ids cur w = Some r \<Longrightarrow> sleeps out \<longrightarrow> node_id \<in> set ids \<longrightarrow>
    (\<exists>n. leads node_id ((next_look out cs node_id ids ^^ n) (cur, w)))"
proof (induction rule: designate_loop.raw_induct [rotated, consumes 1])
  case (1 loop out cs node_id ids cur w r)
  show ?case
  proof (intro impI)
    assume ok: "sleeps out" "node_id \<in> set ids"
    show "\<exists>n. leads node_id ((next_look out cs node_id ids ^^ n) (cur, w))"
    proof (cases "map_option fst cur = Some node_id")
      case True
      then show ?thesis by (intro exI [of _ 0]) (simp add: leads_def)
    next
      case False
      obtain l w' where e: "elect_round out cs node_id ids w = (Inr l, w')" using elect_round_returns [OF ok] by blast
      with 1(2) False have "loop out cs node_id ids l w' = Some r" by simp
      from 1(1) [OF this] ok obtain n where "leads node_id ((next_look out cs node_id ids ^^ n) (l, w'))" by blast
      moreover have "next_look out cs node_id ids (cur, w) = (l, w')" by (simp add: next_look_def e)
      ultimately show ?thesis by (intro exI [of _ "Suc n"]) (simp add: funpow_swap1)
    qed
  qed
qed


text \<open>An ensemble of two nodes in which node 1 leads once the other node was restarted.\<close>

definition pair_lab :: "bool outside" where
  "pair_lab restarted a = (case a of
       Run h cmd \<Rightarrow> (Inr (Text (if (h = ''b'') = restarted then ''Mode: leader'' else ''Mode: follower'')), restarted)
     | Sudo h cmd \<Rightarrow> (Inr Done, restarted \<or> cmd = begin_cmd)
     | _ \<Rightarrow> (Inr Done, restarted))"

definition pair_world :: "bool world" where
  "pair_world = \<lparr>env = False, trace = [], procs = []\<rparr>"


subsection \<open>Workloads are only ever run on the leader\<close>

definition is_ycsb :: "act \<Rightarrow> bool" where
  "is_ycsb a = (case a of Ycsb _ _ _ _ _ _ _ \<Rightarrow> True | _ \<Rightarrow> False)"

lemma check_leader_trace: "trace (snd (check_leader out cur c w)) = trace w @ [Run (snd c) status_cmd]"
  by (auto simp: check_leader_def try_io_def bind_io_def ask_text_cases return_io_def is_exception_def split: sum.splits reply.splits option.splits)

lemma get_leader_trace: "trace (snd (get_leader out cs w)) = trace w @ map (\<lambda>c. Run (snd c) status_cmd) cs"
proof -
  have "trace (snd (fold_io (check_leader out) cs cur w)) = trace w @ map (\<lambda>c. Run (snd c) status_cmd) cs" for cur
  proof (induction cs arbitrary: cur w)
    case Nil
    show ?case by (simp add: return_io_def)
  next
    case (Cons c cs)
    from check_leader_returns [of out cur c w] obtain r w1 where c: "check_leader out cur c w = (Inr r, w1)" by blast
    with check_leader_trace [of out cur c w] have "trace w1 = trace w @ [Run (snd c) status_cmd]" by simp
    with c Cons.IH [of r w1] show ?case by (simp add: bind_io_def)
  qed
  then show ?thesis by (simp add: get_leader_def)
qed

abbreviation looked :: "conns \<Rightarrow> act list" where
  "looked cs \<equiv> map (\<lambda>c. Run (snd c) status_cmd) cs"

lemma no_ycsb_looked [simp]: "filter is_ycsb (looked cs) = []"
  by (simp add: is_ycsb_def filter_empty_conv)

lemma workload_trace:
  "\<exists>k. trace (snd (block [doio out y, guarded (doio out g)] w)) = trace w @ y # take k [g]"
  by (auto simp: bind_io_def doio_cases return_io_def intro: exI [of _ 0] exI [of _ 1] split: sum.splits)

lemma run_ycsb_leader:
  assumes "fst (out (env w) (Load_config yaml_file_name)) = Inr r0"
  shows "run_ycsb_workload_from_node out cs data client server file True threads n read w =
    (case get_leader out cs (after out (Load_config yaml_file_name) w) of
       (Inl e, w2) \<Rightarrow> (Inl e, w2)
     | (Inr None, w2) \<Rightarrow> (Inr (), w2)
     | (Inr (Some (leader, h)), w2) \<Rightarrow> (case leader_ip data leader of
         Inl e \<Rightarrow> (Inl e, w2)
       | Inr ip \<Rightarrow> block [doio out (Ycsb h ip threads read (1 - read) n file), guarded (doio out (Get h (remote_result file) file))] w2))"
  using assms
  by (auto simp: run_ycsb_workload_from_node_def bind_io_def doio_cases from_res_def return_io_def simp del: block.simps
    split: prod.splits sum.splits option.splits)

text \<open>
  C39: a workload is only ever run on the leader. Asked to contact the leader, a run starts at most one
  workload, on the connection its \<open>get_leader\<close> reported and with that node's address from the YAML file,
  and none when there is no leader. Asked not to, it never starts a workload at all: it returns
  early, or fails because the address variable is only assigned in the other branch.
\<close>

theorem ycsb_on_leader_only:
  "(\<exists>post. trace (snd (run_ycsb_workload_from_node out cs data client server file True threads n read w)) =
       trace w @ Load_config yaml_file_name # post
     \<and> (case filter is_ycsb post of
          [] \<Rightarrow> True
        | [a] \<Rightarrow> (\<exists>leader h ip. fst (get_leader out cs (after out (Load_config yaml_file_name) w)) = Inr (Some (leader, h))
             \<and> leader_ip data leader = Inr ip \<and> a = Ycsb h ip threads read (1 - read) n file)
        | _ \<Rightarrow> False))
   \<and> (case run_ycsb_workload_from_node out cs data client server file False threads n read w of
        (r, w') \<Rightarrow> trace w' = trace w @ [Load_config yaml_file_name]
          \<and> (case r of Inl e \<Rightarrow> True | Inr _ \<Rightarrow> map_of cs client = None \<or> map_of cs server = None))"
proof
  let ?c = "Load_config yaml_file_name"
  let ?m = "run_ycsb_workload_from_node out cs data client server file"
  let ?ok = "\<lambda>post. case filter is_ycsb post of
          [] \<Rightarrow> True
        | [a] \<Rightarrow> (\<exists>leader h ip. fst (get_leader out cs (after out ?c w)) = Inr (Some (leader, h))
             \<and> leader_ip data leader = Inr ip \<and> a = Ycsb h ip threads read (1 - read) n file)
        | _ \<Rightarrow> False"
  show "case ?m False threads n read w of (r, w') \<Rightarrow> trace w' = trace w @ [?c]
      \<and> (case r of Inl e \<Rightarrow> True | Inr _ \<Rightarrow> map_of cs client = None \<or> map_of cs server = None)"
    by (auto simp: run_ycsb_workload_from_node_def bind_io_def doio_cases from_res_def return_io_def raise_io_def split: sum.splits)
  show "\<exists>post. trace (snd (?m True threads n read w)) = trace w @ ?c # post \<and> ?ok post"
  proof (cases "fst (out (env w) ?c)")
    case (Inl msg)
    then show ?thesis by (intro exI [of _ "[]"]) (simp add: run_ycsb_workload_from_node_def bind_io_def doio_cases)
  next
    case (Inr r0)
    note eq = run_ycsb_leader [where out = out and w = w and cs = cs and data = data and client = client and server = server
      and ?file = "file" and threads = threads and n = n and read = read and ?r0.0 = r0, OF this]
    obtain l w2 where g: "get_leader out cs (after out ?c w) = (Inr l, w2)" using get_leader_returns by blast
    then have t: "trace w2 = trace w @ ?c # looked cs" using get_leader_trace [of out cs "after out ?c w"] by simp
    consider (none) "l = None" | (unknown) leader h e where "l = Some (leader, h)" "leader_ip data leader = Inl e"
      | (run) leader h ip where "l = Some (leader, h)" "leader_ip data leader = Inr ip"
      by (cases l; cases "leader_ip data (fst (the l))") auto
    then show ?thesis
    proof cases
      case none
      then show ?thesis by (intro exI [of _ "looked cs"]) (simp add: eq g t)
    next
      case unknown
      then show ?thesis by (intro exI [of _ "looked cs"]) (simp add: eq g t)
    next
      case run
      have ycsb: "?m True threads n read w =
          block [doio out (Ycsb h ip threads read (1 - read) n file), guarded (doio out (Get h (remote_result file) file))] w2"
        by (simp add: eq g run del: block.simps)
      obtain k where k: "trace (snd (?m True threads n read w)) =
          trace w2 @ Ycsb h ip threads read (1 - read) n file # take k [Get h (remote_result file) file]"
        unfolding ycsb using workload_trace by blast
      have "filter is_ycsb (take k [Get h (remote_result file) file]) = []" by (cases k) (simp_all add: is_ycsb_def)
      then show ?thesis using run(1,2) g
        by (intro exI [of _ "looked cs @ Ycsb h ip threads read (1 - read) n file # take k [Get h (remote_result file) file]"])
          (simp add: k t is_ycsb_def [of "Ycsb _ _ _ _ _ _ _"])
    qed
  qed
qed

end
