(* ===== verification/Ycsb.thy ===== *)
theory Ycsb
  imports Py_Float Zookeeper
begin

text \<open>
  \<open>scripts/ycsb_analysis.py\<close> and \<open>scripts/ycsb_analysis_auto.py\<close>: latencies and throughput from the
  output of the YCSB benchmark. A figure is the data it is given. The file system is a parameter that gives
  the lines of a file, \<open>None\<close> where it cannot be opened.
\<close>

subsection \<open>Fields of a line\<close>

definition line_fields :: "string \<Rightarrow> string list" where
  "line_fields line = map strip (split_on (CHR '','') (strip line))"

text \<open>\<open>x = float(s)\<close> inside \<open>try ... except ValueError: pass\<close>.\<close>

definition set_float :: "pyfloat option \<Rightarrow> string \<Rightarrow> pyfloat option" where
  "set_float old s = (case read_float s of Inl _ \<Rightarrow> old | Inr x \<Rightarrow> Some x)"

definition put_float :: "(string, pyfloat) dict \<Rightarrow> string \<Rightarrow> string \<Rightarrow> (string, pyfloat) dict" where
  "put_float d k s = (case read_float s of Inl _ \<Rightarrow> d | Inr x \<Rightarrow> AList.update k x d)"

definition open_lines :: "(string \<Rightarrow> string list option) \<Rightarrow> string \<Rightarrow> string list res" where
  "open_lines read fname = (case read fname of None \<Rightarrow> Inl FileNotFoundError | Some ls \<Rightarrow> Inr ls)"

subsection \<open>Combined profiles\<close>

definition combined_percentiles :: "string list" where
  "combined_percentiles = [''10thPercentileLatency(us)'', ''25thPercentileLatency(us)'', ''50thPercentileLatency(us)'',
     ''75thPercentileLatency(us)'', ''90thPercentileLatency(us)'', ''95thPercentileLatency(us)'', ''99thPercentileLatency(us)'',
     ''99.9PercentileLatency(us)'']"

definition combined_labels :: "string list" where
  "combined_labels = [''10'', ''25'', ''50'', ''75'', ''90'', ''95'', ''99'', ''99.9'']"

record exp_data =
  ed_filename :: string
  read_percentiles :: "(string, pyfloat) dict"
  update_percentiles :: "(string, pyfloat) dict"
  read_avg :: "pyfloat option"
  update_avg :: "pyfloat option"
  throughput :: "pyfloat option"

definition exp_init :: "string \<Rightarrow> exp_data" where
  "exp_init fname = \<lparr>ed_filename = fname, read_percentiles = [], update_percentiles = [], read_avg = None, update_avg = None, throughput = None\<rparr>"

definition combined_line :: "exp_data \<Rightarrow> string \<Rightarrow> exp_data" where
  "combined_line e line =
     (let parts = line_fields line in
      if strip line = [] \<or> length parts < 3 then e
      else if parts ! 0 = ''[OVERALL]'' then
        (if str_in ''Throughput(ops/sec)'' (parts ! 1) then e\<lparr>throughput := set_float (throughput e) (parts ! 2)\<rparr> else e)
      else if parts ! 0 = ''[READ]'' then
        (if str_in ''AverageLatency(us)'' (parts ! 1) then e\<lparr>read_avg := set_float (read_avg e) (parts ! 2)\<rparr>
         else if parts ! 1 \<in> set combined_percentiles then e\<lparr>read_percentiles := put_float (read_percentiles e) (parts ! 1) (parts ! 2)\<rparr>
         else e)
      else if parts ! 0 = ''[UPDATE]'' then
        (if str_in ''AverageLatency(us)'' (parts ! 1) then e\<lparr>update_avg := set_float (update_avg e) (parts ! 2)\<rparr>
         else if parts ! 1 \<in> set combined_percentiles then e\<lparr>update_percentiles := put_float (update_percentiles e) (parts ! 1) (parts ! 2)\<rparr>
         else e)
      else e)"

definition combined_file :: "(string \<Rightarrow> string list option) \<Rightarrow> string \<Rightarrow> exp_data res" where
  "combined_file read fname = bind_res (open_lines read fname) (\<lambda>ls. Inr (foldl combined_line (exp_init fname) ls))"

text \<open>What is drawn: the two line charts (one line per file) and the three bar charts.\<close>

record combined_figure =
  cf_read_lines :: "(string \<times> pyfloat option list) list"
  cf_write_lines :: "(string \<times> pyfloat option list) list"
  cf_read_bars :: "(string \<times> pyfloat option) list"
  cf_write_bars :: "(string \<times> pyfloat option) list"
  cf_throughput_bars :: "(string \<times> pyfloat option) list"

definition combined_draw :: "exp_data list \<Rightarrow> combined_figure" where
  "combined_draw es = \<lparr>
     cf_read_lines = map (\<lambda>e. (ed_filename e, map (map_of (read_percentiles e)) combined_percentiles)) es,
     cf_write_lines = map (\<lambda>e. (ed_filename e, map (map_of (update_percentiles e)) combined_percentiles)) es,
     cf_read_bars = map (\<lambda>e. (ed_filename e, read_avg e)) es,
     cf_write_bars = map (\<lambda>e. (ed_filename e, update_avg e)) es,
     cf_throughput_bars = map (\<lambda>e. (ed_filename e, throughput e)) es\<rparr>"

definition plot_combined_ycsb_profiles :: "(string \<Rightarrow> string list option) \<Rightarrow> string list \<Rightarrow> combined_figure res" where
  "plot_combined_ycsb_profiles read filenames =
     bind_res (res_fold (\<lambda>es f. bind_res (combined_file read f) (\<lambda>e. Inr (es @ [e]))) filenames []) (\<lambda>es. Inr (combined_draw es))"

subsection \<open>One profile\<close>

definition profile_percentiles :: "string list" where
  "profile_percentiles = butlast combined_percentiles @ [''99.5PercentileLatency(us)'']"

record profile =
  overall_throughput :: "pyfloat option"
  read_latencies :: "(string, pyfloat) dict"
  update_latencies :: "(string, pyfloat) dict"

definition profile_line :: "profile \<Rightarrow> string \<Rightarrow> profile" where
  "profile_line p line =
     (let parts = line_fields line in
      if strip line = [] then p
      else if parts ! 0 = ''[OVERALL]'' then
        (if 3 \<le> length parts \<and> str_in ''Throughput(ops/sec)'' (parts ! 1)
         then p\<lparr>overall_throughput := set_float (overall_throughput p) (parts ! 2)\<rparr> else p)
      else if parts ! 0 = ''[READ]'' then
        (if 3 \<le> length parts \<and> parts ! 1 \<in> set profile_percentiles
         then p\<lparr>read_latencies := put_float (read_latencies p) (parts ! 1) (parts ! 2)\<rparr> else p)
      else if parts ! 0 = ''[UPDATE]'' then
        (if 3 \<le> length parts \<and> parts ! 1 \<in> set profile_percentiles
         then p\<lparr>update_latencies := put_float (update_latencies p) (parts ! 1) (parts ! 2)\<rparr> else p)
      else p)"

text \<open>\<open>p.split("th")[0]\<close>.\<close>

fun before_th :: "string \<Rightarrow> string" where
  "before_th [] = []"
| "before_th (c # cs) = (if prefix ''th'' (c # cs) then [] else c # before_th cs)"

text \<open>\<open>max\<close> over values that may be \<open>None\<close>, which cannot be compared.\<close>

fun max_from :: "pyfloat option \<Rightarrow> pyfloat option list \<Rightarrow> pyfloat option res" where
  "max_from m [] = Inr m"
| "max_from m (x # xs) = (case (m, x) of
     (Some a, Some b) \<Rightarrow> max_from (if flt_less a b then Some b else Some a) xs
   | _ \<Rightarrow> Inl TypeError)"

definition py_max :: "pyfloat option list \<Rightarrow> pyfloat option res" where
  "py_max vals = (case vals of [] \<Rightarrow> Inl ValueError | v # vs \<Rightarrow> max_from v vs)"

text \<open>The numbers written beside the points; every one of them needs the maximum.\<close>

definition annotate :: "pyfloat option list \<Rightarrow> pyfloat list res" where
  "annotate vals = res_fold (\<lambda>acc v. case v of None \<Rightarrow> Inr acc | Some x \<Rightarrow> bind_res (py_max vals) (\<lambda>_. Inr (acc @ [x]))) vals []"

definition plot_ycsb_profile :: "(string \<Rightarrow> string list option) \<Rightarrow> string
    \<Rightarrow> ((string \<times> pyfloat option) list \<times> (string \<times> pyfloat option) list \<times> pyfloat option) res" where
  "plot_ycsb_profile read filename =
     bind_res (open_lines read filename) (\<lambda>ls.
       let p = foldl profile_line \<lparr>overall_throughput = None, read_latencies = [], update_latencies = []\<rparr> ls;
           read_vals = map (map_of (read_latencies p)) profile_percentiles;
           update_vals = map (map_of (update_latencies p)) profile_percentiles;
           x_labels = map before_th profile_percentiles in
       bind_res (annotate read_vals) (\<lambda>_. bind_res (annotate update_vals) (\<lambda>_.
       Inr (zip x_labels read_vals, zip x_labels update_vals, overall_throughput p))))"

subsection \<open>Remote files and the main block\<close>

definition ya_load_connections :: "yaml_node list \<Rightarrow> (int, fconn) dict \<Rightarrow> (int, fconn) dict res" where
  "ya_load_connections ns connections = load_nodes ns connections"

definition download_ycsb_from_remote :: "'e outside \<Rightarrow> conns \<Rightarrow> int \<Rightarrow> string \<Rightarrow> ('e, unit) io" where
  "download_ycsb_from_remote out connections node_id filename = (case map_of connections node_id of
       None \<Rightarrow> return_io ()
     | Some h \<Rightarrow> guarded (doio out (Get h (remote_result filename) filename)))"

definition ya_files :: "string list" where
  "ya_files = [''zk_different_rack_lat_1ms.txt'', ''zk_different_rack_lat_2ms.txt'', ''zk_different_rack_lat_4ms.txt'',
     ''zk_different_rack_lat_6ms.txt'', ''zk_different_rack_lat_8ms.txt'']"

definition ya_main :: "yaml_node list \<Rightarrow> (string \<Rightarrow> string list option) \<Rightarrow> combined_figure res" where
  "ya_main ns read = bind_res (ya_load_connections ns []) (\<lambda>_. plot_combined_ycsb_profiles read ya_files)"

subsection \<open>ycsb_analysis_auto.py\<close>

definition basename :: "string \<Rightarrow> string" where
  "basename s = rev (takeWhile (\<lambda>c. c \<noteq> CHR ''/'') (rev s))"

definition auto_regex :: regex where
  "auto_regex = rseq [lit ''zk_lat_leader_node'', Cap 1 (plus rdigit), lit ''_'', Cap 2 (plus rdigit), lit ''_'',
     Cap 3 (plus rdigit), lit ''_pareto_read_'', Cap 4 (plus rnumber), lit ''_write_'', Cap 5 (plus rnumber), lit ''.txt'']"

type_synonym auto_key = "string \<times> string \<times> string \<times> string"

definition auto_parse :: "string \<Rightarrow> (auto_key \<times> int) option" where
  "auto_parse fname = map_option (\<lambda>m. ((group m 2, group m 3, group m 4, group m 5), int_of_digits (group m 1)))
     (re_match auto_regex (basename fname))"

definition auto_groups :: "string list \<Rightarrow> (auto_key, string list) dict" where
  "auto_groups files = pushes (\<lambda>fname. map_option (\<lambda>p. (fst p, fname)) (auto_parse fname)) files"

definition auto_leader :: "string \<Rightarrow> int" where
  "auto_leader fname = (case auto_parse fname of None \<Rightarrow> 0 | Some (_, l) \<Rightarrow> l)"

definition auto_output :: "auto_key \<Rightarrow> string" where
  "auto_output key = (case key of (mean, std, rd, wr) \<Rightarrow>
     ''combined_zk_lat_'' @ mean @ ''_'' @ std @ ''_pareto_read_'' @ rd @ ''_write_'' @ wr @ ''.png'')"

text \<open>The plots in order: the file each is saved to and the input files it combines.\<close>

definition auto_plots :: "string list \<Rightarrow> (string \<times> string list) list" where
  "auto_plots files = map (\<lambda>(key, file_list). (auto_output key, sort_key auto_leader file_list)) (auto_groups files)"

text \<open>
  The script has its own \<open>load_connections\<close>, which its main block does not call, and its own
  \<open>plot_combined_ycsb_profiles\<close>, which saves the figure under the given name.
\<close>

definition auto_load_connections :: "yaml_node list \<Rightarrow> (int, fconn) dict \<Rightarrow> (int, fconn) dict res" where
  "auto_load_connections ns connections = load_nodes ns connections"

definition auto_plot_combined :: "(string \<Rightarrow> string list option) \<Rightarrow> string list \<Rightarrow> string \<Rightarrow> (string \<times> combined_figure) res" where
  "auto_plot_combined read filenames output_file =
     bind_res (res_fold (\<lambda>experiments fname. bind_res (open_lines read fname) (\<lambda>ls.
       Inr (experiments @ [foldl combined_line (exp_init fname) ls]))) filenames []) (\<lambda>experiments.
     Inr (output_file, combined_draw experiments))"

definition automated_plot_experiments :: "string list \<Rightarrow> (string \<Rightarrow> string list option) \<Rightarrow> (string \<times> combined_figure) list res" where
  "automated_plot_experiments files read = res_fold (\<lambda>acc (output_file, file_list).
     bind_res (auto_plot_combined read file_list output_file) (\<lambda>fig. Inr (acc @ [fig]))) (auto_plots files) []"

subsection \<open>What a profile shows\<close>

text \<open>The number a line reports under a tag and a name, if it can be read as one.\<close>

definition ycsb_reported :: "string \<Rightarrow> (string \<Rightarrow> bool) \<Rightarrow> string \<Rightarrow> pyfloat option" where
  "ycsb_reported tag nm line = (let parts = line_fields line in
     if 3 \<le> length parts \<and> parts ! 0 = tag \<and> nm (parts ! 1) then (case read_float (parts ! 2) of Inl _ \<Rightarrow> None | Inr x \<Rightarrow> Some x)
     else None)"

definition last_reported :: "string \<Rightarrow> (string \<Rightarrow> bool) \<Rightarrow> string list \<Rightarrow> pyfloat option" where
  "last_reported tag nm ls = foldl (\<lambda>cur l. case ycsb_reported tag nm l of None \<Rightarrow> cur | Some x \<Rightarrow> Some x) None ls"

abbreviation last_latency :: "string \<Rightarrow> string list \<Rightarrow> string \<Rightarrow> pyfloat option" where
  "last_latency tag ls q \<equiv> last_reported tag (\<lambda>n. n = q) ls"

lemma last_reported_Nil [simp]: "last_reported tag nm [] = None"
  by (simp add: last_reported_def)

lemma last_reported_snoc [simp]:
  "last_reported tag nm (ls @ [l]) = (case ycsb_reported tag nm l of None \<Rightarrow> last_reported tag nm ls | Some x \<Rightarrow> Some x)"
  by (simp add: last_reported_def split: option.splits)

lemma last_reported_some:
  "last_reported tag nm ls = Some x \<longleftrightarrow>
     (\<exists>pre l post. ls = pre @ l # post \<and> ycsb_reported tag nm l = Some x \<and> list_all (\<lambda>k. ycsb_reported tag nm k = None) post)"
proof (induction ls arbitrary: x rule: rev_induct)
  case Nil
  then show ?case by simp
next
  case (snoc l ls)
  show ?case
  proof (cases "ycsb_reported tag nm l")
    case None
    have "(\<exists>pre k post. ls @ [l] = pre @ k # post \<and> ycsb_reported tag nm k = Some x \<and> list_all (\<lambda>k. ycsb_reported tag nm k = None) post)
        \<longleftrightarrow> (\<exists>pre k post. ls = pre @ k # post \<and> ycsb_reported tag nm k = Some x \<and> list_all (\<lambda>k. ycsb_reported tag nm k = None) post)" (is "?A \<longleftrightarrow> ?B")
    proof
      assume ?A
      then obtain pre k post where a: "ls @ [l] = pre @ k # post" "ycsb_reported tag nm k = Some x" "list_all (\<lambda>k. ycsb_reported tag nm k = None) post" by blast
      then have "post \<noteq> []" using None by auto
      then obtain post' where "post = post' @ [l]" using a(1) by (metis append_butlast_last_id last_ConsR last_appendR last_snoc list.distinct(1))
      with a show ?B by auto
    next
      assume ?B
      then obtain pre k post where "ls = pre @ k # post" "ycsb_reported tag nm k = Some x" "list_all (\<lambda>k. ycsb_reported tag nm k = None) post" by blast
      then show ?A using None by (intro exI [of _ pre] exI [of _ k] exI [of _ "post @ [l]"]) simp
    qed
    with snoc.IH [of x] None show ?thesis by simp
  next
    case (Some y)
    then have "x = y" if "ls @ [l] = pre @ k # post" "ycsb_reported tag nm k = Some x" "list_all (\<lambda>k. ycsb_reported tag nm k = None) post" for pre k post
      using that by (cases post rule: rev_cases) auto
    moreover have "\<exists>pre k post. ls @ [l] = pre @ k # post \<and> ycsb_reported tag nm k = Some y \<and> list_all (\<lambda>k. ycsb_reported tag nm k = None) post"
      using Some by (intro exI [of _ ls] exI [of _ l] exI [of _ "[]"]) simp
    ultimately show ?thesis using Some by auto
  qed
qed

lemma map_of_put_float: "map_of (put_float d k s) q = (if q = k then (case read_float s of Inl _ \<Rightarrow> map_of d q | Inr x \<Rightarrow> Some x) else map_of d q)"
  by (simp add: put_float_def update_conv' split: sum.splits)

lemma profile_tags:
  "''[READ]'' \<noteq> ''[OVERALL]''" "''[UPDATE]'' \<noteq> ''[OVERALL]''" "''[UPDATE]'' \<noteq> ''[READ]''"
  by simp_all

lemma blank_fields: "strip l = [] \<Longrightarrow> line_fields l = [[]]"
  by (simp add: line_fields_def) (simp add: strip_def)

text \<open>The profile of a file holds what was last reported.\<close>

lemma profile_reads:
  fixes ls
  defines "p \<equiv> foldl profile_line \<lparr>overall_throughput = None, read_latencies = [], update_latencies = []\<rparr> ls"
  shows "overall_throughput p = last_reported ''[OVERALL]'' (str_in ''Throughput(ops/sec)'') ls"
    and "q \<in> set profile_percentiles \<Longrightarrow> map_of (read_latencies p) q = last_latency ''[READ]'' ls q"
    and "q \<in> set profile_percentiles \<Longrightarrow> map_of (update_latencies p) q = last_latency ''[UPDATE]'' ls q"
  unfolding p_def
proof (induction ls rule: rev_induct)
  case (snoc l ls)
  {
    case 1
    from snoc.IH(1) show ?case
      by (cases "strip l = []") (auto simp: profile_line_def ycsb_reported_def set_float_def blank_fields Let_def split: sum.splits)
  next
    case 2
    with snoc.IH(2) show ?case
      by (cases "strip l = []") (auto simp: profile_line_def ycsb_reported_def map_of_put_float blank_fields Let_def split: sum.splits)
  next
    case 3
    with snoc.IH(3) show ?case
      by (cases "strip l = []") (auto simp: profile_line_def ycsb_reported_def map_of_put_float blank_fields Let_def split: sum.splits)
  }
qed simp_all

subsection \<open>When the numbers can be written\<close>

definition mixed :: "pyfloat option list \<Rightarrow> bool" where
  "mixed vals \<longleftrightarrow> None \<in> set vals \<and> (\<exists>x. Some x \<in> set vals)"

lemma max_from_ok: "None \<notin> set (m # xs) \<Longrightarrow> \<exists>y. max_from m xs = Inr y"
proof (induction m xs rule: max_from.induct)
  case (2 m x xs)
  then show ?case by (cases m; cases x) auto
qed simp

lemma max_from_none: "None \<in> set (m # xs) \<Longrightarrow> xs \<noteq> [] \<Longrightarrow> max_from m xs = Inl TypeError"
proof (induction m xs rule: max_from.induct)
  case (2 m x xs)
  then show ?case by (cases m; cases x; cases xs) auto
qed simp

lemma annotate_cases:
  assumes "2 \<le> length vals"
  shows "annotate vals = (if mixed vals then Inl TypeError else Inr (List.map_filter id vals))"
proof -
  obtain v w vs where vals: "vals = v # w # vs" using assms by (cases vals; cases "tl vals") auto
  let ?f = "\<lambda>m acc v. case v of None \<Rightarrow> Inr acc | Some x \<Rightarrow> bind_res m (\<lambda>_. Inr (acc @ [x]))"
  have good: "res_fold (?f (Inr y)) us acc = Inr (acc @ List.map_filter id us)" for us acc and y :: "pyfloat option"
    by (induction us arbitrary: acc) (auto simp: map_filter_def split: option.splits)
  have bad: "res_fold (?f (Inl TypeError :: pyfloat option res)) us acc = (if list_all (\<lambda>u. u = None) us then Inr acc else Inl TypeError)" for us acc
    by (induction us arbitrary: acc) (auto split: option.splits)
  show ?thesis
  proof (cases "None \<in> set vals")
    case True
    then have "py_max vals = Inl TypeError" using max_from_none [of v "w # vs"] by (simp add: py_max_def vals)
    then have "annotate vals = (if list_all (\<lambda>u. u = None) vals then Inr [] else Inl TypeError)"
      unfolding annotate_def by (simp only: bad)
    moreover have "mixed vals \<longleftrightarrow> \<not> list_all (\<lambda>u. u = None) vals" using True by (auto simp: mixed_def list_all_iff)
    moreover have "list_all (\<lambda>u. u = None) vals \<Longrightarrow> List.map_filter id vals = []" by (induction vals) (auto simp: map_filter_def)
    ultimately show ?thesis by simp
  next
    case False
    then obtain y where "py_max vals = Inr y" using max_from_ok [of v "w # vs"] by (auto simp: py_max_def vals)
    then have "annotate vals = Inr ([] @ List.map_filter id vals)" unfolding annotate_def by (simp only: good)
    with False show ?thesis by (simp add: mixed_def)
  qed
qed

text \<open>
  The profile of one benchmark run, completely. It needs the file; it then shows for every percentile the
  latency that the last readable line for it reports, and the throughput reported last. It fails exactly when
  reads or updates lack some of the percentiles but not all, because the missing one cannot be compared
  with the others.
\<close>

theorem plot_ycsb_profile_shows:
  "plot_ycsb_profile read f = (case read f of
       None \<Rightarrow> Inl FileNotFoundError
     | Some ls \<Rightarrow>
         let r = map (last_latency ''[READ]'' ls) profile_percentiles; u = map (last_latency ''[UPDATE]'' ls) profile_percentiles in
         if mixed r \<or> mixed u then Inl TypeError
         else Inr (zip (map before_th profile_percentiles) r, zip (map before_th profile_percentiles) u,
           last_reported ''[OVERALL]'' (str_in ''Throughput(ops/sec)'') ls))"
proof (cases "read f")
  case None
  then show ?thesis by (simp add: plot_ycsb_profile_def open_lines_def)
next
  case (Some ls)
  let ?p = "foldl profile_line \<lparr>overall_throughput = None, read_latencies = [], update_latencies = []\<rparr> ls"
  have r: "map (map_of (read_latencies ?p)) profile_percentiles = map (last_latency ''[READ]'' ls) profile_percentiles"
    and u: "map (map_of (update_latencies ?p)) profile_percentiles = map (last_latency ''[UPDATE]'' ls) profile_percentiles"
    by (simp_all add: profile_reads(2,3))
  have n: "2 \<le> length (map g profile_percentiles)" for g :: "string \<Rightarrow> pyfloat option"
    by (simp add: profile_percentiles_def combined_percentiles_def)
  show ?thesis
    unfolding plot_ycsb_profile_def open_lines_def Some option.case bind_res_simps Let_def r u profile_reads(1)
      annotate_cases [OF n] by simp
qed

subsection \<open>Grouping by parameters\<close>

lemma auto_parse_numbers:
  assumes "auto_parse fname = Some ((a, b, c, d), l)"
  shows "CHR ''_'' \<notin> set a \<and> CHR ''_'' \<notin> set b \<and> CHR ''_'' \<notin> set c \<and> CHR ''_'' \<notin> set d"
proof -
  let ?Q = "list_all (\<lambda>c. is_digit c \<or> c = CHR ''.'')"
  from assms obtain m where m: "re_match auto_regex (basename fname) = Some m"
    and g: "a = group m 2" "b = group m 3" "c = group m 4" "d = group m 5" by (auto simp: auto_parse_def)
  have "cap_ok n ?Q (Cap k (plus rdigit))" for n k
    using rxm_plus_sym [of is_digit] by (fastforce simp: plus_def rdigit_def list_all_iff)
  then have "cap_ok n ?Q auto_regex" for n
    by (simp add: auto_regex_def cap_ok_numbers del: cap_ok.simps(7) lit.simps)
  then have "?Q (group m n)" for n using match_group_prop [OF m, of n ?Q] by simp
  moreover have "?Q w \<Longrightarrow> CHR ''_'' \<notin> set w" for w by (auto simp: list_all_iff is_digit_def code_def)
  ultimately show ?thesis unfolding g by blast
qed

lemma takeWhile_sep: "c \<notin> set a \<Longrightarrow> takeWhile (\<lambda>y. y \<noteq> c) (a @ c # x) = a"
  by (induction a) auto

lemma split_first: "c \<notin> set a \<Longrightarrow> c \<notin> set a' \<Longrightarrow> a @ c # x = a' @ c # x' \<longleftrightarrow> a = a' \<and> x = x'"
proof -
  assume c: "c \<notin> set a" "c \<notin> set a'"
  have "takeWhile (\<lambda>y. y \<noteq> c) (a @ c # x) = a" "takeWhile (\<lambda>y. y \<noteq> c) (a' @ c # x') = a'"
    using c by (simp_all only: takeWhile_sep not_False_eq_True)
  then show ?thesis by auto
qed

text \<open>Different parameters are saved under different names.\<close>

lemma auto_output_inj:
  assumes "auto_parse f = Some (k, l)" "auto_parse f' = Some (k', l')" "auto_output k = auto_output k'"
  shows "k = k'"
proof -
  obtain a b c d where k: "k = (a, b, c, d)" by (cases k)
  obtain a' b' c' d' where k': "k' = (a', b', c', d')" by (cases k')
  note n = auto_parse_numbers [OF assms(1) [unfolded k]] auto_parse_numbers [OF assms(2) [unfolded k']]
  from assms(3) have "a @ CHR ''_'' # b @ CHR ''_'' # ''pareto_read_'' @ c @ CHR ''_'' # ''write_'' @ d @ ''.png''
      = a' @ CHR ''_'' # b' @ CHR ''_'' # ''pareto_read_'' @ c' @ CHR ''_'' # ''write_'' @ d' @ ''.png''"
    by (simp add: auto_output_def k k')
  then have "a = a'" "b = b'"
    and "''pareto_read_'' @ c @ CHR ''_'' # ''write_'' @ d @ ''.png'' = ''pareto_read_'' @ c' @ CHR ''_'' # ''write_'' @ d' @ ''.png''"
    using n by (simp_all add: split_first)
  then have "c @ CHR ''_'' # ''write_'' @ d @ ''.png'' = c' @ CHR ''_'' # ''write_'' @ d' @ ''.png''" by simp
  then have "c = c'" "d @ ''.png'' = d' @ ''.png''" using n by (simp_all add: split_first)
  with \<open>a = a'\<close> \<open>b = b'\<close> show ?thesis by (simp add: k k')
qed

abbreviation auto_key_of :: "string \<Rightarrow> auto_key option" where
  "auto_key_of f \<equiv> map_option fst (auto_parse f)"

lemma auto_groups_facts:
  shows auto_groups_wf: "wf_dict (auto_groups files)"
    and auto_groups_mset: "mset (concat (map snd (auto_groups files))) = mset (filter (\<lambda>f. auto_parse f \<noteq> None) files)"
    and auto_groups_mem: "(k, fs) \<in> set (auto_groups files) \<longleftrightarrow> fs = filter (\<lambda>f. auto_key_of f = Some k) files \<and> fs \<noteq> []"
  by (simp_all only: auto_groups_def pushes_mem filed_self mset_pushes map_filter_self wf_dict_pushes)

text \<open>
  The automatic plots: every benchmark file that matches the pattern is in exactly one plot and no other file
  is in any; no two plots are saved under the same name, and a plot combines all files of its parameters,
  ordered by their leader.
\<close>

theorem auto_plots_partition:
  "distinct (map fst (auto_plots files))
   \<and> mset (concat (map snd (auto_plots files))) = mset (filter (\<lambda>f. auto_parse f \<noteq> None) files)
   \<and> list_all (\<lambda>(o_file, fs). sorted (map auto_leader fs) \<and> fs \<noteq> []
       \<and> (\<exists>k. o_file = auto_output k \<and> mset fs = mset (filter (\<lambda>f. auto_key_of f = Some k) files))) (auto_plots files)"
proof (intro conjI)
  have known: "\<exists>f l. auto_parse f = Some (j, l)" if "j \<in> fst ` set (auto_groups files)" for j
    using that by (auto simp: auto_groups_mem filter_empty_conv) fastforce
  have "inj_on auto_output (fst ` set (auto_groups files))"
    using known auto_output_inj by (intro inj_onI) metis
  moreover have "distinct (map fst (auto_groups files))" using auto_groups_wf unfolding wf_dict_def .
  ultimately have "distinct (map auto_output (map fst (auto_groups files)))" by (simp add: distinct_map del: map_map)
  then show "distinct (map fst (auto_plots files))" by (simp add: auto_plots_def comp_def case_prod_unfold)
  have "mset (concat (map snd (auto_plots files))) = mset (concat (map snd (auto_groups files)))"
    by (simp add: auto_plots_def mset_concat comp_def case_prod_unfold)
  with auto_groups_mset show "mset (concat (map snd (auto_plots files))) = mset (filter (\<lambda>f. auto_parse f \<noteq> None) files)" by simp
  show "list_all (\<lambda>(o_file, fs). sorted (map auto_leader fs) \<and> fs \<noteq> []
       \<and> (\<exists>k. o_file = auto_output k \<and> mset fs = mset (filter (\<lambda>f. auto_key_of f = Some k) files))) (auto_plots files)"
  proof -
    have "sorted (map auto_leader (sort_key auto_leader fs)) \<and> sort_key auto_leader fs \<noteq> []
        \<and> (\<exists>k'. auto_output k = auto_output k' \<and> mset (sort_key auto_leader fs) = mset (filter (\<lambda>f. auto_key_of f = Some k') files))"
      if "(k, fs) \<in> set (auto_groups files)" for k fs
    proof (intro conjI exI [of _ k] refl sorted_sort_key)
      from that have fs: "fs = filter (\<lambda>f. auto_key_of f = Some k) files" "fs \<noteq> []" unfolding auto_groups_mem by blast+
      show "sort_key auto_leader fs \<noteq> []" unfolding sort_key_Nil_iff by (rule fs(2))
      show "mset (sort_key auto_leader fs) = mset (filter (\<lambda>f. auto_key_of f = Some k) files)" unfolding mset_sort by (rule arg_cong [OF fs(1)])
    qed
    then show ?thesis unfolding auto_plots_def list_all_iff by (simp only: set_map ball_simps split_paired_Ball_Sigma prod.case) auto
  qed
qed

end
