(* ===== verification/Ycsb_Compare.thy ===== *)
theory Ycsb_Compare
  imports Ycsb
begin

text \<open>
  \<open>scripts/ycsb_thread_analysis.py\<close>, \<open>scripts/ycsb_compare.py\<close> and \<open>scripts/ycsb_compare_both.py\<close>: throughput and
  update latency of benchmark runs, grouped by the parameters in the file names. The list of files is what
  \<open>glob\<close> returned; a figure is the data it is given, and the text of a label is the tuple it is made of.
\<close>

subsection \<open>The two numbers of a run\<close>

definition bench_line :: "pyfloat option \<times> pyfloat option \<Rightarrow> string \<Rightarrow> pyfloat option \<times> pyfloat option" where
  "bench_line tu line = (let l = strip line in
     if startswith l ''[OVERALL]'' \<and> str_in ''Throughput(ops/sec)'' l then (set_float (fst tu) (last (line_fields line)), snd tu)
     else if startswith l ''[UPDATE]'' \<and> str_in ''AverageLatency(us)'' l then (fst tu, set_float (snd tu) (last (line_fields line)))
     else tu)"

definition parse_ycsb_file :: "(string \<Rightarrow> string list option) \<Rightarrow> string \<Rightarrow> (pyfloat option \<times> pyfloat option) res" where
  "parse_ycsb_file read fname = bind_res (open_lines read fname) (\<lambda>ls. Inr (foldl bench_line (None, None) ls))"

text \<open>A run is filed only when both numbers were found.\<close>

definition file_run :: "(string \<Rightarrow> string list option) \<Rightarrow> ('k, 'v list) dict \<Rightarrow> string \<Rightarrow> 'k \<Rightarrow> (pyfloat \<times> pyfloat \<Rightarrow> 'v) \<Rightarrow> ('k, 'v list) dict res" where
  "file_run read grps fname key entry = bind_res (parse_ycsb_file read fname) (\<lambda>tu. case tu of
       (Some t, Some u) \<Rightarrow> Inr (push grps key (entry (t, u)))
     | _ \<Rightarrow> Inr grps)"

subsection \<open>ycsb_thread_analysis.py\<close>

definition thread_regex :: regex where
  "thread_regex = rseq [lit ''zk_leader_node'', Cap 1 (plus rdigit), lit ''_'', Cap 2 (plus rdigit), lit ''ms_'',
     Cap 3 (plus rdigit), lit ''threads.txt'']"

type_synonym thread_groups = "(int \<times> int, (int \<times> pyfloat \<times> pyfloat) list) dict"

definition thread_file :: "(string \<Rightarrow> string list option) \<Rightarrow> thread_groups \<Rightarrow> string \<Rightarrow> thread_groups res" where
  "thread_file read grps fname = (case re_match thread_regex (basename fname) of
       None \<Rightarrow> Inr grps
     | Some m \<Rightarrow> file_run read grps fname (int_of_digits (group m 1), int_of_digits (group m 2))
         (\<lambda>tu. (int_of_digits (group m 3), tu)))"

text \<open>The curves, and the groups with their lists sorted in place.\<close>

definition plot_combined_profiles :: "thread_groups \<Rightarrow> ((int \<times> int) \<times> (int \<times> pyfloat \<times> pyfloat) list) list \<times> thread_groups" where
  "plot_combined_profiles grps = (let grps' = map (\<lambda>(k, data). (k, sort_key fst data)) grps in (sort_key fst grps', grps'))"

definition at_34 :: "thread_groups \<Rightarrow> ((int \<times> int) \<times> pyfloat \<times> pyfloat) list" where
  "at_34 grps = List.map_filter (\<lambda>(k, data). map_option (\<lambda>d. (k, snd d)) (List.find (\<lambda>d. fst d = 34) data)) grps"

text \<open>The bars: key, latency gap, throughput gap; \<open>None\<close> without an experiment of 34 threads.\<close>

definition plot_gap_for_34_threads :: "thread_groups \<Rightarrow> ((int \<times> int) \<times> pyfloat \<times> pyfloat) list option res" where
  "plot_gap_for_34_threads grps =
     (let results = sort_key fst (at_34 grps); throughputs = map (fst \<circ> snd) results; latencies = map (snd \<circ> snd) results in
      if results = [] then Inr None
      else bind_res (flt_max throughputs) (\<lambda>max_thr. bind_res (flt_min latencies) (\<lambda>min_lat.
        Inr (Some (map (\<lambda>(k, th, lat). (k, flt_sub lat min_lat, flt_sub max_thr th)) results)))))"

definition thread_main :: "string list \<Rightarrow> (string \<Rightarrow> string list option)
    \<Rightarrow> (((int \<times> int) \<times> (int \<times> pyfloat \<times> pyfloat) list) list \<times> ((int \<times> int) \<times> pyfloat \<times> pyfloat) list option) option res" where
  "thread_main files read = bind_res (res_fold (thread_file read) files []) (\<lambda>grps.
     if grps = [] then Inr None
     else let (curves, grps') = plot_combined_profiles grps in
       bind_res (plot_gap_for_34_threads grps') (\<lambda>gaps. Inr (Some (curves, gaps))))"

subsection \<open>Names of the repeated runs\<close>

definition run_regex :: "string \<Rightarrow> regex" where
  "run_regex tail = rseq [lit ''zk_leader_node'', Cap 1 (plus rdigit), lit ''_'',
     Cap 2 (Cat (plus rdigit) (ropt (Cat (lit ''.'') (plus rdigit)))), lit ''ms_'', Cap 3 (plus rdigit),
     lit ''threads_base_delay_'', Cap 4 (plus rdigit), lit ''_ms_run'', Cap 5 (plus rdigit), lit tail]"

type_synonym run_key = "int \<times> real \<times> int"

definition key_of_name :: "caps \<Rightarrow> run_key res" where
  "key_of_name m = bind_res (float_number (group m 2)) (\<lambda>lat. Inr (int_of_digits (group m 1), lat, int_of_digits (group m 3)))"

subsection \<open>The bars of a comparison\<close>

record 'k bar =
  bar_key :: 'k
  thr_mean :: pyfloat
  thr_std :: pyfloat
  upd_mean :: pyfloat
  upd_std :: pyfloat
  bar_color :: nat

definition std_or_0 :: "pyfloat list \<Rightarrow> pyfloat res" where
  "std_or_0 xs = (if 1 < length xs then flt_stdev xs else Inr (Finite 0))"

definition group_bar :: "('k \<Rightarrow> nat) \<Rightarrow> ('k, (pyfloat \<times> pyfloat) list) dict \<Rightarrow> 'k \<Rightarrow> 'k bar res" where
  "group_bar color grps key = (let data = dict_get grps key []; throughputs = map fst data; updates = map snd data in
     bind_res (flt_mean throughputs) (\<lambda>tm. bind_res (flt_mean updates) (\<lambda>um.
     bind_res (std_or_0 throughputs) (\<lambda>ts. bind_res (std_or_0 updates) (\<lambda>us.
     Inr \<lparr>bar_key = key, thr_mean = tm, thr_std = ts, upd_mean = um, upd_std = us, bar_color = color key\<rparr>)))))"

definition add_bar :: "('k \<Rightarrow> nat) \<Rightarrow> ('k, (pyfloat \<times> pyfloat) list) dict \<Rightarrow> 'k bar list \<Rightarrow> 'k \<Rightarrow> 'k bar list res" where
  "add_bar color grps bars key = bind_res (group_bar color grps key) (\<lambda>b. Inr (bars @ [b]))"

text \<open>The position of a node in the sorted list of the nodes is the index of its colour.\<close>

definition node_color :: "('k \<Rightarrow> int) \<Rightarrow> 'k list \<Rightarrow> 'k \<Rightarrow> nat" where
  "node_color node keys k = length (takeWhile (\<lambda>n. n \<noteq> node k) (sort (remdups (map node keys))))"

text \<open>A dotted line before every bar whose setting differs from that of the bar before it.\<close>

definition separators :: "'s list \<Rightarrow> nat list" where
  "separators settings = filter (\<lambda>i. settings ! i \<noteq> settings ! (i - 1)) [1..<length settings]"

record 'k chart_data =
  ch_bars :: "'k bar list"
  ch_deltas :: "pyfloat list"
  ch_lines :: "nat list"

definition charts :: "('k \<Rightarrow> int) \<Rightarrow> ('k \<Rightarrow> real \<times> int) \<Rightarrow> ('k, (pyfloat \<times> pyfloat) list) dict \<Rightarrow> 'k list \<Rightarrow> 'k chart_data res" where
  "charts node setting grps sorted_keys =
     bind_res (res_fold (add_bar (node_color node sorted_keys) grps) sorted_keys []) (\<lambda>bars.
     bind_res (flt_min (map upd_mean bars)) (\<lambda>min_update.
     Inr \<lparr>ch_bars = bars, ch_deltas = map (\<lambda>b. flt_over (flt_sub (upd_mean b) min_update) 1000) bars,
       ch_lines = separators (map setting sorted_keys)\<rparr>))"

subsection \<open>ycsb_compare.py\<close>

definition cmp_file :: "(string \<Rightarrow> string list option) \<Rightarrow> (run_key, (pyfloat \<times> pyfloat) list) dict \<Rightarrow> string \<Rightarrow> (run_key, (pyfloat \<times> pyfloat) list) dict res" where
  "cmp_file read grps fname = (case re_match (run_regex ''.txt'') (basename fname) of
       None \<Rightarrow> Inr grps
     | Some m \<Rightarrow> bind_res (key_of_name m) (\<lambda>key. file_run read grps fname key id))"

definition cmp_group_experiment_results :: "(string \<Rightarrow> string list option) \<Rightarrow> string list \<Rightarrow> (run_key, (pyfloat \<times> pyfloat) list) dict res" where
  "cmp_group_experiment_results read files = res_fold (cmp_file read) files []"

definition cmp_order :: "run_key \<Rightarrow> real \<times> int \<times> int" where
  "cmp_order k = (case k of (node_id, latency, thd_cnt) \<Rightarrow> (latency, node_id, thd_cnt))"

definition cmp_setting :: "run_key \<Rightarrow> real \<times> int" where
  "cmp_setting k = (case k of (node_id, latency, thd_cnt) \<Rightarrow> (latency, thd_cnt))"

definition cmp_plot_bar_charts :: "(run_key, (pyfloat \<times> pyfloat) list) dict \<Rightarrow> run_key chart_data res" where
  "cmp_plot_bar_charts grps = charts fst cmp_setting grps (sort_key cmp_order (dict_keys grps))"

definition cmp_main :: "string list \<Rightarrow> (string \<Rightarrow> string list option) \<Rightarrow> run_key chart_data option res" where
  "cmp_main files read = bind_res (cmp_group_experiment_results read files) (\<lambda>grps.
     if grps = [] then Inr None else bind_res (cmp_plot_bar_charts grps) (\<lambda>c. Inr (Some c)))"

subsection \<open>ycsb_compare_both.py\<close>

text \<open>The key carries the type of the file as well.\<close>

type_synonym both_key = "run_key \<times> string"

definition both_match :: "string \<Rightarrow> (caps \<times> string) option" where
  "both_match base = (case re_match (run_regex ''.txt'') base of
       Some m \<Rightarrow> Some (m, ''regular'')
     | None \<Rightarrow> map_option (\<lambda>m. (m, ''triple'')) (re_match (run_regex ''_triple.txt'') base))"

definition both_file :: "(string \<Rightarrow> string list option) \<Rightarrow> (both_key, (pyfloat \<times> pyfloat) list) dict \<Rightarrow> string \<Rightarrow> (both_key, (pyfloat \<times> pyfloat) list) dict res" where
  "both_file read grps fname = (case both_match (basename fname) of
       None \<Rightarrow> Inr grps
     | Some (m, file_type) \<Rightarrow> bind_res (key_of_name m) (\<lambda>key. file_run read grps fname (key, file_type) id))"

definition both_group_experiment_results :: "(string \<Rightarrow> string list option) \<Rightarrow> string list \<Rightarrow> (both_key, (pyfloat \<times> pyfloat) list) dict res" where
  "both_group_experiment_results read files = res_fold (both_file read) files []"

definition both_order :: "both_key \<Rightarrow> real \<times> int \<times> int \<times> string" where
  "both_order k = (case k of ((node_id, latency, thd_cnt), file_type) \<Rightarrow> (latency, node_id, thd_cnt, file_type))"

text \<open>The charts and the hatch patterns of the bars.\<close>

definition both_plot_bar_charts :: "(both_key, (pyfloat \<times> pyfloat) list) dict \<Rightarrow> (both_key chart_data \<times> string list) res" where
  "both_plot_bar_charts grps = (let sorted_keys = sort_key both_order (dict_keys grps) in
     bind_res (charts (fst \<circ> fst) (cmp_setting \<circ> fst) grps sorted_keys) (\<lambda>c.
     Inr (c, map (\<lambda>k. if snd k = ''triple'' then ''///'' else []) sorted_keys)))"

definition both_main :: "string list \<Rightarrow> (string \<Rightarrow> string list option) \<Rightarrow> (both_key chart_data \<times> string list) option res" where
  "both_main files read = bind_res (both_group_experiment_results read files) (\<lambda>grps.
     if grps = [] then Inr None else bind_res (both_plot_bar_charts grps) (\<lambda>c. Inr (Some c)))"

subsection \<open>The experiments write names that the analyses read\<close>

lemma basename_plain: "CHR ''/'' \<notin> set s \<Longrightarrow> basename s = s"
proof -
  assume "CHR ''/'' \<notin> set s"
  then have "takeWhile (\<lambda>c. c \<noteq> CHR ''/'') (rev s) = rev s" by auto
  then show ?thesis unfolding basename_def by (simp only: rev_rev_ident)
qed

lemma show_int_no: "0 \<le> n \<Longrightarrow> \<not> is_digit c \<Longrightarrow> c \<notin> set (show_int n)"
  using list_all_show_int [of n] by (auto simp: list_all_iff)

lemma not_digit: "\<not> is_digit (CHR ''/'')" "\<not> is_digit (CHR ''_'')" "\<not> is_digit (CHR ''m'')" "\<not> is_digit (CHR ''t'')"
  by (simp_all add: is_digit_def code_def)

lemmas digit_runs = show_int_nonempty list_all_show_int

lemma thread_name_parsed:
  assumes "0 \<le> leader" "0 \<le> lat" "0 \<le> threads"
  shows "re_match thread_regex (basename (thread_name leader lat threads)) = Some [(3, show_int threads), (2, show_int lat), (1, show_int leader)]"
proof -
  have "basename (thread_name leader lat threads) = thread_name leader lat threads"
    using assms by (intro basename_plain) (auto simp: thread_name_def show_int_no not_digit)
  moreover have "rfirst thread_regex (None, thread_name leader lat threads, [])
      (Some (CHR ''t''), [], [(3, show_int threads), (2, show_int lat), (1, show_int leader)])"
    unfolding thread_regex_def thread_name_def rdigit_def
    using first_rseq_end [of "''threads.txt''"] assms
    by (intro first_rseq_lit first_rseq_plus digit_runs) (simp_all add: not_digit)
  ultimately show ?thesis using re_match_first by fastforce
qed

lemma comprehensive_name_parsed:
  assumes "0 \<le> leader" "0 \<le> mean" "0 \<le> std" "1 \<le> i" "i \<le> 9"
  shows "auto_parse (comprehensive_name leader mean std ''pareto'' i) =
    Some ((show_int mean, show_int std, ''0.'' @ show_int i, ''0.'' @ show_int (10 - i)), leader)"
proof -
  let ?rd = "''0.'' @ show_int i" and ?wr = "''0.'' @ show_int (10 - i)"
  let ?N = "\<lambda>c. is_digit c \<or> c = CHR ''.''"
  have name: "comprehensive_name leader mean std ''pareto'' i = ''zk_lat_leader_node'' @ show_int leader @ ''_'' @ show_int mean @ ''_''
      @ show_int std @ ''_pareto_read_'' @ ?rd @ ''_write_'' @ ?wr @ ''.txt''" by (simp add: comprehensive_name_def)
  have rd: "?rd \<noteq> []" "list_all ?N ?rd" and wr: "?wr \<noteq> []" "list_all ?N ?wr"
    using assms list_all_show_int [of i] list_all_show_int [of "10 - i"] by (auto simp: list_all_iff)
  have base: "basename (comprehensive_name leader mean std ''pareto'' i) = comprehensive_name leader mean std ''pareto'' i"
    using assms by (intro basename_plain) (auto simp: comprehensive_name_def show_int_no not_digit)
  let ?g = "[(4, ?rd), (3, show_int std), (2, show_int mean), (1, show_int leader)]"
  obtain z where z: "rfirst (rseq [Cap 5 (plus rnumber), lit ''.txt'']) (Some (CHR ''_''), ?wr @ ''.txt'', ?g) z" "groups z = (5, ?wr) # ?g"
    using first_number_dot [OF wr, of "CHR ''t''" 5 "''xt''" "Some (CHR ''_'')" ?g] not_digit(4) by auto
  define T where "T = [lit ''_write_'', Cap 5 (plus rnumber), lit ''.txt'']"
  define X where "X = ''_write_'' @ ?wr @ ''.txt''"
  have "rfirst (rseq T) (Some (last ?rd), X, ?g) z" unfolding T_def X_def using z(1) by (intro first_rseq_lit) simp
  moreover have "X \<noteq> []" "\<not> ?N (hd X)" by (simp_all add: X_def not_digit)
  ultimately have "rfirst (rseq (lit ''zk_lat_leader_node'' # Cap 1 (plus rdigit) # lit ''_'' # Cap 2 (plus rdigit) # lit ''_''
      # Cap 3 (plus rdigit) # lit ''_pareto_read_'' # Cap 4 (plus rnumber) # T))
      (None, ''zk_lat_leader_node'' @ show_int leader @ ''_'' @ show_int mean @ ''_'' @ show_int std @ ''_pareto_read_'' @ ?rd @ X, []) z"
    unfolding rdigit_def rnumber_def
    using assms by (intro first_rseq_lit first_rseq_plus digit_runs rd) (simp_all add: not_digit)
  then have "rfirst auto_regex (None, comprehensive_name leader mean std ''pareto'' i, []) z"
    unfolding auto_regex_def name T_def X_def .
  then have "re_match auto_regex (basename (comprehensive_name leader mean std ''pareto'' i)) = Some ((5, ?wr) # ?g)"
    unfolding base using re_match_first z(2) by metis
  then show ?thesis using assms by (simp add: auto_parse_def group_def)
qed

text \<open>The names of the runs with three times the delay, as the experiment writes them.\<close>

definition triple_names :: "string list" where
  "triple_names = concat (map (\<lambda>name. map (\<lambda>j. run_name 1 name (''run'' @ num j @ ''_triple'')) [0, 1, 2]) [''0'', ''2.0''])"

lemma triple_names_parsed:
  "map (\<lambda>f. map_option (\<lambda>(m, ty). (group m 1, group m 2, group m 3, ty)) (both_match (basename f))) triple_names =
     map Some ([(''1'', ''0'', ''20'', ''triple''), (''1'', ''0'', ''20'', ''triple''), (''1'', ''0'', ''20'', ''triple''),
       (''1'', ''2.0'', ''20'', ''triple''), (''1'', ''2.0'', ''20'', ''triple''), (''1'', ''2.0'', ''20'', ''triple'')])"
  by code_simp



subsection \<open>Charts under a change of labels\<close>

definition relabel_bar :: "('k \<Rightarrow> 'j) \<Rightarrow> 'k bar \<Rightarrow> 'j bar" where
  "relabel_bar g b = \<lparr>bar_key = g (bar_key b), thr_mean = thr_mean b, thr_std = thr_std b, upd_mean = upd_mean b,
     upd_std = upd_std b, bar_color = bar_color b\<rparr>"

definition relabel :: "('k \<Rightarrow> 'j) \<Rightarrow> 'k chart_data \<Rightarrow> 'j chart_data" where
  "relabel g c = \<lparr>ch_bars = map (relabel_bar g) (ch_bars c), ch_deltas = ch_deltas c, ch_lines = ch_lines c\<rparr>"

definition relabel_keys :: "('k \<Rightarrow> 'j) \<Rightarrow> ('k, 'v) dict \<Rightarrow> ('j, 'v) dict" where
  "relabel_keys g d = map (\<lambda>p. (g (fst p), snd p)) d"

lemma dict_get_relabel: "inj g \<Longrightarrow> dict_get (relabel_keys g d) (g k) v = dict_get d k v"
  by (induction d) (auto simp: dict_get_def relabel_keys_def inj_eq)

lemma update_relabel: "inj g \<Longrightarrow> AList.update (g k) v (relabel_keys g d) = relabel_keys g (AList.update k v d)"
  by (induction d) (auto simp: relabel_keys_def inj_eq)

lemma push_relabel: "inj g \<Longrightarrow> push (relabel_keys g d) (g k) v = relabel_keys g (push d k v)"
  by (simp add: push_def dict_get_relabel update_relabel)

lemma group_bar_relabel:
  "inj g \<Longrightarrow> color (g k) = h k \<Longrightarrow> group_bar color (relabel_keys g d) (g k) = map_sum id (relabel_bar g) (group_bar h d k)"
  by (auto simp: group_bar_def dict_get_relabel Let_def bind_res_def relabel_bar_def split: sum.splits)

lemma add_bar_relabel:
  "inj g \<Longrightarrow> color (g k) = h k \<Longrightarrow>
     add_bar color (relabel_keys g d) (map (relabel_bar g) bs) (g k) = map_sum id (map (relabel_bar g)) (add_bar h d bs k)"
  by (cases "group_bar h d k") (simp_all add: add_bar_def group_bar_relabel)

lemma bars_relabel:
  assumes "inj g" "\<And>k. color (g k) = h k"
  shows "res_fold (add_bar color (relabel_keys g d)) (map g ks) (map (relabel_bar g) bs)
    = map_sum id (map (relabel_bar g)) (res_fold (add_bar h d) ks bs)"
proof (induction ks arbitrary: bs)
  case (Cons k ks)
  have step: "add_bar color (relabel_keys g d) (map (relabel_bar g) bs) (g k) = map_sum id (map (relabel_bar g)) (add_bar h d bs k)"
    by (rule add_bar_relabel) (use assms in simp_all)
  show ?case
  proof (cases "add_bar h d bs k")
    case (Inl e)
    then show ?thesis by (simp add: step)
  next
    case (Inr bs')
    then show ?thesis using Cons [of bs'] by (simp add: step)
  qed
qed simp

lemma charts_relabel:
  assumes "inj g" "\<And>k. node (g k) = node' k" "\<And>k. setting (g k) = setting' k"
  shows "charts node setting (relabel_keys g d) (map g ks) = map_sum id (relabel g) (charts node' setting' d ks)"
proof -
  have color: "node_color node (map g ks) (g k) = node_color node' ks k" for k
    using assms(2) by (simp add: node_color_def comp_def)
  have settings: "map setting (map g ks) = map setting' ks" using assms(3) by simp
  have bars: "res_fold (add_bar (node_color node (map g ks)) (relabel_keys g d)) (map g ks) []
      = map_sum id (map (relabel_bar g)) (res_fold (add_bar (node_color node' ks) d) ks [])"
    using bars_relabel [of g "node_color node (map g ks)" "node_color node' ks" d ks "[]", OF assms(1) color] by simp
  show ?thesis
  proof (cases "res_fold (add_bar (node_color node' ks) d) ks []")
    case (Inl e)
    then show ?thesis by (simp add: charts_def bars)
  next
    case (Inr bs)
    have means: "map upd_mean (map (relabel_bar g) bs) = map upd_mean bs" by (simp add: relabel_bar_def)
    show ?thesis
      unfolding charts_def bars Inr map_sum.simps bind_res_simps means settings
      by (cases "flt_min (map upd_mean bs)") (simp_all add: relabel_def relabel_bar_def)
  qed
qed

lemma bars_length: "res_fold (add_bar color d) ks bs = Inr bs' \<Longrightarrow> length bs' = length bs + length ks"
  by (induction ks arbitrary: bs) (auto simp: bind_res_Inr_iff add_bar_def)

lemma charts_length: "charts node setting d ks = Inr c \<Longrightarrow> length (ch_bars c) = length ks"
  using bars_length [of "node_color node ks" d ks "[]"] by (auto simp: charts_def bind_res_Inr_iff)

lemma sort_key_map: "sort_key f (map g xs) = map g (sort_key (f \<circ> g) xs)"
proof -
  have "insort_key f (g x) (map g ys) = map g (insort_key (f \<circ> g) x ys)" for x ys
    by (induction ys) auto
  then show ?thesis by (induction xs) auto
qed

lemma sort_key_same_order:
  assumes "\<And>x y. f x \<le> f y \<longleftrightarrow> h x \<le> h y"
  shows "sort_key f xs = sort_key h xs"
proof -
  have "insort_key f x ys = insort_key h x ys" for x ys using assms by (induction ys) auto
  then show ?thesis by (induction xs) auto
qed

subsection \<open>The two comparisons agree on ordinary runs\<close>

abbreviation regular :: "run_key \<Rightarrow> both_key" where
  "regular k \<equiv> (k, ''regular'')"

lemma inj_regular: "inj regular"
  by (simp add: inj_def)

lemma sort_regular: "sort_key both_order (map regular ks) = map regular (sort_key cmp_order ks)"
proof -
  have "(both_order \<circ> regular) x \<le> (both_order \<circ> regular) y \<longleftrightarrow> cmp_order x \<le> cmp_order y" for x y
    by (cases x; cases y) (auto simp: both_order_def cmp_order_def)
  then have "sort_key (both_order \<circ> regular) ks = sort_key cmp_order ks" by (rule sort_key_same_order)
  then show ?thesis by (simp only: sort_key_map)
qed

lemma file_run_regular:
  "file_run read (relabel_keys regular d) f (regular k) entry = map_sum id (relabel_keys regular) (file_run read d f k entry)"
  by (auto simp: file_run_def bind_res_def push_relabel [OF inj_regular] split: sum.splits option.splits)

lemma both_file_regular:
  assumes "re_match (run_regex ''_triple.txt'') (basename f) = None"
  shows "both_file read (relabel_keys regular d) f = map_sum id (relabel_keys regular) (cmp_file read d f)"
  using assms by (auto simp: both_file_def both_match_def cmp_file_def bind_res_def file_run_regular split: option.splits sum.splits)

lemma both_groups_regular:
  assumes "list_all (\<lambda>f. re_match (run_regex ''_triple.txt'') (basename f) = None) files"
  shows "res_fold (both_file read) files (relabel_keys regular d) = map_sum id (relabel_keys regular) (res_fold (cmp_file read) files d)"
  using assms
proof (induction files arbitrary: d)
  case (Cons f files)
  show ?case
  proof (cases "cmp_file read d f")
    case (Inr d')
    then show ?thesis using Cons both_file_regular [of f read d] by simp
  qed (use Cons.prems both_file_regular [of f read d] in simp)
qed simp

text \<open>
  \<open>ycsb_compare_both.py\<close> does what \<open>ycsb_compare.py\<close> does. On files of which none is a run of the tripled
  kind it fails exactly when the other does, and otherwise draws the same bars, deviations, differences and
  separating lines under the same labels, with no bar hatched.
\<close>

theorem both_main_regular:
  assumes "list_all (\<lambda>f. re_match (run_regex ''_triple.txt'') (basename f) = None) files"
  shows "both_main files read = map_sum id (map_option (\<lambda>c. (relabel regular c, map (\<lambda>_. []) (ch_bars c)))) (cmp_main files read)"
proof (cases "cmp_group_experiment_results read files")
  case (Inl e)
  then show ?thesis using both_groups_regular [OF assms, of read "[]"]
    by (simp add: both_main_def cmp_main_def both_group_experiment_results_def cmp_group_experiment_results_def relabel_keys_def)
next
  case (Inr d)
  then have b: "both_group_experiment_results read files = Inr (relabel_keys regular d)" using both_groups_regular [OF assms, of read "[]"]
    by (simp add: both_group_experiment_results_def cmp_group_experiment_results_def relabel_keys_def)
  define ks where "ks = sort_key cmp_order (dict_keys d)"
  have keys: "sort_key both_order (dict_keys (relabel_keys regular d)) = map regular ks"
    unfolding ks_def sort_regular [symmetric] by (simp add: dict_keys_def relabel_keys_def comp_def)
  have "charts (fst \<circ> fst) (cmp_setting \<circ> fst) (relabel_keys regular d) (map regular ks)
      = map_sum id (relabel regular) (charts fst cmp_setting d ks)"
    by (rule charts_relabel [OF inj_regular]) simp_all
  moreover have "map (\<lambda>_. [] :: string) ks = map (\<lambda>_. []) (ch_bars c)" if "charts fst cmp_setting d ks = Inr c" for c
    using charts_length [OF that] by (simp add: map_replicate_const)
  ultimately show ?thesis
    unfolding both_main_def cmp_main_def b Inr bind_res_simps both_plot_bar_charts_def cmp_plot_bar_charts_def keys Let_def ks_def [symmetric]
    by (cases "charts fst cmp_setting d ks") (simp_all add: relabel_keys_def comp_def)
qed

text \<open>One ordinary run.\<close>

definition demo_run :: string where
  "demo_run = ''zk_leader_node1_2.0ms_20threads_base_delay_0_ms_run0.txt''"

definition demo_read :: "string \<Rightarrow> string list option" where
  "demo_read f = (if f = demo_run then Some [''[OVERALL], Throughput(ops/sec), 512.5'', ''[UPDATE], AverageLatency(us), 1.9E4''] else None)"

theorem both_main_regular_witness:
  "both_main [demo_run] demo_read = map_sum id (map_option (\<lambda>c. (relabel regular c, map (\<lambda>_. []) (ch_bars c)))) (cmp_main [demo_run] demo_read)"
proof -
  have "list_all (\<lambda>f. re_match (run_regex ''_triple.txt'') (basename f) = None) [demo_run]" by code_simp
  then show ?thesis by (rule both_main_regular)
qed

subsection \<open>What the bars show\<close>

text \<open>What a file contributes: its key and its two numbers.\<close>

definition run_of :: "(string \<Rightarrow> string list option) \<Rightarrow> string \<Rightarrow> (run_key \<times> pyfloat \<times> pyfloat) option res" where
  "run_of read f = (case re_match (run_regex ''.txt'') (basename f) of
       None \<Rightarrow> Inr None
     | Some m \<Rightarrow> bind_res (key_of_name m) (\<lambda>key. bind_res (parse_ycsb_file read f) (\<lambda>tu. Inr (case tu of
         (Some t, Some u) \<Rightarrow> Some (key, t, u) | _ \<Rightarrow> None))))"

definition sample_dev :: "real list \<Rightarrow> real" where
  "sample_dev xs = (if 1 < length xs then sqrt ((\<Sum>t\<leftarrow>xs. (t - mean_of xs)\<^sup>2) / (real (length xs) - 1)) else 0)"

lemma cmp_file_run: "cmp_file read d f = bind_res (run_of read f) (\<lambda>x. Inr (case x of None \<Rightarrow> d | Some (k, v) \<Rightarrow> push d k v))"
  by (auto simp: cmp_file_def run_of_def file_run_def bind_res_def split: option.splits sum.splits)

lemma res_fold_pushes:
  assumes "\<And>d f. f \<in> set files \<Longrightarrow> step d f = Inr (case g f of None \<Rightarrow> d | Some (k, v) \<Rightarrow> push d k v)"
  shows "res_fold step files [] = Inr (pushes g files)"
  using assms
proof (induction files rule: rev_induct)
  case Nil
  then show ?case by (simp add: pushes_def)
next
  case (snoc f files)
  then show ?case by (simp add: res_fold_append pushes_snoc)
qed

abbreviation both_finite :: "real \<times> real \<Rightarrow> pyfloat \<times> pyfloat" where
  "both_finite tu \<equiv> (Finite (fst tu), Finite (snd tu))"

lemma filed_map: "filed (\<lambda>x. map_option (\<lambda>p. (fst p, h (snd p))) (g x)) k xs = map h (filed g k xs)"
proof (induction xs rule: rev_induct)
  case (snoc x xs)
  then show ?case by (cases "g x") (auto simp: filed_snoc split: prod.splits)
qed (simp add: filed_def map_filter_def)

lemma std_or_0_Finite: "std_or_0 (map Finite xs) = Inr (Finite (sample_dev xs))"
  using flt_stdev_Finite [of xs] by (simp add: std_or_0_def sample_dev_def stdev_def)

definition finite_bar :: "('k \<Rightarrow> nat) \<Rightarrow> (real \<times> real) list \<Rightarrow> 'k \<Rightarrow> 'k bar" where
  "finite_bar color rs k = \<lparr>bar_key = k, thr_mean = Finite (mean_of (map fst rs)), thr_std = Finite (sample_dev (map fst rs)),
     upd_mean = Finite (mean_of (map snd rs)), upd_std = Finite (sample_dev (map snd rs)), bar_color = color k\<rparr>"

lemma group_bar_Finite:
  assumes "dict_get d k [] = map both_finite rs" "rs \<noteq> []"
  shows "group_bar color d k = Inr (finite_bar color rs k)"
  using assms flt_mean_Finite [of "map fst rs"] flt_mean_Finite [of "map snd rs"]
    std_or_0_Finite [of "map fst rs"] std_or_0_Finite [of "map snd rs"]
  by (simp add: group_bar_def Let_def finite_bar_def comp_def)

lemma bars_Finite:
  assumes "\<And>k. k \<in> set ks \<Longrightarrow> dict_get d k [] = map both_finite (rs k) \<and> rs k \<noteq> []"
  shows "res_fold (add_bar color d) ks bs = Inr (bs @ map (\<lambda>k. finite_bar color (rs k) k) ks)"
  using assms by (induction ks arbitrary: bs) (simp_all add: add_bar_def group_bar_Finite)

lemma charts_Finite:
  assumes "\<And>k. k \<in> set ks \<Longrightarrow> dict_get d k [] = map both_finite (rs k) \<and> rs k \<noteq> []" "ks \<noteq> []"
  shows "charts node setting d ks = Inr \<lparr>ch_bars = map (\<lambda>k. finite_bar (node_color node ks) (rs k) k) ks,
    ch_deltas = map (\<lambda>k. Finite ((mean_of (map snd (rs k)) - Min (set (map (\<lambda>k. mean_of (map snd (rs k))) ks))) / 1000)) ks,
    ch_lines = separators (map setting ks)\<rparr>"
proof -
  have "map upd_mean (map (\<lambda>k. finite_bar (node_color node ks) (rs k) k) ks) = map Finite (map (\<lambda>k. mean_of (map snd (rs k))) ks)"
    by (simp add: finite_bar_def)
  then have m: "flt_min (map upd_mean (map (\<lambda>k. finite_bar (node_color node ks) (rs k) k) ks))
      = Inr (Finite (Min (set (map (\<lambda>k. mean_of (map snd (rs k))) ks))))"
    using flt_min_Finite [of "map (\<lambda>k. mean_of (map snd (rs k))) ks"] assms(2) by (simp only: list.map_disc_iff not_False_eq_True)
  have b: "res_fold (add_bar (node_color node ks) d) ks [] = Inr (map (\<lambda>k. finite_bar (node_color node ks) (rs k) k) ks)"
    using bars_Finite [of ks d rs "node_color node ks" "[]", OF assms(1)] by simp
  show ?thesis
    unfolding charts_def b bind_res_simps m by (simp add: finite_bar_def)
qed

text \<open>
  \<open>ycsb_compare.py\<close> on files of which all can be opened and report finite numbers, at least one of them a run:
  there is one bar for each combination of node, latency and thread count that has a run, ordered by latency,
  node and threads; it shows the mean throughput and the mean update latency of exactly its runs with
  their sample deviations (0 for a single run), and the differences drawn are the distances of the mean
  latencies from the smallest one, in milliseconds.
\<close>

theorem cmp_main_bars:
  assumes "\<And>f. f \<in> set files \<Longrightarrow> run_of read f = Inr (map_option (\<lambda>p. (fst p, both_finite (snd p))) (g f))"
    and "\<exists>f \<in> set files. g f \<noteq> None"
  shows "\<exists>ks c. cmp_main files read = Inr (Some c) \<and> distinct ks \<and> sorted (map cmp_order ks) \<and> set ks = {k. filed g k files \<noteq> []}
    \<and> ch_bars c = map (\<lambda>k. finite_bar (node_color fst ks) (filed g k files) k) ks
    \<and> ch_deltas c = map (\<lambda>k. Finite ((mean_of (map snd (filed g k files)) - Min ((\<lambda>k. mean_of (map snd (filed g k files))) ` set ks)) / 1000)) ks"
proof -
  define h where "h f = map_option (\<lambda>p. (fst p, both_finite (snd p))) (g f)" for f
  define d where "d = pushes h files"
  define ks where "ks = sort_key cmp_order (dict_keys d)"
  have filed: "filed h k files = map both_finite (filed g k files)" for k
    unfolding h_def by (rule filed_map)
  have "cmp_file read e f = Inr (case h f of None \<Rightarrow> e | Some (k, v) \<Rightarrow> push e k v)" if "f \<in> set files" for e f
    using assms(1) [OF that] by (simp add: cmp_file_run h_def)
  then have groups: "cmp_group_experiment_results read files = Inr d"
    unfolding cmp_group_experiment_results_def d_def by (rule res_fold_pushes)
  have keys: "set ks = {k. filed g k files \<noteq> []}"
  proof -
    have "k \<in> fst ` set d \<longleftrightarrow> filed g k files \<noteq> []" for k
      using map_of_eq_None_iff [of d k] map_of_pushes [of h files k] by (auto simp: d_def filed)
    then show ?thesis by (auto simp: ks_def dict_keys_def)
  qed
  have get: "dict_get d k [] = map both_finite (filed g k files) \<and> filed g k files \<noteq> []" if "k \<in> set ks" for k
    using that by (simp add: keys dict_get_def d_def map_of_pushes filed)
  from assms(2) obtain f k v where "f \<in> set files" "g f = Some (k, v)" by auto
  then have "v \<in> set (filed g k files)" by (rule filed_mem)
  then have "filed g k files \<noteq> []" by auto
  then have ne: "ks \<noteq> []" "d \<noteq> []" using keys by (auto simp: ks_def dict_keys_def sort_key_Nil_iff)
  have "distinct ks" using wf_dict_pushes [of h files] by (simp add: ks_def dict_keys_def d_def wf_dict_def)
  moreover have "sorted (map cmp_order ks)" by (simp add: ks_def)
  ultimately show ?thesis
    using keys charts_Finite [OF get ne(1), of fst cmp_setting] ne(2)
    by (intro exI [of _ ks]) (simp add: cmp_main_def groups cmp_plot_bar_charts_def ks_def [symmetric])
qed

lemma demo_run_of: "run_of demo_read demo_run = Inr (Some ((1, 2, 20), both_finite (1025 / 2, 19000)))"
proof -
  have m: "re_match (run_regex ''.txt'') (basename demo_run) = Some [(5, ''0''), (4, ''0''), (3, ''20''), (2, ''2.0''), (1, ''1'')]"
    by code_simp
  have k: "int_of_digits ''1'' = 1" "int_of_digits ''20'' = 20" by code_simp+
  have "float_number ''2.0'' = Inr 2"
    by (simp add: float_number_def is_digit_def code_def int_of_digits_def digit_val_def)
  then have key: "key_of_name [(5, ''0''), (4, ''0''), (3, ''20''), (2, ''2.0''), (1, ''1'')] = Inr (1, 2, 20)"
    by (simp add: key_of_name_def group_def k)
  have lines: "strip l = l" if "l \<in> {''[OVERALL], Throughput(ops/sec), 512.5'', ''[UPDATE], AverageLatency(us), 1.9E4''}" for l
    using that by (auto simp: strip_def is_space_def code_def)
  have parts: "last (line_fields ''[OVERALL], Throughput(ops/sec), 512.5'') = ''512.5''" "last (line_fields ''[UPDATE], AverageLatency(us), 1.9E4'') = ''1.9E4''"
    by code_simp+
  have tags: "startswith ''[OVERALL], Throughput(ops/sec), 512.5'' ''[OVERALL]''" "str_in ''Throughput(ops/sec)'' ''[OVERALL], Throughput(ops/sec), 512.5''"
    "\<not> startswith ''[UPDATE], AverageLatency(us), 1.9E4'' ''[OVERALL]''" "startswith ''[UPDATE], AverageLatency(us), 1.9E4'' ''[UPDATE]''"
    "str_in ''AverageLatency(us)'' ''[UPDATE], AverageLatency(us), 1.9E4''" by code_simp+
  have f: "read_float ''512.5'' = Inr (Finite (1025 / 2))" "read_float ''1.9E4'' = Inr (Finite 19000)"
    by (simp_all add: read_float_def read_unsigned_def read_mantissa_def read_exponent_def scale10_def strip_def is_space_def lower_ascii_def
      digits_ok_def is_digit_def code_def int_of_digits_def digit_val_def Let_def)
  have "parse_ycsb_file demo_read demo_run = Inr (Some (Finite (1025 / 2)), Some (Finite 19000))"
    by (simp add: parse_ycsb_file_def open_lines_def demo_read_def bench_line_def lines parts tags set_float_def f Let_def)
  then show ?thesis using key by (simp add: run_of_def m)
qed

theorem cmp_main_bars_witness:
  "\<exists>c. cmp_main [demo_run] demo_read = Inr (Some c) \<and> length (ch_bars c) = 1 \<and> ch_deltas c = [Finite 0]"
proof -
  define g where "g f = (if f = demo_run then Some ((1 :: int, 2 :: real, 20 :: int), (1025 / 2 :: real, 19000 :: real)) else None)" for f
  have runs: "run_of demo_read f = Inr (map_option (\<lambda>p. (fst p, both_finite (snd p))) (g f))" if "f \<in> set [demo_run]" for f
    using that demo_run_of by (simp add: g_def)
  have some: "\<exists>f \<in> set [demo_run]. g f \<noteq> None" by (simp add: g_def)
  from cmp_main_bars [where files = "[demo_run]" and read = demo_read and g = g, OF runs some] obtain ks c where c: "cmp_main [demo_run] demo_read = Inr (Some c)" "distinct ks" "set ks = {k. filed g k [demo_run] \<noteq> []}"
    and b: "ch_bars c = map (\<lambda>k. finite_bar (node_color fst ks) (filed g k [demo_run]) k) ks"
      "ch_deltas c = map (\<lambda>k. Finite ((mean_of (map snd (filed g k [demo_run])) - Min ((\<lambda>k. mean_of (map snd (filed g k [demo_run]))) ` set ks)) / 1000)) ks"
    by blast
  have "filed g k [demo_run] = (if k = (1, 2, 20) then [(1025 / 2, 19000)] else [])" for k
    using filed_snoc [of g k "[]" demo_run] by (auto simp: g_def)
  then have "{k. filed g k [demo_run] \<noteq> []} = {(1, 2, 20)}" by simp
  then have ks: "set ks = {(1, 2, 20)}" using c(3) by simp
  then have "ks = [(1, 2, 20)]" using c(2) by (cases ks; cases "tl ks") auto
  with c(1) b show ?thesis by simp
qed

subsection \<open>Gaps between the leaders\<close>

text \<open>
  The gaps at 34 threads: with finite numbers there is one bar for every group that has such a run; no
  gap is negative, the group with the highest throughput has throughput gap 0 and the one with the lowest
  latency has latency gap 0.
\<close>

theorem gap_bars_best:
  assumes "at_34 grps = map (\<lambda>r. (fst r, both_finite (snd r))) rs" "rs \<noteq> []"
  shows "\<exists>bars. plot_gap_for_34_threads grps = Inr (Some (map (\<lambda>b. (fst b, both_finite (snd b))) bars))
    \<and> mset (map fst bars) = mset (map fst rs) \<and> list_all (\<lambda>b. 0 \<le> fst (snd b) \<and> 0 \<le> snd (snd b)) bars
    \<and> 0 \<in> (fst \<circ> snd) ` set bars \<and> 0 \<in> (snd \<circ> snd) ` set bars"
proof -
  define qs where "qs = sort_key fst rs"
  define M where "M = Max ((fst \<circ> snd) ` set rs)"
  define L where "L = Min ((snd \<circ> snd) ` set rs)"
  define bars where "bars = map (\<lambda>r. (fst r, snd (snd r) - L, M - fst (snd r))) qs"
  have sorted: "sort_key fst (at_34 grps) = map (\<lambda>r. (fst r, both_finite (snd r))) qs"
    unfolding assms(1) qs_def sort_key_map by (simp add: comp_def)
  have set: "set qs = set rs" and ne: "qs \<noteq> []" using assms(2) by (simp_all add: qs_def sort_key_Nil_iff)
  have "flt_max (map (fst \<circ> snd) (map (\<lambda>r. (fst r, both_finite (snd r))) qs)) = Inr (Finite M)"
    using flt_max_Finite [of "map (fst \<circ> snd) qs"] ne set by (simp add: comp_def M_def)
  moreover have "flt_min (map (snd \<circ> snd) (map (\<lambda>r. (fst r, both_finite (snd r))) qs)) = Inr (Finite L)"
    using flt_min_Finite [of "map (snd \<circ> snd) qs"] ne set by (simp add: comp_def L_def)
  ultimately have "plot_gap_for_34_threads grps = Inr (Some (map (\<lambda>b. (fst b, both_finite (snd b))) bars))"
    using ne by (simp add: plot_gap_for_34_threads_def sorted Let_def bars_def comp_def)
  moreover have "mset (map fst bars) = mset (map fst rs)" by (simp add: bars_def comp_def qs_def)
  moreover have "list_all (\<lambda>b. 0 \<le> fst (snd b) \<and> 0 \<le> snd (snd b)) bars"
    by (auto simp: list_all_iff bars_def set L_def M_def)
  moreover have "L \<in> (snd \<circ> snd) ` set rs" "M \<in> (fst \<circ> snd) ` set rs"
    unfolding L_def M_def using assms(2) by (auto intro!: Min_in Max_in)
  then have "0 \<in> (fst \<circ> snd) ` set bars" "0 \<in> (snd \<circ> snd) ` set bars"
    by (force simp: bars_def set image_iff)+
  ultimately show ?thesis by blast
qed

theorem gap_bars_best_witness:
  "\<exists>bars. plot_gap_for_34_threads [((1, 2), [(20, Finite 7, Finite 9), (34, Finite 5, Finite 8)]), ((0, 2), [(34, Finite 6, Finite 10)])]
      = Inr (Some (map (\<lambda>b. (fst b, both_finite (snd b))) bars)) \<and> mset (map fst bars) = {#(1, 2), (0, 2)#}"
  using gap_bars_best [of "[((1, 2), [(20, Finite 7, Finite 9), (34, Finite 5, Finite 8)]), ((0, 2), [(34, Finite 6, Finite 10)])]"
      "[((1, 2), (5, 8)), ((0, 2), (6, 10))]"] by (auto simp: at_34_def map_filter_def)

end
