(* ===== verification/Raft_Log.thy ===== *)
theory Raft_Log
  imports Py_Prelude "HOL-Library.Sublist"
begin

text \<open>
  \<open>src/raftLog.cpp\<close> and \<open>src/raftLog.h\<close>: the replicated log of a node, with indices from 1, and the loop
  of \<open>Node::handle_append_entries\<close> (\<open>src/node.cpp\<close>) that writes the entries of a message into it. The locks
  of the class make every operation atomic and are not part of the model; a C++ \<open>int\<close> is an
  integer, far from its bounds here. The encoded form kept beside an entry is a function of the entry and
  appears where it is used, as the size of a message. \<open>merged\<close> says what the loop should do: keep the log as
  long as the terms agree, and replace the rest at the first that differs.
\<close>

subsection \<open>The log\<close>

record log_entry =
  le_term :: int
  le_command :: string
  le_client_id :: int
  le_request_id :: int

record raft_log =
  entries_of :: "log_entry list"
  commitIndex :: int
  lastApplied :: int

definition RaftLog :: raft_log where
  "RaftLog = \<lparr>entries_of = [], commitIndex = 0, lastApplied = 0\<rparr>"

definition appendEntry :: "raft_log \<Rightarrow> log_entry \<Rightarrow> raft_log" where
  "appendEntry l e = l\<lparr>entries_of := entries_of l @ [e]\<rparr>"

definition getLastLogIndex :: "raft_log \<Rightarrow> int" where
  "getLastLogIndex l = (if entries_of l = [] then 0 else int (length (entries_of l)))"

definition getLastLogTerm :: "raft_log \<Rightarrow> int" where
  "getLastLogTerm l = (if entries_of l = [] then 0 else le_term (List.last (entries_of l)))"

definition getEntry :: "raft_log \<Rightarrow> int \<Rightarrow> log_entry option" where
  "getEntry l index = (if index \<le> 0 \<or> int (length (entries_of l)) < index then None
     else Some (entries_of l ! nat (index - 1)))"

definition containsEntry :: "raft_log \<Rightarrow> int \<Rightarrow> int \<Rightarrow> bool" where
  "containsEntry l index trm =
     (if index = 0 then True
      else if index < 0 \<or> int (length (entries_of l)) < index then False
      else le_term (entries_of l ! nat (index - 1)) = trm)"

definition deleteEntriesStartingFrom :: "raft_log \<Rightarrow> int \<Rightarrow> raft_log" where
  "deleteEntriesStartingFrom l index =
     (if index \<le> 0 \<or> int (length (entries_of l)) < index then l
      else l\<lparr>entries_of := take (nat (index - 1)) (entries_of l)\<rparr>)"

definition advanceCommitIndex :: "raft_log \<Rightarrow> int \<Rightarrow> raft_log" where
  "advanceCommitIndex l idx = l\<lparr>commitIndex := idx\<rparr>"

definition advanceLastApplied :: "raft_log \<Rightarrow> int \<Rightarrow> raft_log" where
  "advanceLastApplied l idx = l\<lparr>lastApplied := idx\<rparr>"

lemma getLastLogIndex_length [simp]: "getLastLogIndex l = int (length (entries_of l))"
  by (simp add: getLastLogIndex_def)

lemma raft_log_updates [simp]:
  "commitIndex (appendEntry l e) = commitIndex l" "commitIndex (deleteEntriesStartingFrom l i) = commitIndex l"
  "entries_of (appendEntry l e) = entries_of l @ [e]" "entries_of (advanceCommitIndex l i) = entries_of l"
  "commitIndex (advanceCommitIndex l i) = i"
  by (simp_all add: appendEntry_def deleteEntriesStartingFrom_def advanceCommitIndex_def)

lemma getEntry_nat: "getEntry l (int i + 1) = (if i < length (entries_of l) then Some (entries_of l ! i) else None)"
  by (auto simp: getEntry_def)

lemma delete_nat: "i < length (entries_of l) \<Longrightarrow> entries_of (deleteEntriesStartingFrom l (int i + 1)) = take i (entries_of l)"
  by (simp add: deleteEntriesStartingFrom_def)

subsection \<open>Writing the entries of a message\<close>

fun insert_entries :: "raft_log \<Rightarrow> int \<Rightarrow> log_entry list \<Rightarrow> raft_log" where
  "insert_entries l insertion_index [] = l"
| "insert_entries l insertion_index (new_entry # es) = (case getEntry l insertion_index of
       Some existingEntry \<Rightarrow>
         if le_term existingEntry \<noteq> le_term new_entry
         then insert_entries (appendEntry (deleteEntriesStartingFrom l insertion_index) new_entry) (insertion_index + 1) es
         else insert_entries l (insertion_index + 1) es
     | None \<Rightarrow> insert_entries (appendEntry l new_entry) (insertion_index + 1) es)"

text \<open>What should come after the previous entry, from what was there and what the message brings.\<close>

fun merged :: "log_entry list \<Rightarrow> log_entry list \<Rightarrow> log_entry list" where
  "merged old [] = old"
| "merged [] (e # es) = e # es"
| "merged (x # xs) (e # es) = (if le_term x \<noteq> le_term e then e # es else x # merged xs es)"

lemma merged_Nil [simp]: "merged [] es = es"
  by (cases es) simp_all

lemma insert_entries_merged:
  "p \<le> length (entries_of l) \<Longrightarrow>
     entries_of (insert_entries l (int p + 1) es) = take p (entries_of l) @ merged (drop p (entries_of l)) es"
proof (induction es arbitrary: l p)
  case Nil
  then show ?case by simp
next
  case (Cons e es)
  have next_index: "int p + 1 + 1 = int (Suc p) + 1" by simp
  show ?case
  proof (cases "p < length (entries_of l)")
    case True
    then have drop: "drop p (entries_of l) = entries_of l ! p # drop (Suc p) (entries_of l)"
      by (simp add: Cons_nth_drop_Suc)
    show ?thesis
    proof (cases "le_term (entries_of l ! p) = le_term e")
      case same: True
      with True have "entries_of (insert_entries l (int p + 1) (e # es)) = entries_of (insert_entries l (int (Suc p) + 1) es)"
        by (simp add: getEntry_nat next_index)
      also have "\<dots> = take (Suc p) (entries_of l) @ merged (drop (Suc p) (entries_of l)) es" using True by (intro Cons.IH) simp
      also have "\<dots> = take p (entries_of l) @ merged (drop p (entries_of l)) (e # es)"
        using same True by (simp add: drop take_Suc_conv_app_nth)
      finally show ?thesis .
    next
      case False
      let ?l = "appendEntry (deleteEntriesStartingFrom l (int p + 1)) e"
      have l: "entries_of ?l = take p (entries_of l) @ [e]" using True by (simp add: delete_nat)
      from False True have "entries_of (insert_entries l (int p + 1) (e # es)) = entries_of (insert_entries ?l (int (Suc p) + 1) es)"
        by (simp add: getEntry_nat next_index)
      also have "\<dots> = take (Suc p) (entries_of ?l) @ merged (drop (Suc p) (entries_of ?l)) es"
        using l True by (intro Cons.IH) (simp del: raft_log_updates)
      also have "\<dots> = take p (entries_of l) @ merged (drop p (entries_of l)) (e # es)"
        unfolding l drop using True False by simp
      finally show ?thesis .
    qed
  next
    case False
    with Cons.prems have p: "p = length (entries_of l)" by simp
    then have "entries_of (insert_entries l (int p + 1) (e # es)) = entries_of (insert_entries (appendEntry l e) (int (Suc p) + 1) es)"
      by (simp add: getEntry_nat next_index)
    also have "\<dots> = take (Suc p) (entries_of l @ [e]) @ merged (drop (Suc p) (entries_of l @ [e])) es"
      using p Cons.IH [of "Suc p" "appendEntry l e"] by simp
    finally show ?thesis using p by simp
  qed
qed

lemma insert_entries_commit [simp]: "commitIndex (insert_entries l i es) = commitIndex l"
  by (induction l i es rule: insert_entries.induct) (auto split: option.splits)

subsection \<open>Properties of the merge\<close>

lemma merged_terms: "map le_term (take (length es) (merged old es)) = map le_term es"
  by (induction old es rule: merged.induct) auto

lemma merged_length: "length es \<le> length (merged old es)"
  by (induction old es rule: merged.induct) auto

text \<open>Entries whose terms the message confirms are kept, and a longer log only loses a tail that disagrees.\<close>

lemma merged_keeps: "map le_term es = map le_term (take (length es) old) \<Longrightarrow> merged old es = old"
  by (induction old es rule: merged.induct) auto

text \<open>A message that comes again, whole or an earlier shorter one, changes nothing.\<close>

lemma merged_self: "merged es (take m es) = es"
  by (rule merged_keeps) (simp add: min_def)

lemma merged_again: "merged (merged old es) (take m es) = merged old es"
proof (induction old es arbitrary: m rule: merged.induct)
  case (3 x xs e es)
  then show ?case by (cases m) (simp_all add: merged_self)
qed (simp_all add: merged_self)

lemma merged_agrees:
  "map le_term (take k old) = map le_term (take k es) \<Longrightarrow> take k (merged old es) = take k old"
  by (induction old es arbitrary: k rule: merged.induct) (case_tac k; auto)+

end
