(* ===== verification/Raft_Node.thy ===== *)
theory Raft_Node
  imports Raft_Log Complex_Main
begin

text \<open>
  \<open>src/node.cpp\<close>: one replica. Every timer callback and every message handler is a function on the node's
  state that also gives the datagrams it sends. An id \<open>ip:port\<close> is the pair of both; the empty
  \<open>voted_for\<close> is \<open>None\<close> and no leader is the pair of the empty address and -1. What libev keeps is
  whether a timer is running, and the queue of tasks for the event loop. The messages are those of
  \<open>proto/raft_leader_election.proto\<close>; their encoding is protobuf's and not modelled. Reading a
  missing key of an \<open>unordered_map\<close> gives 0, and such a map is gone through in the order its keys came in. Handlers run
  one at a time here; those that do not take \<open>state_mutex\<close> can in fact overlap when there is more than one
  worker thread. A message to an address that no peer has ends the process (\<open>peerCtx_.at\<close> throws); here it
  leaves from a port that no peer uses and reaches nobody.
\<close>

subsection \<open>Messages\<close>

type_synonym node_id = "string \<times> int"
type_synonym sockaddr = "string \<times> int"

record request_vote =
  rv_term :: int
  rv_candidate_id :: node_id
  rv_last_log_index :: int
  rv_last_log_term :: int
  rv_is_petition :: bool

record vote_response =
  vr_term :: int
  vr_vote_granted :: bool

record append_entries =
  ae_term :: int
  ae_leader_id :: node_id
  ae_prev_log_index :: int
  ae_prev_log_term :: int
  ae_entries :: "log_entry list"
  ae_leader_commit :: int
  ae_id :: int

record append_entries_response =
  ar_term :: int
  ar_success :: bool
  ar_match_index :: int

record penalty_score =
  ps_term :: int
  ps_node_id :: node_id
  ps_penalty_score :: real

record petition =
  pt_term :: int
  pt_current_leader :: node_id
  pt_proposed_leader :: node_id
  pt_latency_to_leader :: real
  pt_sender_id :: node_id

record client_request =
  cq_command :: string
  cq_client_id :: int
  cq_request_id :: int

record client_response =
  cs_success :: bool
  cs_client_id :: int
  cs_request_id :: int
  cs_leader_id :: "node_id option"

datatype msg =
    REQUEST_VOTE request_vote
  | VOTE_RESPONSE vote_response
  | APPEND_ENTRIES append_entries
  | APPEND_ENTRIES_RESPONSE append_entries_response
  | PENALTY_SCORE penalty_score
  | PETITION petition
  | CLIENT_REQUEST client_request
  | CLIENT_RESPONSE client_response

record datagram =
  dg_src :: sockaddr
  dg_dst :: sockaddr
  dg_msg :: msg

subsection \<open>State\<close>

datatype raft_role = FOLLOWER | CANDIDATE | LEADER

datatype task = Reset_election_timeout bool bool | Become_leader

record process_config =
  peerIPs :: "string list"
  clientPort :: int
  internalBasePort :: int
  eligibleLeaders :: "int list"
  initialEligibleLeaders :: "int list"
  failureLeader :: bool
  maxHeartbeats :: int
  checkFalsePositive :: bool
  tcpMonitor :: bool
  latencyThreshold :: real

record rnode =
  config :: process_config
  replica_id :: nat
  role :: raft_role
  current_term :: int
  voted_for :: "node_id option"
  votes_received :: int
  current_leader :: node_id
  heartbeat_count :: int
  heartbeat_current_term :: int
  suspected_leader_failures :: int
  recv_heartbeat_count :: int
  latency_to_leader :: "(node_id, real) dict"
  petition_count :: int
  penalty_scores :: "(node_id, real) dict"
  raftLog :: raft_log
  next_index :: "(string, int) dict"
  match_index :: "(string, int) dict"
  inflight :: "(string, bool) dict"
  client_id_to_addr :: "(int, sockaddr) dict"
  election_timer :: bool
  heartbeat_timer :: bool
  failure_timer :: bool
  election_async_tasks :: "task list"

definition no_leader :: node_id where
  "no_leader = ([], -1)"

definition Node :: "process_config \<Rightarrow> nat \<Rightarrow> rnode" where
  "Node c i = \<lparr>config = c, replica_id = i, role = FOLLOWER, current_term = 0, voted_for = None, votes_received = 0,
     current_leader = no_leader, heartbeat_count = 0, heartbeat_current_term = 0, suspected_leader_failures = 0,
     recv_heartbeat_count = 0, latency_to_leader = [], petition_count = 0, penalty_scores = [], raftLog = RaftLog,
     next_index = [], match_index = [], inflight = map (\<lambda>ip. (ip, False)) (peerIPs c), client_id_to_addr = [],
     election_timer = False, heartbeat_timer = False, failure_timer = False, election_async_tasks = []\<rparr>"

definition self_ip :: "rnode \<Rightarrow> string" where
  "self_ip n = peerIPs (config n) ! replica_id n"

definition self_id :: "rnode \<Rightarrow> node_id" where
  "self_id n = (self_ip n, clientPort (config n))"

text \<open>The port is the one peers keep open for this replica.\<close>

definition peer_addresses :: "rnode \<Rightarrow> sockaddr list" where
  "peer_addresses n = map (\<lambda>ip. (ip, internalBasePort (config n) + int (replica_id n))) (peerIPs (config n))"

definition peerIdFromIp :: "rnode \<Rightarrow> string \<Rightarrow> int" where
  "peerIdFromIp n ip = (case List.find (\<lambda>i. peerIPs (config n) ! i = ip) (rev [0..<length (peerIPs (config n))]) of
     None \<Rightarrow> -1 | Some i \<Rightarrow> int i)"

definition majority_count :: "rnode \<Rightarrow> int" where
  "majority_count n = (int (length (peerIPs (config n))) + 1) div 2"

subsection \<open>Sending\<close>

definition sendToPeer :: "rnode \<Rightarrow> sockaddr \<Rightarrow> msg \<Rightarrow> datagram" where
  "sendToPeer n dst m = \<lparr>dg_src = (self_ip n, internalBasePort (config n) + peerIdFromIp n (fst dst)), dg_dst = dst, dg_msg = m\<rparr>"

definition sendToClient :: "rnode \<Rightarrow> sockaddr \<Rightarrow> client_response \<Rightarrow> datagram" where
  "sendToClient n dst r = \<lparr>dg_src = self_id n, dg_dst = dst, dg_msg = CLIENT_RESPONSE r\<rparr>"

definition vote_request :: "rnode \<Rightarrow> bool \<Rightarrow> request_vote" where
  "vote_request n is_petition = \<lparr>rv_term = current_term n, rv_candidate_id = self_id n,
     rv_last_log_index = getLastLogIndex (raftLog n), rv_last_log_term = getLastLogTerm (raftLog n), rv_is_petition = is_petition\<rparr>"

definition send_request_vote :: "rnode \<Rightarrow> datagram list" where
  "send_request_vote n = map (\<lambda>a. sendToPeer n a (REQUEST_VOTE (vote_request n False))) (peer_addresses n)"

definition send_request_vote_petition :: "rnode \<Rightarrow> bool \<Rightarrow> datagram list" where
  "send_request_vote_petition n is_petition =
     (if is_petition then [sendToPeer n (current_leader n) (REQUEST_VOTE (vote_request n True))]
      else map (\<lambda>a. sendToPeer n a (REQUEST_VOTE (vote_request n False))) (peer_addresses n))"

subsection \<open>Elections\<close>

definition election_timeout_cb :: "rnode \<Rightarrow> rnode \<times> datagram list" where
  "election_timeout_cb n0 =
     (let n = n0\<lparr>election_timer := False, suspected_leader_failures :=
            suspected_leader_failures n0 + (if checkFalsePositive (config n0) then 1 else 0)\<rparr>
      in if current_term n = 0 \<and> fst (current_leader n) = [] \<and> int (replica_id n) \<notin> set (initialEligibleLeaders (config n)) then (n, [])
         else if eligibleLeaders (config n) \<noteq> [] \<and> int (replica_id n) \<notin> set (eligibleLeaders (config n)) then (n, [])
         else let n' = n\<lparr>current_term := current_term n + 1, role := CANDIDATE, current_leader := no_leader,
                voted_for := Some (self_id n), votes_received := 0, latency_to_leader := [], petition_count := 0,
                heartbeat_current_term := 0, election_timer := True\<rparr>
           in (n', send_request_vote n'))"

definition candidate_up_to_date :: "rnode \<Rightarrow> request_vote \<Rightarrow> bool" where
  "candidate_up_to_date n request \<longleftrightarrow> getLastLogTerm (raftLog n) < rv_last_log_term request
     \<or> (rv_last_log_term request = getLastLogTerm (raftLog n) \<and> getLastLogIndex (raftLog n) \<le> rv_last_log_index request)"

definition handle_request_vote :: "rnode \<Rightarrow> request_vote \<Rightarrow> sockaddr \<Rightarrow> rnode \<times> datagram list" where
  "handle_request_vote n request send_addr =
     (if rv_term request < current_term n
      then (n, [sendToPeer n send_addr (VOTE_RESPONSE \<lparr>vr_term = current_term n, vr_vote_granted = False\<rparr>)])
      else if rv_is_petition request then
        (if role n = LEADER then (n\<lparr>heartbeat_timer := False, role := FOLLOWER, current_leader := no_leader\<rparr>, []) else (n, []))
      else
        let n1 = (if current_term n < rv_term request
                  then n\<lparr>current_term := rv_term request, heartbeat_timer := (if role n = LEADER then False else heartbeat_timer n),
                    latency_to_leader := [], petition_count := 0, role := FOLLOWER, voted_for := None, current_leader := no_leader\<rparr>
                  else n);
            vote_granted = ((voted_for n1 = None \<or> voted_for n1 = Some (rv_candidate_id request)) \<and> candidate_up_to_date n1 request);
            n2 = (if vote_granted
                  then n1\<lparr>voted_for := Some (rv_candidate_id request),
                    election_async_tasks := election_async_tasks n1 @ [Reset_election_timeout True False]\<rparr>
                  else n1)
        in (n2, [sendToPeer n2 send_addr (VOTE_RESPONSE \<lparr>vr_term = current_term n2, vr_vote_granted = vote_granted\<rparr>)]))"

definition handle_vote_response :: "rnode \<Rightarrow> vote_response \<Rightarrow> rnode \<times> datagram list" where
  "handle_vote_response n response =
     (if role n \<noteq> CANDIDATE then (n, [])
      else if current_term n < vr_term response
      then (n\<lparr>current_term := vr_term response, role := FOLLOWER, latency_to_leader := [], petition_count := 0, voted_for := None\<rparr>, [])
      else if vr_vote_granted response then
        let n1 = n\<lparr>votes_received := votes_received n + 1\<rparr>
        in (if int (length (peer_addresses n)) div 2 + 1 \<le> votes_received n1
            then n1\<lparr>election_async_tasks := election_async_tasks n1 @ [Become_leader]\<rparr> else n1, [])
      else (n, []))"

definition become_leader :: "rnode \<Rightarrow> rnode" where
  "become_leader n =
     (let others = filter (\<lambda>ip. ip \<noteq> self_ip n) (peerIPs (config n)) in
      n\<lparr>role := LEADER, current_leader := self_id n, heartbeat_count := 0, votes_received := 0, latency_to_leader := [],
        election_timer := False, heartbeat_timer := True,
        next_index := foldl (\<lambda>d ip. AList.update ip (getLastLogIndex (raftLog n) + 1) d) (next_index n) others,
        match_index := foldl (\<lambda>d ip. AList.update ip 0 d) (match_index n) others\<rparr>)"

text \<open>A task of the event loop; how long the new election timeout is comes from \<open>start_election_timeout\<close>.\<close>

definition run_task :: "rnode \<Rightarrow> rnode" where
  "run_task n = (case election_async_tasks n of
       [] \<Rightarrow> n
     | Reset_election_timeout double_time force_raft # ts \<Rightarrow> n\<lparr>election_async_tasks := ts, election_timer := True\<rparr>
     | Become_leader # ts \<Rightarrow> become_leader (n\<lparr>election_async_tasks := ts\<rparr>))"

definition failure_cb :: "rnode \<Rightarrow> rnode" where
  "failure_cb n = n\<lparr>failure_timer := False, heartbeat_timer := False, role := FOLLOWER, current_leader := no_leader\<rparr>"

subsection \<open>Heartbeats and log entries\<close>

definition prev_term :: "rnode \<Rightarrow> int \<Rightarrow> int" where
  "prev_term n prev_index = (if 0 < prev_index then (case getEntry (raftLog n) prev_index of None \<Rightarrow> 0 | Some e \<Rightarrow> le_term e) else 0)"

definition send_heartbeat :: "rnode \<Rightarrow> rnode \<times> datagram list" where
  "send_heartbeat n0 =
     (if role n0 \<noteq> LEADER then (n0, [])
      else let n = n0\<lparr>heartbeat_count := heartbeat_count n0 + 1\<rparr>;
               out = map (\<lambda>a. let prev_index = dict_get (next_index n) (fst a) 0 - 1 in
                 sendToPeer n a (APPEND_ENTRIES \<lparr>ae_term = current_term n, ae_leader_id = self_id n, ae_prev_log_index = prev_index,
                   ae_prev_log_term = prev_term n prev_index, ae_entries = [], ae_leader_commit = commitIndex (raftLog n),
                   ae_id = heartbeat_count n\<rparr>)) (peer_addresses n)
           in (if failureLeader (config n) \<and> maxHeartbeats (config n) \<le> heartbeat_count n then n\<lparr>failure_timer := True\<rparr> else n, out))"

definition respond :: "rnode \<Rightarrow> sockaddr \<Rightarrow> bool \<Rightarrow> int \<Rightarrow> datagram" where
  "respond n dst success matched = sendToPeer n dst (APPEND_ENTRIES_RESPONSE
     \<lparr>ar_term = current_term n, ar_success = success, ar_match_index = matched\<rparr>)"

definition handle_append_entries :: "rnode \<Rightarrow> append_entries \<Rightarrow> sockaddr \<Rightarrow> rnode \<times> datagram list" where
  "handle_append_entries n0 m sender_addr =
     (if ae_term m < current_term n0 then (n0, [respond n0 sender_addr False 0])
      else
        let n1 = (if current_term n0 < ae_term m \<and> heartbeat_timer n0
                  then n0\<lparr>heartbeat_current_term := 0, heartbeat_timer := False\<rparr> else n0)
        in if fst sender_addr = self_ip n0 then (n1, [])
        else
          let n2 = n1\<lparr>heartbeat_current_term := heartbeat_current_term n1 + 1,
                recv_heartbeat_count := recv_heartbeat_count n1 + (if checkFalsePositive (config n1) then 1 else 0)\<rparr>;
              n3 = (if current_term n2 < ae_term m then n2\<lparr>latency_to_leader := [], petition_count := 0\<rparr> else n2);
              n4 = n3\<lparr>current_term := ae_term m, role := FOLLOWER, current_leader := ae_leader_id m, voted_for := None,
                election_async_tasks := election_async_tasks n3 @ [Reset_election_timeout False False]\<rparr>
          in if \<not> containsEntry (raftLog n4) (ae_prev_log_index m) (ae_prev_log_term m) then (n4, [respond n4 sender_addr False 0])
          else
            let l = insert_entries (raftLog n4) (ae_prev_log_index m + 1) (ae_entries m);
                matched = ae_prev_log_index m + int (length (ae_entries m));
                l' = (if commitIndex l < ae_leader_commit m then advanceCommitIndex l (min (ae_leader_commit m) (getLastLogIndex l)) else l);
                n5 = n4\<lparr>raftLog := l'\<rparr>
            in (n5, [respond n5 sender_addr True matched]))"

text \<open>The replicas counted for an index: the leader itself and every peer known to hold it.\<close>

definition replicated_on :: "rnode \<Rightarrow> int \<Rightarrow> int" where
  "replicated_on n i = 1 + int (length (filter (\<lambda>ip. i \<le> dict_get (match_index n) ip 0) (peerIPs (config n))))"

definition may_commit :: "rnode \<Rightarrow> int \<Rightarrow> bool" where
  "may_commit n i \<longleftrightarrow> majority_count n \<le> replicated_on n i
     \<and> (case getEntry (raftLog n) i of None \<Rightarrow> False | Some e \<Rightarrow> le_term e = current_term n)"

definition new_commit_index :: "rnode \<Rightarrow> int" where
  "new_commit_index n = foldl (\<lambda>c i. if may_commit n i then i else c) (commitIndex (raftLog n))
     [commitIndex (raftLog n) + 1..getLastLogIndex (raftLog n)]"

definition commit_response :: "rnode \<Rightarrow> int \<Rightarrow> datagram option" where
  "commit_response n idx = (case getEntry (raftLog n) idx of
       None \<Rightarrow> None
     | Some e \<Rightarrow> (case map_of (client_id_to_addr n) (le_client_id e) of
         None \<Rightarrow> None
       | Some a \<Rightarrow> Some (sendToClient n a \<lparr>cs_success = True, cs_client_id = le_client_id e, cs_request_id = le_request_id e, cs_leader_id = None\<rparr>)))"

definition updated_commit_index :: "rnode \<Rightarrow> rnode \<times> datagram list" where
  "updated_commit_index n =
     (let c = new_commit_index n in
      if c \<noteq> commitIndex (raftLog n)
      then (n\<lparr>raftLog := advanceCommitIndex (raftLog n) c\<rparr>,
        List.map_filter (commit_response n) [commitIndex (raftLog n) + 1..c])
      else (n, []))"

definition handle_append_entries_response :: "rnode \<Rightarrow> append_entries_response \<Rightarrow> sockaddr \<Rightarrow> rnode \<times> datagram list" where
  "handle_append_entries_response n response sender_addr =
     (if role n \<noteq> LEADER then (n, [])
      else if current_term n < ar_term response
      then (n\<lparr>current_term := ar_term response, role := FOLLOWER, voted_for := None, latency_to_leader := [], petition_count := 0\<rparr>, [])
      else
        let sender_id = fst sender_addr;
            n1 = n\<lparr>inflight := AList.update sender_id False (inflight n)\<rparr>
        in if ar_success response
           then let matched = max (dict_get (match_index n1) sender_id 0) (ar_match_index response)
             in updated_commit_index (n1\<lparr>match_index := AList.update sender_id matched (match_index n1),
                  next_index := AList.update sender_id (matched + 1) (next_index n1)\<rparr>)
           else (n1\<lparr>next_index := AList.update sender_id (max 1 (dict_get (next_index n1) sender_id 0 - 1)) (next_index n1)\<rparr>, []))"

subsection \<open>Client requests and proposals\<close>

text \<open>
  The entries for one follower are cut into messages of at most 1400 bytes, where an entry takes
  its encoded size \<open>sz\<close> and 64 bytes are set aside for the headers. \<open>fill\<close> is the inner loop: the entries
  that go into the message and those that are left.
\<close>

definition kMtuBytes :: nat where "kMtuBytes = 1400"
definition kHdrSlackBytes :: nat where "kHdrSlackBytes = 64"

fun fill :: "(log_entry \<Rightarrow> nat) \<Rightarrow> nat \<Rightarrow> log_entry list \<Rightarrow> log_entry list \<times> log_entry list" where
  "fill sz payload_size [] = ([], [])"
| "fill sz payload_size (e # es) =
     (if kMtuBytes < payload_size + sz e then ([], e # es)
      else let r = fill sz (payload_size + sz e) es in (e # fst r, snd r))"

text \<open>The outer loop; it never ends when an entry does not fit into a message, and is \<open>None\<close> then.\<close>

partial_function (option) chunks :: "(log_entry \<Rightarrow> nat) \<Rightarrow> int \<Rightarrow> log_entry list \<Rightarrow> (int \<times> log_entry list) list option" where
  "chunks sz first_idx cached =
     (if cached = [] then Some []
      else Option.bind (chunks sz (first_idx + int (length (fst (fill sz kHdrSlackBytes cached)))) (snd (fill sz kHdrSlackBytes cached)))
        (\<lambda>rest. Some ((first_idx, fst (fill sz kHdrSlackBytes cached)) # rest)))"

declare chunks.simps [code]

definition cached_entries :: "rnode \<Rightarrow> int \<Rightarrow> log_entry list" where
  "cached_entries n start_idx = (if start_idx < 1 then [] else drop (nat (start_idx - 1)) (entries_of (raftLog n)))"

definition proposal :: "rnode \<Rightarrow> string \<Rightarrow> int \<Rightarrow> int \<Rightarrow> int \<times> log_entry list \<Rightarrow> datagram" where
  "proposal n ip trm commit_index c = sendToPeer n (ip, internalBasePort (config n) + int (replica_id n)) (APPEND_ENTRIES
     \<lparr>ae_term = trm, ae_leader_id = self_id n, ae_prev_log_index = fst c - 1, ae_prev_log_term = prev_term n (fst c - 1),
      ae_entries = snd c, ae_leader_commit = commit_index, ae_id = 0\<rparr>)"

definition skipped :: "rnode \<Rightarrow> string \<Rightarrow> bool" where
  "skipped n ip \<longleftrightarrow> ip = self_ip n \<or> (ip = ''10.0.1.2'' \<and> replica_id n \<noteq> 3) \<or> dict_get (inflight n) ip False"

definition propose_to :: "(log_entry \<Rightarrow> nat) \<Rightarrow> int \<Rightarrow> int \<Rightarrow> string \<Rightarrow> rnode \<times> datagram list \<Rightarrow> (rnode \<times> datagram list) option" where
  "propose_to sz trm commit_index ip r =
     (let n = fst r; start_idx = dict_get (next_index n) ip 0; cached = cached_entries n start_idx in
      if skipped n ip \<or> cached = [] then Some r
      else map_option (\<lambda>cs. (n\<lparr>inflight := AList.update ip True (inflight n)\<rparr>,
        snd r @ map (proposal n ip trm commit_index) cs)) (chunks sz start_idx cached))"

fun propose_all :: "(log_entry \<Rightarrow> nat) \<Rightarrow> int \<Rightarrow> int \<Rightarrow> string list \<Rightarrow> rnode \<times> datagram list \<Rightarrow> (rnode \<times> datagram list) option" where
  "propose_all sz trm commit_index [] r = Some r"
| "propose_all sz trm commit_index (ip # ips) r = (case propose_to sz trm commit_index ip r of
       None \<Rightarrow> None | Some r' \<Rightarrow> propose_all sz trm commit_index ips r')"

definition send_proposals_to_followers :: "(log_entry \<Rightarrow> nat) \<Rightarrow> rnode \<Rightarrow> int \<Rightarrow> int \<Rightarrow> (rnode \<times> datagram list) option" where
  "send_proposals_to_followers sz n trm commit_index = propose_all sz trm commit_index (peerIPs (config n)) (n, [])"

definition handle_client_request :: "(log_entry \<Rightarrow> nat) \<Rightarrow> rnode \<Rightarrow> client_request \<Rightarrow> sockaddr \<Rightarrow> (rnode \<times> datagram list) option" where
  "handle_client_request sz n request sender_addr =
     (if role n \<noteq> LEADER
      then Some (n, [sendToClient n sender_addr \<lparr>cs_success = False, cs_client_id = cq_client_id request,
        cs_request_id = cq_request_id request, cs_leader_id = Some (current_leader n)\<rparr>])
      else
        let n1 = (if map_of (client_id_to_addr n) (cq_client_id request) = None
                  then n\<lparr>client_id_to_addr := AList.update (cq_client_id request) sender_addr (client_id_to_addr n)\<rparr> else n);
            n2 = n1\<lparr>raftLog := appendEntry (raftLog n1) \<lparr>le_term = current_term n1, le_command = cq_command request,
              le_client_id = cq_client_id request, le_request_id = cq_request_id request\<rparr>\<rparr>
        in send_proposals_to_followers sz n2 (current_term n2) (commitIndex (raftLog n2)))"

subsection \<open>Penalty scores and petitions\<close>

text \<open>\<open>rtt ip\<close> is the mean round-trip time to a peer in milliseconds, where the kernel reported one.\<close>

type_synonym rtts = "string \<Rightarrow> real option"

definition get_latency_to_peer :: "rtts \<Rightarrow> rnode \<Rightarrow> string \<Rightarrow> real" where
  "get_latency_to_peer rtt n ip = (if tcpMonitor (config n) then (case rtt ip of None \<Rightarrow> -1 | Some x \<Rightarrow> x) else -1)"

definition penalty_of :: "real \<Rightarrow> real" where
  "penalty_of L = L + 1 * max 0 (L - 100)"

text \<open>The node itself is looked for under its internal port, which no id has unless the ports coincide.\<close>

definition own_penalty :: "rtts \<Rightarrow> rnode \<Rightarrow> real" where
  "own_penalty rtt n =
     (\<Sum>a\<leftarrow>filter (\<lambda>a. a \<noteq> self_id n) (peer_addresses n). penalty_of (get_latency_to_peer rtt n (fst a)))
       / real (length (peer_addresses n))"

definition send_petition :: "rnode \<Rightarrow> node_id \<Rightarrow> real \<Rightarrow> datagram" where
  "send_petition n proposed_leader latency = sendToPeer n proposed_leader (PETITION \<lparr>pt_term = current_term n,
     pt_current_leader = current_leader n, pt_proposed_leader = proposed_leader, pt_latency_to_leader = latency, pt_sender_id = self_id n\<rparr>)"

fun lowest_penalty :: "(node_id \<times> real) list \<Rightarrow> (node_id \<times> real) option \<Rightarrow> (node_id \<times> real) option" where
  "lowest_penalty [] best = best"
| "lowest_penalty (p # ps) best = lowest_penalty ps
     (case best of None \<Rightarrow> Some p | Some b \<Rightarrow> if snd p < snd b then Some p else Some b)"

definition petition_target :: "rtts \<Rightarrow> rnode \<Rightarrow> node_id option" where
  "petition_target rtt n =
     (if latencyThreshold (config n) < get_latency_to_peer rtt n (fst (current_leader n)) \<and> role n \<noteq> LEADER
      then (case lowest_penalty (filter (\<lambda>p. fst p \<noteq> current_leader n) (penalty_scores n)) None of
              None \<Rightarrow> None
            | Some best \<Rightarrow> if fst best = self_id n then None else Some (fst best))
      else None)"

definition compute_penalty_score :: "rtts \<Rightarrow> rnode \<Rightarrow> real \<times> datagram list" where
  "compute_penalty_score rtt n = (own_penalty rtt n,
     case petition_target rtt n of
       None \<Rightarrow> []
     | Some proposed_leader \<Rightarrow> [send_petition n proposed_leader (get_latency_to_peer rtt n (fst (current_leader n)))])"

definition calculate_and_send_penalty_score :: "rtts \<Rightarrow> rnode \<Rightarrow> rnode \<times> datagram list" where
  "calculate_and_send_penalty_score rtt n =
     (let (score, petitions) = compute_penalty_score rtt n in
      (n\<lparr>penalty_scores := AList.update (self_id n) score (penalty_scores n)\<rparr>,
       petitions @ map (\<lambda>a. sendToPeer n a (PENALTY_SCORE \<lparr>ps_term = current_term n, ps_node_id = self_id n, ps_penalty_score = score\<rparr>))
         (peer_addresses n)))"

definition handle_penalty_score :: "rnode \<Rightarrow> penalty_score \<Rightarrow> rnode" where
  "handle_penalty_score n m = n\<lparr>penalty_scores := AList.update (ps_node_id m) (ps_penalty_score m) (penalty_scores n)\<rparr>"

definition handle_petition :: "rtts \<Rightarrow> rnode \<Rightarrow> petition \<Rightarrow> rnode \<times> datagram list" where
  "handle_petition rtt n m =
     (if pt_term m \<noteq> current_term n then (n, [])
      else if pt_current_leader m \<noteq> current_leader n then (n, [])
      else if pt_proposed_leader m \<noteq> self_id n then (n, [])
      else
        let seen = map_of (latency_to_leader n) (pt_sender_id m) \<noteq> None;
            n1 = n\<lparr>latency_to_leader := AList.update (pt_sender_id m) (pt_latency_to_leader m) (latency_to_leader n)\<rparr>
        in if seen then (n1, [])
        else
          let n2 = n1\<lparr>petition_count := int (length (latency_to_leader n1))\<rparr>
          in (n2, if majority_count n2 - 1 \<le> petition_count n2
                \<and> list_all (\<lambda>(sender_id, latency). get_latency_to_peer rtt n2 (fst sender_id) \<le> latency) (latency_to_leader n2)
              then send_request_vote_petition n2 True else []))"

subsection \<open>Dispatch\<close>

definition handleReceived :: "(log_entry \<Rightarrow> nat) \<Rightarrow> rtts \<Rightarrow> rnode \<Rightarrow> msg \<Rightarrow> sockaddr \<Rightarrow> (rnode \<times> datagram list) option" where
  "handleReceived sz rtt n m sender = (case m of
       REQUEST_VOTE request \<Rightarrow> Some (handle_request_vote n request sender)
     | VOTE_RESPONSE response \<Rightarrow> Some (handle_vote_response n response)
     | APPEND_ENTRIES append_entries \<Rightarrow> Some (handle_append_entries n append_entries sender)
     | PENALTY_SCORE penalty_msg \<Rightarrow> Some (handle_penalty_score n penalty_msg, [])
     | PETITION petition_msg \<Rightarrow> Some (handle_petition rtt n petition_msg)
     | APPEND_ENTRIES_RESPONSE response \<Rightarrow> Some (handle_append_entries_response n response sender)
     | CLIENT_REQUEST client_request \<Rightarrow> handle_client_request sz n client_request sender
     | CLIENT_RESPONSE _ \<Rightarrow> Some (n, []))"

end
