(* ===== verification/Raft_Cluster.thy ===== *)
theory Raft_Cluster
  imports Raft_Node
begin

text \<open>
  The cluster: the replicas of \<open>src/node.cpp\<close> and the datagrams between them. An event is a timer that fires,
  a task of an event loop, a datagram that arrives, gets lost or is duplicated, or a client's request; they come in
  any order. Three history variables note who voted for whom, which votes a candidate counted and
  who became leader, each with its term; no handler reads them. \<open>hazard_of\<close> names the situations
  in which the code loses track of a vote; an event outside them is \<open>orderly\<close>.
\<close>

subsection \<open>Clusters\<close>

type_synonym vote_record = "int \<times> string \<times> string"

record cluster =
  s_nodes :: "rnode list"
  s_net :: "datagram list"
  s_ballots :: "vote_record list"
  s_tally :: "vote_record list"
  s_elected :: "(int \<times> string) list"

datatype cluster_event =
    Timeout nat
  | Deliver nat rtts
  | Lose nat
  | Copy nat
  | Task nat
  | Beat nat
  | Fail nat
  | Penalty nat rtts
  | Request sockaddr sockaddr client_request

definition cluster_init :: "process_config \<Rightarrow> cluster" where
  "cluster_init c = \<lparr>s_nodes = map (\<lambda>i. (Node c i)\<lparr>election_timer := True\<rparr>) [0..<length (peerIPs c)], s_net = [],
     s_ballots = [], s_tally = [], s_elected = []\<rparr>"

text \<open>The node that has a socket at an address.\<close>

definition bound_at :: "rnode \<Rightarrow> sockaddr \<Rightarrow> bool" where
  "bound_at n a \<longleftrightarrow> fst a = self_ip n \<and> (snd a = clientPort (config n)
     \<or> snd a \<in> {internalBasePort (config n)..<internalBasePort (config n) + int (length (peerIPs (config n)))})"

definition receiver :: "rnode list \<Rightarrow> sockaddr \<Rightarrow> nat option" where
  "receiver ns a = List.find (\<lambda>i. bound_at (ns ! i) a) [0..<length ns]"

text \<open>A non-petition vote request and a granted vote, with term, voter and candidate.\<close>

definition rv_key :: "datagram \<Rightarrow> vote_record option" where
  "rv_key d = (case dg_msg d of
       REQUEST_VOTE r \<Rightarrow> if rv_is_petition r then None else Some (rv_term r, fst (dg_dst d), fst (dg_src d))
     | _ \<Rightarrow> None)"

definition vr_key :: "datagram \<Rightarrow> vote_record option" where
  "vr_key d = (case dg_msg d of
       VOTE_RESPONSE r \<Rightarrow> if vr_vote_granted r then Some (vr_term r, fst (dg_src d), fst (dg_dst d)) else None
     | _ \<Rightarrow> None)"

text \<open>The vote a candidate counts when it takes a response.\<close>

definition counted_votes :: "rnode \<Rightarrow> datagram \<Rightarrow> vote_record list" where
  "counted_votes n d = (case dg_msg d of
       VOTE_RESPONSE r \<Rightarrow> if role n = CANDIDATE \<and> vr_term r \<le> current_term n \<and> vr_vote_granted r
         then [(current_term n, fst (dg_src d), self_ip n)] else []
     | _ \<Rightarrow> [])"

definition put_node :: "nat \<Rightarrow> rnode \<times> datagram list \<Rightarrow> cluster \<Rightarrow> cluster" where
  "put_node i r s = s\<lparr>s_nodes := (s_nodes s)[i := fst r], s_net := s_net s @ snd r,
     s_ballots := s_ballots s @ List.map_filter vr_key (snd r)\<rparr>"

fun step :: "(log_entry \<Rightarrow> nat) \<Rightarrow> cluster_event \<Rightarrow> cluster \<Rightarrow> cluster option" where
  "step sz (Timeout i) s = (if i < length (s_nodes s) \<and> election_timer (s_nodes s ! i)
     then Some (put_node i (election_timeout_cb (s_nodes s ! i)) s) else None)"
| "step sz (Deliver k rtt) s = (if k < length (s_net s)
     then let d = s_net s ! k; s' = s\<lparr>s_net := take k (s_net s) @ drop (Suc k) (s_net s)\<rparr> in
       (case receiver (s_nodes s) (dg_dst d) of
          None \<Rightarrow> Some s'
        | Some i \<Rightarrow> map_option (\<lambda>r. put_node i r (s'\<lparr>s_tally := s_tally s @ counted_votes (s_nodes s ! i) d\<rparr>))
            (handleReceived sz rtt (s_nodes s ! i) (dg_msg d) (dg_src d)))
     else None)"
| "step sz (Lose k) s = (if k < length (s_net s)
     then Some (s\<lparr>s_net := take k (s_net s) @ drop (Suc k) (s_net s)\<rparr>) else None)"
| "step sz (Copy k) s = (if k < length (s_net s) then Some (s\<lparr>s_net := s_net s @ [s_net s ! k]\<rparr>) else None)"
| "step sz (Task i) s = (if i < length (s_nodes s) \<and> election_async_tasks (s_nodes s ! i) \<noteq> []
     then let n = s_nodes s ! i in
       Some ((put_node i (run_task n, []) s)\<lparr>s_elected := s_elected s @
         (if hd (election_async_tasks n) = Become_leader then [(current_term n, self_ip n)] else [])\<rparr>)
     else None)"
| "step sz (Beat i) s = (if i < length (s_nodes s) \<and> heartbeat_timer (s_nodes s ! i)
     then Some (put_node i (send_heartbeat (s_nodes s ! i)) s) else None)"
| "step sz (Fail i) s = (if i < length (s_nodes s) \<and> failure_timer (s_nodes s ! i)
     then Some (put_node i (failure_cb (s_nodes s ! i), []) s) else None)"
| "step sz (Penalty i rtt) s = (if i < length (s_nodes s) \<and> tcpMonitor (config (s_nodes s ! i))
     then Some (put_node i (calculate_and_send_penalty_score rtt (s_nodes s ! i)) s) else None)"
| "step sz (Request src dst r) s = Some (s\<lparr>s_net := s_net s @ [\<lparr>dg_src = src, dg_dst = dst, dg_msg = CLIENT_REQUEST r\<rparr>]\<rparr>)"

fun cluster_run :: "(log_entry \<Rightarrow> nat) \<Rightarrow> cluster_event list \<Rightarrow> cluster \<Rightarrow> cluster option" where
  "cluster_run sz [] s = Some s"
| "cluster_run sz (e # es) s = (case step sz e s of None \<Rightarrow> None | Some s' \<Rightarrow> cluster_run sz es s')"

subsection \<open>Orderly events\<close>

text \<open>
  The situations in which a vote can count twice: a datagram is duplicated; a vote of an earlier term
  arrives at a candidate of a later one; a node that has forgotten its vote because it heard from the leader of
  its term is asked for a vote in that term; the task that makes a candidate the leader runs when the
  node is no candidate with enough votes any more; or the simulated failure hits a node that is no leader any more.
\<close>

datatype hazard = Duplicate | Late_vote | Forgotten_vote | Late_task | Late_failure

definition quorum :: "rnode \<Rightarrow> int" where
  "quorum n = int (length (peerIPs (config n))) div 2 + 1"

definition msg_hazard :: "rnode \<Rightarrow> msg \<Rightarrow> hazard option" where
  "msg_hazard n m = (case m of
       VOTE_RESPONSE r \<Rightarrow> if role n = CANDIDATE \<and> vr_vote_granted r \<and> vr_term r < current_term n then Some Late_vote else None
     | REQUEST_VOTE r \<Rightarrow> if rv_term r = current_term n \<and> \<not> rv_is_petition r \<and> voted_for n = None \<and> current_leader n \<noteq> no_leader
         then Some Forgotten_vote else None
     | _ \<Rightarrow> None)"

definition hazard_of :: "cluster_event \<Rightarrow> cluster \<Rightarrow> hazard option" where
  "hazard_of e s = (case e of
       Copy k \<Rightarrow> Some Duplicate
     | Deliver k rtt \<Rightarrow> (case receiver (s_nodes s) (dg_dst (s_net s ! k)) of
         None \<Rightarrow> None | Some i \<Rightarrow> msg_hazard (s_nodes s ! i) (dg_msg (s_net s ! k)))
     | Task i \<Rightarrow> (let n = s_nodes s ! i in case election_async_tasks n of
         Become_leader # ts \<Rightarrow> if role n = LEADER \<or> (role n = CANDIDATE \<and> quorum n \<le> votes_received n) then None else Some Late_task
       | _ \<Rightarrow> None)
     | Fail i \<Rightarrow> if role (s_nodes s ! i) = LEADER then None else Some Late_failure
     | _ \<Rightarrow> None)"

abbreviation orderly :: "cluster_event \<Rightarrow> cluster \<Rightarrow> bool" where
  "orderly e s \<equiv> hazard_of e s = None"

abbreviation timely :: "rnode \<Rightarrow> msg \<Rightarrow> bool" where
  "timely n m \<equiv> msg_hazard n m = None"

text \<open>The hazards of a run, in order; \<open>None\<close> when an event cannot happen.\<close>

fun hazards :: "(log_entry \<Rightarrow> nat) \<Rightarrow> cluster_event list \<Rightarrow> cluster \<Rightarrow> hazard list option" where
  "hazards sz [] s = Some []"
| "hazards sz (e # es) s = (case step sz e s of
       None \<Rightarrow> None
     | Some s' \<Rightarrow> map_option ((@) (case hazard_of e s of None \<Rightarrow> [] | Some h \<Rightarrow> [h])) (hazards sz es s'))"

subsection \<open>Invariants\<close>

text \<open>What every event without a hazard keeps holds after every run without hazards; what every event keeps, after every run.\<close>

locale safe_invariant =
  fixes inv :: "cluster \<Rightarrow> bool"
  assumes kept_orderly: "inv s \<Longrightarrow> orderly e s \<Longrightarrow> step sz e s = Some s' \<Longrightarrow> inv s'"
begin

lemma orderly_run: "inv s \<Longrightarrow> hazards sz es s = Some [] \<Longrightarrow> cluster_run sz es s = Some s' \<Longrightarrow> inv s'"
proof (induction es arbitrary: s)
  case (Cons e es)
  then obtain s1 where "step sz e s = Some s1" "hazards sz es s1 = Some []" "cluster_run sz es s1 = Some s'" "orderly e s"
    by (auto split: option.splits)
  then show ?case using Cons.IH kept_orderly Cons.prems(1) by blast
qed simp

end

locale cluster_invariant =
  fixes inv :: "cluster \<Rightarrow> bool"
  assumes kept: "inv s \<Longrightarrow> step sz e s = Some s' \<Longrightarrow> inv s'"
begin

lemma every_run: "inv s \<Longrightarrow> cluster_run sz es s = Some s' \<Longrightarrow> inv s'"
proof (induction es arbitrary: s)
  case (Cons e es)
  then obtain s1 where "step sz e s = Some s1" "cluster_run sz es s1 = Some s'" by (auto split: option.splits)
  then show ?case using Cons.IH kept Cons.prems(1) by blast
qed simp

end

sublocale cluster_invariant \<subseteq> safe: safe_invariant inv
  by unfold_locales (rule kept)

subsection \<open>What a handler does to a vote\<close>

text \<open>
  \<open>calm n n'\<close>: the node casts and counts no vote. Its term does not fall; within a term it keeps its vote, or
  forgets it because it has heard from a leader; it stops being a candidate or leader, or stays as it is.
\<close>

definition calm :: "rnode \<Rightarrow> rnode \<Rightarrow> bool" where
  "calm n n' \<longleftrightarrow> config n' = config n \<and> replica_id n' = replica_id n \<and> current_term n \<le> current_term n'
     \<and> (current_term n' = current_term n \<longrightarrow>
          (voted_for n' = voted_for n \<and> (current_leader n' = current_leader n \<or> voted_for n \<noteq> None))
          \<or> (voted_for n' = None \<and> current_leader n' \<noteq> no_leader))
     \<and> (role n' = FOLLOWER \<or> (role n' = role n \<and> current_term n' = current_term n \<and> voted_for n' = voted_for n
          \<and> votes_received n' = votes_received n))"

definition calm_out :: "datagram list \<Rightarrow> bool" where
  "calm_out ds \<longleftrightarrow> (\<forall>d \<in> set ds. rv_key d = None \<and> vr_key d = None)"

definition leader_ids :: "datagram list \<Rightarrow> bool" where
  "leader_ids ds \<longleftrightarrow> (\<forall>d \<in> set ds. case dg_msg d of APPEND_ENTRIES m \<Rightarrow> ae_leader_id m \<noteq> no_leader | _ \<Rightarrow> True)"

named_theorems calm_simps

lemmas [calm_simps] = calm_def calm_out_def leader_ids_def rv_key_def vr_key_def sendToPeer_def sendToClient_def Let_def

lemma calm_refl: "calm n n"
  by (simp add: calm_def)

lemma self_ip_cong: "config n' = config n \<Longrightarrow> replica_id n' = replica_id n \<Longrightarrow> self_ip n' = self_ip n"
  by (simp add: self_ip_def)

lemma self_id_cong: "config n' = config n \<Longrightarrow> replica_id n' = replica_id n \<Longrightarrow> self_id n' = self_id n"
  by (simp add: self_id_def self_ip_def)

lemma append_entries_calm:
  assumes "ae_leader_id m \<noteq> no_leader"
  shows "calm n (fst (handle_append_entries n m a))" "calm_out (snd (handle_append_entries n m a))"
    "leader_ids (snd (handle_append_entries n m a))"
  using assms by (simp_all add: handle_append_entries_def respond_def calm_simps)

lemma commit_calm:
  "calm n (fst (updated_commit_index n))" "calm_out (snd (updated_commit_index n))" "leader_ids (snd (updated_commit_index n))"
  by (auto simp: updated_commit_index_def commit_response_def calm_simps List.map_filter_def split: option.splits)

lemma append_response_calm:
  "calm n (fst (handle_append_entries_response n r a))" "calm_out (snd (handle_append_entries_response n r a))"
  "leader_ids (snd (handle_append_entries_response n r a))"
proof -
  let ?n = "n\<lparr>inflight := AList.update (fst a) False (inflight n),
     match_index := AList.update (fst a) (max (dict_get (match_index n) (fst a) 0) (ar_match_index r)) (match_index n),
     next_index := AList.update (fst a) (max (dict_get (match_index n) (fst a) 0) (ar_match_index r) + 1) (next_index n)\<rparr>"
  have "calm n n'" if "calm ?n n'" for n' using that by (simp add: calm_def)
  then show "calm n (fst (handle_append_entries_response n r a))"
    using commit_calm(1) [of ?n] by (auto simp: handle_append_entries_response_def Let_def calm_def)
  show "calm_out (snd (handle_append_entries_response n r a))" "leader_ids (snd (handle_append_entries_response n r a))"
    using commit_calm(2,3) [of ?n] by (auto simp: handle_append_entries_response_def Let_def calm_out_def leader_ids_def)
qed

lemma penalty_calm:
  "calm n (fst (calculate_and_send_penalty_score rtt n))"
  "calm_out (snd (calculate_and_send_penalty_score rtt n)) \<and> leader_ids (snd (calculate_and_send_penalty_score rtt n))"
proof -
  show "calm n (fst (calculate_and_send_penalty_score rtt n))"
    by (simp add: calculate_and_send_penalty_score_def calm_def split_beta Let_def)
  have "\<exists>m. dg_msg d = PETITION m" if "d \<in> set (snd (compute_penalty_score rtt n))" for d
    using that by (cases "petition_target rtt n") (simp_all add: compute_penalty_score_def send_petition_def sendToPeer_def)
  then have "calm_out (snd (compute_penalty_score rtt n)) \<and> leader_ids (snd (compute_penalty_score rtt n))"
    by (fastforce simp: calm_out_def leader_ids_def rv_key_def vr_key_def)
  then show "calm_out (snd (calculate_and_send_penalty_score rtt n)) \<and> leader_ids (snd (calculate_and_send_penalty_score rtt n))"
    by (auto simp: calculate_and_send_penalty_score_def calm_simps split_beta)
qed

lemma penalty_score_calm: "calm n (handle_penalty_score n ps)"
  by (simp add: handle_penalty_score_def calm_def)

lemma petition_calm:
  "calm n (fst (handle_petition rtt n m))" "calm_out (snd (handle_petition rtt n m))" "leader_ids (snd (handle_petition rtt n m))"
  by (auto simp: handle_petition_def send_request_vote_petition_def vote_request_def calm_simps)

lemma heartbeat_calm:
  assumes "self_id n \<noteq> no_leader"
  shows "calm n (fst (send_heartbeat n))" "calm_out (snd (send_heartbeat n))" "leader_ids (snd (send_heartbeat n))"
proof -
  show "calm n (fst (send_heartbeat n))" "calm_out (snd (send_heartbeat n))" by (auto simp: send_heartbeat_def calm_simps)
  have "self_id (n\<lparr>heartbeat_count := k\<rparr>) = self_id n" for k by (rule self_id_cong) simp_all
  with assms show "leader_ids (snd (send_heartbeat n))" by (auto simp: send_heartbeat_def calm_simps)
qed

lemma propose_all_calm:
  assumes "propose_all sz t ci ips r = Some r'" and "calm n (fst r)" and "calm_out (snd r)" and "leader_ids (snd r)"
    and "self_id (fst r) \<noteq> no_leader"
  shows "calm n (fst r') \<and> calm_out (snd r') \<and> leader_ids (snd r')"
  using assms
proof (induction sz t ci ips r rule: propose_all.induct)
  case (1 sz t ci r)
  then show ?case by simp
next
  case (2 sz t ci ip ips r)
  then obtain r1 where r1: "propose_to sz t ci ip r = Some r1" "propose_all sz t ci ips r1 = Some r'" by (auto split: option.splits)
  have id: "self_id (fst r1) = self_id (fst r)" using r1(1)
    by (auto simp: propose_to_def Let_def self_id_def self_ip_def split: if_splits)
  moreover have "calm n (fst r1)" using r1(1) "2.prems"(2)
    by (auto simp: propose_to_def Let_def calm_def split: if_splits)
  moreover have "calm_out (snd r1)" "leader_ids (snd r1)" using r1(1) "2.prems"(3-5)
    by (auto simp: propose_to_def proposal_def calm_simps split: if_splits)
  ultimately show ?case using "2.IH" [OF r1] "2.prems"(5) by metis
qed

text \<open>A request is refused, or entered into the log and proposed.\<close>

definition entered :: "rnode \<Rightarrow> client_request \<Rightarrow> sockaddr \<Rightarrow> rnode" where
  "entered n q a = n\<lparr>client_id_to_addr := (if map_of (client_id_to_addr n) (cq_client_id q) = None
       then AList.update (cq_client_id q) a (client_id_to_addr n) else client_id_to_addr n),
     raftLog := appendEntry (raftLog n) \<lparr>le_term = current_term n, le_command = cq_command q,
       le_client_id = cq_client_id q, le_request_id = cq_request_id q\<rparr>\<rparr>"

lemma client_request_cases:
  assumes "handle_client_request sz n q a = Some r"
  obtains (refused) "r = (n, [sendToClient n a \<lparr>cs_success = False, cs_client_id = cq_client_id q,
        cs_request_id = cq_request_id q, cs_leader_id = Some (current_leader n)\<rparr>])"
    | (proposed) "propose_all sz (current_term n) (commitIndex (raftLog n)) (peerIPs (config n)) (entered n q a, []) = Some r"
proof (cases "role n = LEADER")
  case True
  with assms show thesis
    by (intro proposed) (auto simp: handle_client_request_def send_proposals_to_followers_def entered_def Let_def split: if_splits)
next
  case False
  with assms show thesis by (intro refused) (simp add: handle_client_request_def)
qed

lemma client_request_calm:
  assumes "handle_client_request sz n q a = Some r" and "self_id n \<noteq> no_leader"
  shows "calm n (fst r) \<and> calm_out (snd r) \<and> leader_ids (snd r)"
  using assms(1)
proof (cases rule: client_request_cases)
  case refused
  then show ?thesis by (simp add: calm_simps)
next
  case proposed
  have "calm n (entered n q a)" by (simp add: calm_def entered_def)
  moreover have "self_id (entered n q a) = self_id n" by (rule self_id_cong) (simp_all add: entered_def)
  ultimately show ?thesis using propose_all_calm [OF proposed, of n] assms(2) by (simp add: calm_out_def leader_ids_def)
qed

end
