(* ===== verification/Raft_Election.thy ===== *)
theory Raft_Election
  imports Raft_Cluster Consistency
begin

text \<open>
  Elections of \<open>src/node.cpp\<close> in a whole cluster. Without the hazards of \<open>Raft_Cluster\<close> there is at most one leader
  in a term; for every hazard there is a run in which it alone leads to two. The invariant says that a vote
  is on its way or counted at most once, that a node stands by the vote it cast in its term, that a candidate
  has as many votes as are noted for it and that whoever became leader had a quorum.
\<close>

subsection \<open>The invariant\<close>

text \<open>How often a vote is still on its way, as a request or as a response, or has been counted.\<close>

definition under_way :: "datagram list \<Rightarrow> vote_record \<Rightarrow> nat" where
  "under_way ds key = length (filter (\<lambda>d. rv_key d = Some key) ds) + length (filter (\<lambda>d. vr_key d = Some key) ds)"

definition uses :: "cluster \<Rightarrow> vote_record \<Rightarrow> nat" where
  "uses s key = under_way (s_net s) key + count_list (s_tally s) key"

definition pledged :: "process_config \<Rightarrow> rnode \<Rightarrow> string \<Rightarrow> bool" where
  "pledged c n k \<longleftrightarrow> voted_for n = Some (k, clientPort c) \<or> (voted_for n = None \<and> current_leader n \<noteq> no_leader)"

definition own_tally :: "cluster \<Rightarrow> int \<Rightarrow> string \<Rightarrow> vote_record list" where
  "own_tally s t ip = filter (\<lambda>v. fst v = t \<and> snd (snd v) = ip) (s_tally s)"

definition node_inv :: "process_config \<Rightarrow> cluster \<Rightarrow> nat \<Rightarrow> bool" where
  "node_inv c s i \<longleftrightarrow> (let n = s_nodes s ! i; ip = peerIPs c ! i in
     config n = c \<and> replica_id n = i
     \<and> (\<forall>t k. (t, ip, k) \<in> set (s_ballots s) \<longrightarrow> t \<le> current_term n \<and> (t = current_term n \<longrightarrow> pledged c n k))
     \<and> (role n \<noteq> FOLLOWER \<longrightarrow> voted_for n = Some (self_id n))
     \<and> (\<forall>t j. current_term n < t \<longrightarrow> uses s (t, j, ip) = 0)
     \<and> (role n = CANDIDATE \<longrightarrow> votes_received n = int (length (own_tally s (current_term n) ip)))
     \<and> (role n = LEADER \<longrightarrow> (current_term n, ip) \<in> set (s_elected s)))"

definition net_ok :: "process_config \<Rightarrow> vote_record set \<Rightarrow> datagram \<Rightarrow> bool" where
  "net_ok c ballots d \<longleftrightarrow> (case dg_msg d of
       REQUEST_VOTE r \<Rightarrow> rv_is_petition r \<or> rv_candidate_id r = (fst (dg_src d), clientPort c)
     | VOTE_RESPONSE r \<Rightarrow> \<not> vr_vote_granted r \<or> (vr_term r, fst (dg_src d), fst (dg_dst d)) \<in> ballots
     | APPEND_ENTRIES m \<Rightarrow> ae_leader_id m \<noteq> no_leader
     | _ \<Rightarrow> True)"

definition voters :: "cluster \<Rightarrow> int \<Rightarrow> string \<Rightarrow> string set" where
  "voters s t k = {j. (t, j, k) \<in> set (s_ballots s)}"

definition einv :: "process_config \<Rightarrow> cluster \<Rightarrow> bool" where
  "einv c s \<longleftrightarrow> length (s_nodes s) = length (peerIPs c)
     \<and> (\<forall>i < length (peerIPs c). node_inv c s i)
     \<and> (\<forall>t j k k'. (t, j, k) \<in> set (s_ballots s) \<longrightarrow> (t, j, k') \<in> set (s_ballots s) \<longrightarrow> k = k')
     \<and> (\<forall>t j k. (t, j, k) \<in> set (s_ballots s) \<longrightarrow> j \<in> set (peerIPs c))
     \<and> (\<forall>key. uses s key \<le> 1)
     \<and> (\<forall>d \<in> set (s_net s). net_ok c (set (s_ballots s)) d)
     \<and> set (s_tally s) \<subseteq> set (s_ballots s)
     \<and> (\<forall>(t, k) \<in> set (s_elected s). length (peerIPs c) div 2 + 1 \<le> card (voters s t k))"

lemma under_way_append [simp]: "under_way (xs @ ys) key = under_way xs key + under_way ys key"
  by (simp add: under_way_def)

lemma under_way_Nil [simp]: "under_way [] key = 0"
  by (simp add: under_way_def)

lemma under_way_Cons: "under_way (d # ds) key =
    (if rv_key d = Some key then 1 else 0) + (if vr_key d = Some key then 1 else 0) + under_way ds key"
  by (simp add: under_way_def)

lemma under_way_calm: "calm_out ds \<Longrightarrow> under_way ds key = 0"
  by (auto simp: under_way_def calm_out_def filter_empty_conv)

lemma calm_out_keys: "calm_out ds \<Longrightarrow> List.map_filter vr_key ds = []"
  by (auto simp: List.map_filter_def calm_out_def filter_empty_conv)

lemma calm_out_net_ok: "calm_out ds \<Longrightarrow> leader_ids ds \<Longrightarrow> d \<in> set ds \<Longrightarrow> net_ok c b d"
  by (auto simp: calm_out_def leader_ids_def net_ok_def rv_key_def vr_key_def split: msg.splits if_splits)

lemma net_ok_mono: "net_ok c b d \<Longrightarrow> b \<subseteq> b' \<Longrightarrow> net_ok c b' d"
  by (auto simp: net_ok_def split: msg.splits)

lemma einv_init: "einv c (cluster_init c)"
  by (simp add: einv_def node_inv_def cluster_init_def Node_def uses_def own_tally_def Let_def)

lemma node_invI:
  assumes "config (s_nodes s ! i) = c" "replica_id (s_nodes s ! i) = i"
    and "\<And>t k. (t, peerIPs c ! i, k) \<in> set (s_ballots s) \<Longrightarrow> t \<le> current_term (s_nodes s ! i)"
    and "\<And>k. (current_term (s_nodes s ! i), peerIPs c ! i, k) \<in> set (s_ballots s) \<Longrightarrow> pledged c (s_nodes s ! i) k"
    and "role (s_nodes s ! i) \<noteq> FOLLOWER \<Longrightarrow> voted_for (s_nodes s ! i) = Some (peerIPs c ! i, clientPort c)"
    and "\<And>t j. current_term (s_nodes s ! i) < t \<Longrightarrow> uses s (t, j, peerIPs c ! i) = 0"
    and "role (s_nodes s ! i) = CANDIDATE \<Longrightarrow>
      votes_received (s_nodes s ! i) = int (length (own_tally s (current_term (s_nodes s ! i)) (peerIPs c ! i)))"
    and "role (s_nodes s ! i) = LEADER \<Longrightarrow> (current_term (s_nodes s ! i), peerIPs c ! i) \<in> set (s_elected s)"
  shows "node_inv c s i"
proof -
  have "self_id (s_nodes s ! i) = (peerIPs c ! i, clientPort c)" using assms(1,2) by (simp add: self_id_def self_ip_def)
  then show ?thesis using assms unfolding node_inv_def Let_def by metis
qed

lemma node_invD:
  assumes "einv c s" and "i < length (peerIPs c)"
  shows "config (s_nodes s ! i) = c" "replica_id (s_nodes s ! i) = i" "self_ip (s_nodes s ! i) = peerIPs c ! i"
    "self_id (s_nodes s ! i) = (peerIPs c ! i, clientPort c)"
    "(t, peerIPs c ! i, k) \<in> set (s_ballots s) \<Longrightarrow> t \<le> current_term (s_nodes s ! i)"
    "(current_term (s_nodes s ! i), peerIPs c ! i, k) \<in> set (s_ballots s) \<Longrightarrow> pledged c (s_nodes s ! i) k"
    "role (s_nodes s ! i) \<noteq> FOLLOWER \<Longrightarrow> voted_for (s_nodes s ! i) = Some (peerIPs c ! i, clientPort c)"
    "current_term (s_nodes s ! i) < t \<Longrightarrow> uses s (t, j, peerIPs c ! i) = 0"
    "role (s_nodes s ! i) = CANDIDATE \<Longrightarrow>
      votes_received (s_nodes s ! i) = int (length (own_tally s (current_term (s_nodes s ! i)) (peerIPs c ! i)))"
    "role (s_nodes s ! i) = LEADER \<Longrightarrow> (current_term (s_nodes s ! i), peerIPs c ! i) \<in> set (s_elected s)"
proof -
  from assms have n: "node_inv c s i" by (simp add: einv_def)
  then show c: "config (s_nodes s ! i) = c" "replica_id (s_nodes s ! i) = i" by (simp_all add: node_inv_def Let_def)
  then show "self_ip (s_nodes s ! i) = peerIPs c ! i" and id: "self_id (s_nodes s ! i) = (peerIPs c ! i, clientPort c)"
    by (simp_all add: self_ip_def self_id_def)
  then show "role (s_nodes s ! i) \<noteq> FOLLOWER \<Longrightarrow> voted_for (s_nodes s ! i) = Some (peerIPs c ! i, clientPort c)"
    using n by (simp add: node_inv_def Let_def)
qed (use assms in \<open>simp_all add: einv_def node_inv_def Let_def\<close>)

lemma node_inv_frame:
  assumes "node_inv c s i" and "s_nodes s' ! i = s_nodes s ! i" and "set (s_elected s) \<subseteq> set (s_elected s')"
    and "\<And>t k. (t, peerIPs c ! i, k) \<in> set (s_ballots s') \<Longrightarrow> (t, peerIPs c ! i, k) \<in> set (s_ballots s)"
    and "\<And>t j. uses s (t, j, peerIPs c ! i) = 0 \<Longrightarrow> uses s' (t, j, peerIPs c ! i) = 0"
    and "\<And>t. own_tally s' t (peerIPs c ! i) = own_tally s t (peerIPs c ! i)"
  shows "node_inv c s' i"
proof -
  note old = assms(1) [unfolded node_inv_def Let_def]
  show ?thesis unfolding node_inv_def Let_def assms(2,6)
  proof (intro conjI)
    show "\<forall>t k. (t, peerIPs c ! i, k) \<in> set (s_ballots s') \<longrightarrow>
        t \<le> current_term (s_nodes s ! i) \<and> (t = current_term (s_nodes s ! i) \<longrightarrow> pledged c (s_nodes s ! i) k)"
      using old assms(4) by blast
    show "\<forall>t j. current_term (s_nodes s ! i) < t \<longrightarrow> uses s' (t, j, peerIPs c ! i) = 0" using old assms(5) by simp
    show "role (s_nodes s ! i) = LEADER \<longrightarrow> (current_term (s_nodes s ! i), peerIPs c ! i) \<in> set (s_elected s')"
      using old assms(3) by blast
  qed (use old in blast)+
qed

lemma pledged_calm: "calm n n' \<Longrightarrow> pledged c n k \<Longrightarrow> current_term n' = current_term n \<Longrightarrow> pledged c n' k"
  by (auto simp: calm_def pledged_def)

text \<open>Steps that cast and count no vote; datagrams may disappear.\<close>

lemma einv_calm:
  assumes inv: "einv c s" and calm: "calm (s_nodes s ! i) n'"
    and out: "calm_out out" "leader_ids out" and net: "subseq net (s_net s)"
    and s': "s_nodes s' = (s_nodes s)[i := n']" "s_net s' = net @ out" "s_ballots s' = s_ballots s" "s_tally s' = s_tally s"
      "s_elected s' = s_elected s"
  shows "einv c s'"
proof -
  have len: "length (s_nodes s) = length (peerIPs c)" using inv by (simp add: einv_def)
  have under: "under_way net key \<le> under_way (s_net s) key" for key
    unfolding under_way_def using subseq_filter [OF net] by (intro add_mono list_emb_length)
  then have uses: "uses s' key \<le> uses s key" for key
    using under_way_calm [OF out(1)] by (simp add: uses_def s')
  then have zero: "uses s key = 0 \<Longrightarrow> uses s' key = 0" for key using uses [of key] by simp
  have node: "node_inv c s' j" if j: "j < length (peerIPs c)" for j
  proof (cases "j = i")
    case False
    from inv j have "node_inv c s j" by (simp add: einv_def)
    then show ?thesis
    proof (rule node_inv_frame)
      show "s_nodes s' ! j = s_nodes s ! j" using False by (simp add: s')
      show "uses s' (t, k, peerIPs c ! j) = 0" if "uses s (t, k, peerIPs c ! j) = 0" for t k by (rule zero [OF that])
    qed (simp_all add: s' own_tally_def)
  next
    case True
    with j have i: "i < length (peerIPs c)" by simp
    note old = node_invD [OF inv i]
    have n': "s_nodes s' ! i = n'" using i len by (simp add: s')
    have "node_inv c s' i"
    proof (rule node_invI, unfold n' s'(3,5))
      show "config n' = c" "replica_id n' = i" using calm old(1,2) by (simp_all add: calm_def)
      show "t \<le> current_term n'" if "(t, peerIPs c ! i, k) \<in> set (s_ballots s)" for t k
        using old(5) [OF that] calm by (simp add: calm_def)
      show "pledged c n' k" if b: "(current_term n', peerIPs c ! i, k) \<in> set (s_ballots s)" for k
      proof -
        from old(5) [OF b] calm have same: "current_term n' = current_term (s_nodes s ! i)" by (simp add: calm_def)
        with old(6) b have "pledged c (s_nodes s ! i) k" by simp
        then show ?thesis by (rule pledged_calm [OF calm _ same])
      qed
      show "voted_for n' = Some (peerIPs c ! i, clientPort c)" if "role n' \<noteq> FOLLOWER" using that calm old(7) by (auto simp: calm_def)
      show "uses s' (t, j, peerIPs c ! i) = 0" if "current_term n' < t" for t j
        using that calm by (intro zero old(8)) (simp add: calm_def)
      show "votes_received n' = int (length (own_tally s' (current_term n') (peerIPs c ! i)))" if "role n' = CANDIDATE"
        using that calm old(9) by (auto simp: calm_def own_tally_def s')
      show "(current_term n', peerIPs c ! i) \<in> set (s_elected s)" if "role n' = LEADER" using that calm old(10) by (auto simp: calm_def)
    qed
    with True show ?thesis by simp
  qed
  have "net_ok c (set (s_ballots s')) d" if "d \<in> set (s_net s')" for d
  proof (cases "d \<in> set out")
    case True
    then show ?thesis by (rule calm_out_net_ok [OF out])
  next
    case False
    with that have "d \<in> set net" by (simp add: s')
    then have "d \<in> set (s_net s)" using list_emb_set [OF net] by auto
    then show ?thesis using inv s' by (simp add: einv_def)
  qed
  then show ?thesis
    using inv node uses len s' order_trans [OF uses] by (simp add: einv_def voters_def)
qed

lemma einvD:
  assumes "einv c s"
  shows "length (s_nodes s) = length (peerIPs c)" "i < length (peerIPs c) \<Longrightarrow> node_inv c s i"
    "(t, j, k) \<in> set (s_ballots s) \<Longrightarrow> (t, j, k') \<in> set (s_ballots s) \<Longrightarrow> k = k'"
    "(t, j, k) \<in> set (s_ballots s) \<Longrightarrow> j \<in> set (peerIPs c)"
    "uses s key \<le> 1" "d \<in> set (s_net s) \<Longrightarrow> net_ok c (set (s_ballots s)) d" "set (s_tally s) \<subseteq> set (s_ballots s)"
    "(t, k) \<in> set (s_elected s) \<Longrightarrow> length (peerIPs c) div 2 + 1 \<le> card (voters s t k)"
  using assms unfolding einv_def by blast+

lemma einvI:
  assumes "length (s_nodes s) = length (peerIPs c)" "\<And>i. i < length (peerIPs c) \<Longrightarrow> node_inv c s i"
    "\<And>t j k k'. (t, j, k) \<in> set (s_ballots s) \<Longrightarrow> (t, j, k') \<in> set (s_ballots s) \<Longrightarrow> k = k'"
    "\<And>t j k. (t, j, k) \<in> set (s_ballots s) \<Longrightarrow> j \<in> set (peerIPs c)"
    "\<And>key. uses s key \<le> 1" "\<And>d. d \<in> set (s_net s) \<Longrightarrow> net_ok c (set (s_ballots s)) d" "set (s_tally s) \<subseteq> set (s_ballots s)"
    "\<And>t k. (t, k) \<in> set (s_elected s) \<Longrightarrow> length (peerIPs c) div 2 + 1 \<le> card (voters s t k)"
  shows "einv c s"
  using assms unfolding einv_def by blast

lemma finite_voters: "finite (voters s t k)"
proof -
  have "voters s t k \<subseteq> (fst \<circ> snd) ` set (s_ballots s)" by (force simp: voters_def)
  then show ?thesis by (rule finite_subset) simp
qed

lemma card_voters_mono: "set (s_ballots s) \<subseteq> set (s_ballots s') \<Longrightarrow> card (voters s t k) \<le> card (voters s' t k)"
  by (rule card_mono [OF finite_voters]) (auto simp: voters_def)

text \<open>A vote is cast: the request leaves the network and the response enters it.\<close>

lemma einv_grant:
  assumes inv: "einv c s" and i: "i < length (peerIPs c)" and ips: "distinct (peerIPs c)"
    and net: "s_net s = xs @ d # ys" and d: "rv_key d = Some (t, peerIPs c ! i, k)"
    and t: "current_term (s_nodes s ! i) \<le> t"
    and free: "t = current_term (s_nodes s ! i) \<Longrightarrow>
      (voted_for (s_nodes s ! i) = None \<and> current_leader (s_nodes s ! i) = no_leader) \<or> voted_for (s_nodes s ! i) = Some (k, clientPort c)"
    and n': "config n' = c" "replica_id n' = i" "current_term n' = t" "voted_for n' = Some (k, clientPort c)"
      "if t = current_term (s_nodes s ! i) then role n' = role (s_nodes s ! i) \<and> votes_received n' = votes_received (s_nodes s ! i)
       else role n' = FOLLOWER"
    and r: "vr_key r = Some (t, peerIPs c ! i, k)"
    and s': "s_nodes s' = (s_nodes s)[i := n']" "s_net s' = xs @ ys @ [r]" "s_ballots s' = s_ballots s @ [(t, peerIPs c ! i, k)]"
      "s_tally s' = s_tally s" "s_elected s' = s_elected s"
  shows "einv c s'"
proof -
  let ?n = "s_nodes s ! i" and ?v = "(t, peerIPs c ! i, k)"
  note old = node_invD [OF inv i] and all = einvD [OF inv]
  have d2: "vr_key d = None" and r2: "rv_key r = None" using d r
    by (auto simp: rv_key_def vr_key_def split: msg.splits if_splits)
  have uses: "uses s' key = uses s key" for key
    using d r d2 r2 by (simp add: uses_def s' net under_way_Cons)
  have mine: "j = k" if "(t, peerIPs c ! i, j) \<in> set (s_ballots s)" for j
  proof -
    from old(5) [OF that] t have same: "t = current_term ?n" by simp
    with that old(6) have "pledged c ?n j" by simp
    then show ?thesis using free [OF same] by (auto simp: pledged_def)
  qed
  have tally: "own_tally s' u ip = own_tally s u ip" for u ip by (simp add: own_tally_def s')
  have node: "node_inv c s' j" if j: "j < length (peerIPs c)" for j
  proof (cases "j = i")
    case False
    then have ip: "peerIPs c ! j \<noteq> peerIPs c ! i" using ips i j by (simp add: nth_eq_iff_index_eq)
    from all(2) [OF j] show ?thesis
    proof (rule node_inv_frame)
      show "s_nodes s' ! j = s_nodes s ! j" using False by (simp add: s')
    qed (use ip in \<open>simp_all add: s' uses tally\<close>)
  next
    case True
    have nth: "s_nodes s' ! i = n'" using i all(1) by (simp add: s')
    have "node_inv c s' i"
    proof (rule node_invI, unfold nth n'(3) s'(5) uses tally)
      show "config n' = c" "replica_id n' = i" by (fact n')+
      show "u \<le> t" if "(u, peerIPs c ! i, j) \<in> set (s_ballots s')" for u j
        using that old(5) [of u j] t by (auto simp: s')
      show "pledged c n' j" if "(t, peerIPs c ! i, j) \<in> set (s_ballots s')" for j
        using that mine [of j] n'(4) by (auto simp: s' pledged_def)
      show "voted_for n' = Some (peerIPs c ! i, clientPort c)" if "role n' \<noteq> FOLLOWER"
        using that n'(4,5) free old(7) by (auto split: if_splits)
      show "uses s (u, j, peerIPs c ! i) = 0" if "t < u" for u j using that t by (intro old(8)) simp
      show "votes_received n' = int (length (own_tally s t (peerIPs c ! i)))" if "role n' = CANDIDATE"
        using that n'(5) old(9) by (auto split: if_splits)
      show "(t, peerIPs c ! i) \<in> set (s_elected s)" if "role n' = LEADER" using that n'(5) old(10) by (auto split: if_splits)
    qed
    with True show ?thesis by simp
  qed
  show ?thesis
  proof (rule einvI)
    show "length (s_nodes s') = length (peerIPs c)" using all(1) by (simp add: s')
    show "a = b" if "(u, j, a) \<in> set (s_ballots s')" "(u, j, b) \<in> set (s_ballots s')" for u j a b
      using that mine all(3) by (auto simp: s')
    show "j \<in> set (peerIPs c)" if "(u, j, a) \<in> set (s_ballots s')" for u j a using that all(4) i by (auto simp: s')
    show "uses s' key \<le> 1" for key using all(5) by (simp add: uses)
    show "net_ok c (set (s_ballots s')) e" if e: "e \<in> set (s_net s')" for e
    proof (cases "e = r")
      case True
      with r show ?thesis by (auto simp: net_ok_def s' vr_key_def split: msg.splits if_splits)
    next
      case False
      with e have "e \<in> set (s_net s)" by (auto simp: s' net)
      from net_ok_mono [OF all(6) [OF this]] show ?thesis by (auto simp: s')
    qed
    show "set (s_tally s') \<subseteq> set (s_ballots s')" using all(7) by (auto simp: s')
    show "length (peerIPs c) div 2 + 1 \<le> card (voters s' u a)" if "(u, a) \<in> set (s_elected s')" for u a
      using that all(8) card_voters_mono [of s s' u a] by (force simp: s')
  qed (fact node)
qed

text \<open>A candidate counts a vote of its term: the response leaves the network and enters the tally.\<close>

lemma einv_count:
  assumes inv: "einv c s" and i: "i < length (peerIPs c)" and ips: "distinct (peerIPs c)"
    and net: "s_net s = xs @ d # ys" and d: "vr_key d = Some v" and v: "v = (current_term (s_nodes s ! i), j, peerIPs c ! i)"
    and n': "config n' = c" "replica_id n' = i" "current_term n' = current_term (s_nodes s ! i)"
      "voted_for n' = voted_for (s_nodes s ! i)" "current_leader n' = current_leader (s_nodes s ! i)" "role n' = CANDIDATE"
      "role (s_nodes s ! i) = CANDIDATE" "votes_received n' = votes_received (s_nodes s ! i) + 1"
    and s': "s_nodes s' = (s_nodes s)[i := n']" "s_net s' = xs @ ys" "s_ballots s' = s_ballots s"
      "s_tally s' = s_tally s @ [v]" "s_elected s' = s_elected s"
  shows "einv c s'"
proof -
  note old = node_invD [OF inv i] and all = einvD [OF inv]
  have d2: "rv_key d = None" using d by (auto simp: rv_key_def vr_key_def split: msg.splits if_splits)
  have uses: "uses s' key = uses s key" for key
    using d d2 by (simp add: uses_def s' net under_way_Cons)
  have tally: "own_tally s' u ip = own_tally s u ip @ (if u = current_term (s_nodes s ! i) \<and> ip = peerIPs c ! i then [v] else [])" for u ip
    by (auto simp: own_tally_def s' v)
  have "net_ok c (set (s_ballots s)) d" using all(6) by (simp add: net)
  with d v have cast: "v \<in> set (s_ballots s)" by (auto simp: net_ok_def vr_key_def split: msg.splits if_splits)
  have node: "node_inv c s' j" if j: "j < length (peerIPs c)" for j
  proof (cases "j = i")
    case False
    then have ip: "peerIPs c ! j \<noteq> peerIPs c ! i" using ips i j by (simp add: nth_eq_iff_index_eq)
    from all(2) [OF j] show ?thesis
    proof (rule node_inv_frame)
      show "s_nodes s' ! j = s_nodes s ! j" using False by (simp add: s')
    qed (use ip in \<open>simp_all add: s' uses tally\<close>)
  next
    case True
    have nth: "s_nodes s' ! i = n'" using i all(1) by (simp add: s')
    have "node_inv c s' i"
    proof (rule node_invI, unfold nth n'(3) s'(3,5) uses tally)
      show "config n' = c" "replica_id n' = i" by (fact n')+
      show "pledged c n' k" if "(current_term (s_nodes s ! i), peerIPs c ! i, k) \<in> set (s_ballots s)" for k
        using old(6) [OF that] n'(4,5) by (simp add: pledged_def)
      show "voted_for n' = Some (peerIPs c ! i, clientPort c)" using n'(4,7) old(7) by simp
      show "uses s (u, k, peerIPs c ! i) = 0" if "current_term (s_nodes s ! i) < u" for u k using that by (rule old(8))
      show "votes_received n' = int (length (own_tally s (current_term (s_nodes s ! i)) (peerIPs c ! i)
          @ (if current_term (s_nodes s ! i) = current_term (s_nodes s ! i) \<and> peerIPs c ! i = peerIPs c ! i then [v] else [])))"
        using old(9) n'(7,8) by simp
    qed (use old(5) n'(6) in auto)
    with True show ?thesis by simp
  qed
  show ?thesis
  proof (rule einvI)
    show "length (s_nodes s') = length (peerIPs c)" using all(1) by (simp add: s')
    show "a = b" if "(u, j, a) \<in> set (s_ballots s')" "(u, j, b) \<in> set (s_ballots s')" for u j a b using that all(3) by (simp add: s')
    show "j \<in> set (peerIPs c)" if "(u, j, a) \<in> set (s_ballots s')" for u j a using that all(4) by (simp add: s')
    show "uses s' key \<le> 1" for key using all(5) by (simp add: uses)
    show "net_ok c (set (s_ballots s')) e" if "e \<in> set (s_net s')" for e using that all(6) by (auto simp: s' net)
    show "set (s_tally s') \<subseteq> set (s_ballots s')" using all(7) cast by (simp add: s')
    show "length (peerIPs c) div 2 + 1 \<le> card (voters s' u a)" if "(u, a) \<in> set (s_elected s')" for u a
      using that all(8) by (simp add: s' voters_def)
  qed (fact node)
qed

text \<open>An election starts: a new term with one request to every node.\<close>

lemma filter_single: "distinct xs \<Longrightarrow> filter (\<lambda>x. P \<and> x = j \<and> Q) xs = (if P \<and> Q \<and> j \<in> set xs then [j] else [])"
  by (induction xs) auto

lemma request_keys:
  assumes "config n = c" "replica_id n = i" "distinct (peerIPs c)"
  shows "under_way (send_request_vote n) (t, j, k) =
      (if t = current_term n \<and> k = peerIPs c ! i \<and> j \<in> set (peerIPs c) then 1 else 0)"
    and "List.map_filter vr_key (send_request_vote n) = []"
    and "d \<in> set (send_request_vote n) \<Longrightarrow> net_ok c b d"
proof -
  have "filter (\<lambda>ip. current_term n = t \<and> ip = j \<and> peerIPs c ! i = k) (peerIPs c)
      = (if t = current_term n \<and> k = peerIPs c ! i \<and> j \<in> set (peerIPs c) then [j] else [])"
    by (auto simp: filter_single [OF assms(3)])
  then show "under_way (send_request_vote n) (t, j, k) =
      (if t = current_term n \<and> k = peerIPs c ! i \<and> j \<in> set (peerIPs c) then 1 else 0)"
    using assms(1,2) by (auto simp: under_way_def send_request_vote_def peer_addresses_def filter_map comp_def rv_key_def vr_key_def
        sendToPeer_def vote_request_def self_ip_def)
  show "List.map_filter vr_key (send_request_vote n) = []"
    by (auto simp: List.map_filter_def send_request_vote_def vr_key_def sendToPeer_def filter_empty_conv)
  show "net_ok c b d" if "d \<in> set (send_request_vote n)"
    using that assms(1) by (auto simp: net_ok_def send_request_vote_def sendToPeer_def vote_request_def self_id_def)
qed

lemma einv_election:
  assumes inv: "einv c s" and i: "i < length (peerIPs c)" and ips: "distinct (peerIPs c)"
    and n': "config n' = c" "replica_id n' = i" "current_term n' = current_term (s_nodes s ! i) + 1"
      "voted_for n' = Some (peerIPs c ! i, clientPort c)" "role n' = CANDIDATE" "votes_received n' = 0"
    and s': "s_nodes s' = (s_nodes s)[i := n']" "s_net s' = s_net s @ send_request_vote n'" "s_ballots s' = s_ballots s"
      "s_tally s' = s_tally s" "s_elected s' = s_elected s"
  shows "einv c s'"
proof -
  note old = node_invD [OF inv i] and all = einvD [OF inv] and req = request_keys [OF n'(1,2) ips]
  have uses: "uses s' (t, j, k) = uses s (t, j, k) + (if t = current_term n' \<and> k = peerIPs c ! i \<and> j \<in> set (peerIPs c) then 1 else 0)" for t j k
    by (simp add: uses_def s' req(1))
  have tally: "own_tally s' u ip = own_tally s u ip" for u ip by (simp add: own_tally_def s')
  have none: "uses s (t, j, peerIPs c ! i) = 0" if "current_term n' \<le> t" for t j using that n'(3) by (intro old(8)) simp
  have node: "node_inv c s' j" if j: "j < length (peerIPs c)" for j
  proof (cases "j = i")
    case False
    then have ip: "peerIPs c ! j \<noteq> peerIPs c ! i" using ips i j by (simp add: nth_eq_iff_index_eq)
    from all(2) [OF j] show ?thesis
    proof (rule node_inv_frame)
      show "s_nodes s' ! j = s_nodes s ! j" using False by (simp add: s')
    qed (use ip in \<open>simp_all add: s' uses tally\<close>)
  next
    case True
    have nth: "s_nodes s' ! i = n'" using i all(1) by (simp add: s')
    have "node_inv c s' i"
    proof (rule node_invI, unfold nth s'(3,5) tally)
      show "config n' = c" "replica_id n' = i" by (fact n')+
      show "t \<le> current_term n'" if "(t, peerIPs c ! i, k) \<in> set (s_ballots s)" for t k using old(5) [OF that] n'(3) by simp
      show "pledged c n' k" if "(current_term n', peerIPs c ! i, k) \<in> set (s_ballots s)" for k using old(5) [OF that] n'(3) by simp
      show "voted_for n' = Some (peerIPs c ! i, clientPort c)" by (fact n')
      show "uses s' (t, j, peerIPs c ! i) = 0" if "current_term n' < t" for t j using that none [of t j] by (simp add: uses)
      have "(t, j, k) \<notin> set (own_tally s (current_term n') (peerIPs c ! i))" for t j k
      proof
        assume "(t, j, k) \<in> set (own_tally s (current_term n') (peerIPs c ! i))"
        then have "(current_term n', j, peerIPs c ! i) \<in> set (s_tally s)" by (auto simp: own_tally_def)
        then have "count_list (s_tally s) (current_term n', j, peerIPs c ! i) \<noteq> 0" by (simp add: count_list_0_iff)
        with none [of "current_term n'" j] show False by (simp add: uses_def)
      qed
      then have "own_tally s (current_term n') (peerIPs c ! i) = []"
        by (cases "own_tally s (current_term n') (peerIPs c ! i)") auto
      then show "votes_received n' = int (length (own_tally s (current_term n') (peerIPs c ! i)))" using n'(6) by simp
    qed (use n'(5) in simp)
    with True show ?thesis by simp
  qed
  show ?thesis
  proof (rule einvI)
    show "length (s_nodes s') = length (peerIPs c)" using all(1) by (simp add: s')
    show "a = b" if "(u, j, a) \<in> set (s_ballots s')" "(u, j, b) \<in> set (s_ballots s')" for u j a b using that all(3) by (simp add: s')
    show "j \<in> set (peerIPs c)" if "(u, j, a) \<in> set (s_ballots s')" for u j a using that all(4) by (simp add: s')
    show "uses s' key \<le> 1" for key
    proof -
      obtain t j k where key: "key = (t, j, k)" by (cases key)
      show ?thesis using all(5) [of key] none [of t j] unfolding key uses by auto
    qed
    show "net_ok c (set (s_ballots s')) e" if "e \<in> set (s_net s')" for e using that all(6) req(3) by (auto simp: s')
    show "set (s_tally s') \<subseteq> set (s_ballots s')" using all(7) by (simp add: s')
    show "length (peerIPs c) div 2 + 1 \<le> card (voters s' u a)" if "(u, a) \<in> set (s_elected s')" for u a
      using that all(8) by (simp add: s' voters_def)
  qed (fact node)
qed

text \<open>A candidate with enough votes becomes the leader.\<close>

lemma distinct_if_counted_once: "(\<And>x. count_list xs x \<le> 1) \<Longrightarrow> distinct xs"
proof (induction xs)
  case (Cons y ys)
  have "count_list ys x \<le> 1" for x using Cons.prems [of x] by (auto split: if_splits)
  moreover have "count_list ys y = 0" using Cons.prems [of y] by simp
  ultimately show ?case using Cons.IH by (simp add: count_list_0_iff)
qed simp

lemma own_tally_voters:
  assumes "einv c s"
  shows "length (own_tally s t k) \<le> card (voters s t k)"
proof -
  have "count_list (s_tally s) v \<le> 1" for v using einvD(5) [OF assms, of v] by (simp add: uses_def)
  then have dist: "distinct (own_tally s t k)" unfolding own_tally_def by (intro distinct_filter distinct_if_counted_once)
  have "length (own_tally s t k) = card ((fst \<circ> snd) ` set (own_tally s t k))"
    unfolding distinct_card [OF dist, symmetric]
    by (rule card_image [symmetric]) (auto simp: inj_on_def own_tally_def)
  also have "\<dots> \<le> card (voters s t k)"
    using einvD(7) [OF assms] by (intro card_mono finite_voters) (auto simp: own_tally_def voters_def)
  finally show ?thesis .
qed

lemma einv_lead:
  assumes inv: "einv c s" and i: "i < length (peerIPs c)" and ips: "distinct (peerIPs c)"
    and enough: "role (s_nodes s ! i) = LEADER \<or>
      (role (s_nodes s ! i) = CANDIDATE \<and> int (length (peerIPs c)) div 2 + 1 \<le> votes_received (s_nodes s ! i))"
    and n': "config n' = c" "replica_id n' = i" "current_term n' = current_term (s_nodes s ! i)"
      "voted_for n' = voted_for (s_nodes s ! i)" "role n' = LEADER"
    and s': "s_nodes s' = (s_nodes s)[i := n']" "s_net s' = s_net s" "s_ballots s' = s_ballots s"
      "s_tally s' = s_tally s" "s_elected s' = s_elected s @ [(current_term n', peerIPs c ! i)]"
  shows "einv c s'"
proof -
  note old = node_invD [OF inv i] and all = einvD [OF inv]
  have uses: "uses s' key = uses s key" for key by (simp add: uses_def s')
  have tally: "own_tally s' u ip = own_tally s u ip" for u ip by (simp add: own_tally_def s')
  have self: "voted_for n' = Some (peerIPs c ! i, clientPort c)" using enough old(7) n'(4) by auto
  have node: "node_inv c s' j" if j: "j < length (peerIPs c)" for j
  proof (cases "j = i")
    case False
    from all(2) [OF j] show ?thesis
    proof (rule node_inv_frame)
      show "s_nodes s' ! j = s_nodes s ! j" using False by (simp add: s')
    qed (auto simp: s' uses tally)
  next
    case True
    have nth: "s_nodes s' ! i = n'" using i all(1) by (simp add: s')
    have "node_inv c s' i"
    proof (rule node_invI, unfold nth n'(3) s'(3) uses)
      show "config n' = c" "replica_id n' = i" by (fact n')+
      show "pledged c n' k" if "(current_term (s_nodes s ! i), peerIPs c ! i, k) \<in> set (s_ballots s)" for k
        using old(6) [OF that] n'(4) self by (auto simp: pledged_def)
      show "uses s (u, k, peerIPs c ! i) = 0" if "current_term (s_nodes s ! i) < u" for u k using that by (rule old(8))
    qed (use old(5) self n'(3,5) in \<open>auto simp: s'\<close>)
    with True show ?thesis by simp
  qed
  have "length (peerIPs c) div 2 + 1 \<le> card (voters s (current_term n') (peerIPs c ! i))"
    using enough
  proof
    assume "role (s_nodes s ! i) = LEADER"
    then show ?thesis using old(10) all(8) n'(3) by simp
  next
    assume "role (s_nodes s ! i) = CANDIDATE \<and> int (length (peerIPs c)) div 2 + 1 \<le> votes_received (s_nodes s ! i)"
    then have "length (peerIPs c) div 2 + 1 \<le> length (own_tally s (current_term n') (peerIPs c ! i))" using old(9) n'(3) by simp linarith
    also note own_tally_voters [OF inv]
    finally show ?thesis .
  qed
  then have elected: "length (peerIPs c) div 2 + 1 \<le> card (voters s' u a)" if "(u, a) \<in> set (s_elected s')" for u a
    using that all(8) by (auto simp: s' voters_def)
  show ?thesis
    using all node elected uses by (intro einvI) (simp_all add: s')
qed

subsection \<open>Every orderly step keeps the invariant\<close>

lemma request_vote_cases:
  assumes "role n = FOLLOWER \<or> voted_for n \<noteq> None" and r: "handle_request_vote n q a = r"
  obtains (calm) "calm n (fst r)" "calm_out (snd r)" "leader_ids (snd r)"
    | (grant) d where "\<not> rv_is_petition q" "current_term n \<le> rv_term q"
      "rv_term q = current_term n \<Longrightarrow> voted_for n = None \<or> voted_for n = Some (rv_candidate_id q)"
      "config (fst r) = config n" "replica_id (fst r) = replica_id n" "current_term (fst r) = rv_term q"
      "voted_for (fst r) = Some (rv_candidate_id q)"
      "if rv_term q = current_term n then role (fst r) = role n \<and> votes_received (fst r) = votes_received n else role (fst r) = FOLLOWER"
      "snd r = [d]" "vr_key d = Some (rv_term q, self_ip n, fst a)"
proof -
  define n1 where n1: "n1 = (if current_term n < rv_term q
     then n\<lparr>current_term := rv_term q, heartbeat_timer := (if role n = LEADER then False else heartbeat_timer n),
       latency_to_leader := [], petition_count := 0, role := FOLLOWER, voted_for := None, current_leader := no_leader\<rparr> else n)"
  define granted where granted: "granted = ((voted_for n1 = None \<or> voted_for n1 = Some (rv_candidate_id q)) \<and> candidate_up_to_date n1 q)"
  have calm1: "calm n n1" unfolding n1 by (simp add: calm_def)
  consider "rv_term q < current_term n" | "\<not> rv_term q < current_term n" "rv_is_petition q"
    | "\<not> rv_term q < current_term n" "\<not> rv_is_petition q" by blast
  then show thesis
  proof cases
    case 1
    with r show ?thesis by (intro that(1)) (auto simp: handle_request_vote_def calm_simps)
  next
    case 2
    with r have "r = (if role n = LEADER then (n\<lparr>heartbeat_timer := False, role := FOLLOWER, current_leader := no_leader\<rparr>, []) else (n, []))"
      by (simp add: handle_request_vote_def)
    then show ?thesis using assms(1) by (cases "role n = LEADER"; intro that(1)) (simp_all add: calm_simps)
  next
    case 3
    define n2 where n2: "n2 = (if granted then n1\<lparr>voted_for := Some (rv_candidate_id q),
       election_async_tasks := election_async_tasks n1 @ [Reset_election_timeout True False]\<rparr> else n1)"
    from 3 have eq: "r = (n2, [sendToPeer n2 a (VOTE_RESPONSE \<lparr>vr_term = current_term n2, vr_vote_granted = granted\<rparr>)])"
      unfolding r [symmetric] n2 granted n1 handle_request_vote_def Let_def by (simp only: if_False)
    show ?thesis
    proof (cases granted)
      case False
      with calm1 show ?thesis by (intro that(1)) (simp_all add: eq n2 calm_out_def leader_ids_def rv_key_def vr_key_def sendToPeer_def)
    next
      case True
      have same: "config n1 = config n" "replica_id n1 = replica_id n" using calm1 by (simp_all add: calm_def)
      have t: "current_term n1 = rv_term q" using 3(1) unfolding n1 by simp
      have keep: "rv_term q = current_term n \<Longrightarrow> n1 = n" unfolding n1 by simp
      have fresh: "rv_term q \<noteq> current_term n \<Longrightarrow> role n1 = FOLLOWER" using 3(1) unfolding n1 by simp
      have ip: "self_ip n2 = self_ip n" using True same unfolding n2 by (simp add: self_ip_def)
      have key: "vr_key (sendToPeer m a (VOTE_RESPONSE \<lparr>vr_term = u, vr_vote_granted = True\<rparr>)) = Some (u, self_ip m, fst a)" for m u
        by (simp add: vr_key_def sendToPeer_def)
      have t2: "current_term n2 = rv_term q" using t True by (simp add: n2)
      show ?thesis
      proof (rule that(2), unfold eq fst_conv snd_conv)
        show "rv_term q = current_term n \<Longrightarrow> voted_for n = None \<or> voted_for n = Some (rv_candidate_id q)"
          using True granted keep by simp
        show "if rv_term q = current_term n then role n2 = role n \<and> votes_received n2 = votes_received n else role n2 = FOLLOWER"
          using True keep fresh by (simp add: n2)
        show "[sendToPeer n2 a (VOTE_RESPONSE \<lparr>vr_term = current_term n2, vr_vote_granted = granted\<rparr>)] =
            [sendToPeer n2 a (VOTE_RESPONSE \<lparr>vr_term = rv_term q, vr_vote_granted = True\<rparr>)]" using True t2 by simp
        show "vr_key (sendToPeer n2 a (VOTE_RESPONSE \<lparr>vr_term = rv_term q, vr_vote_granted = True\<rparr>)) = Some (rv_term q, self_ip n, fst a)"
          by (simp add: key ip)
      qed (use True 3 same t2 in \<open>simp_all add: n2\<close>)
    qed
  qed
qed

lemma timeout_cases:
  assumes "election_timeout_cb n = r"
  obtains (skip) "calm n (fst r)" "snd r = []"
    | (start) "config (fst r) = config n" "replica_id (fst r) = replica_id n" "current_term (fst r) = current_term n + 1"
      "voted_for (fst r) = Some (self_id n)" "role (fst r) = CANDIDATE" "votes_received (fst r) = 0"
      "snd r = send_request_vote (fst r)"
proof -
  let ?n = "n\<lparr>election_timer := False, suspected_leader_failures :=
     suspected_leader_failures n + (if checkFalsePositive (config n) then 1 else 0)\<rparr>"
  let ?n' = "?n\<lparr>current_term := current_term ?n + 1, role := CANDIDATE, current_leader := no_leader,
     voted_for := Some (self_id ?n), votes_received := 0, latency_to_leader := [], petition_count := 0,
     heartbeat_current_term := 0, election_timer := True\<rparr>"
  have id: "self_id ?n = self_id n" by (rule self_id_cong) simp_all
  have "r = (?n, []) \<or> r = (?n', send_request_vote ?n')"
    unfolding assms [symmetric] election_timeout_cb_def Let_def by (simp only: split: if_split) simp
  then show thesis
  proof
    assume "r = (?n, [])"
    then show thesis by (intro that(1)) (simp_all add: calm_def)
  next
    assume r: "r = (?n', send_request_vote ?n')"
    show thesis by (rule that(2)) (simp_all add: r id)
  qed
qed

lemma subseq_drop_nth: "subseq (take k xs @ drop (Suc k) xs) xs"
proof (cases "k < length xs")
  case True
  have "subseq (take k xs @ drop (Suc k) xs) (take k xs @ xs ! k # drop (Suc k) xs)"
    by (intro list_emb_append_mono subseq_order.refl list_emb_Cons)
  then show ?thesis using id_take_nth_drop [OF True] by simp
qed simp

lemma einv_receive:
  assumes "einv c s" and "calm (s_nodes s ! i) (fst r)" "calm_out (snd r)" "leader_ids (snd r)"
  shows "einv c (put_node i r (s\<lparr>s_net := take k (s_net s) @ drop (Suc k) (s_net s), s_tally := s_tally s @ []\<rparr>))"
  by (rule einv_calm [OF assms subseq_drop_nth [of k]]) (simp_all add: put_node_def calm_out_keys [OF assms(3)])

lemma einv_put:
  assumes "einv c s" and "calm (s_nodes s ! i) (fst r)" "calm_out (snd r)" "leader_ids (snd r)"
  shows "einv c (put_node i r s)"
  by (rule einv_calm [OF assms subseq_order.refl]) (simp_all add: put_node_def calm_out_keys [OF assms(3)])

lemma einv_net:
  assumes "einv c s" and "calm_out out" "leader_ids out" and "subseq net (s_net s)"
  shows "einv c (s\<lparr>s_net := net @ out\<rparr>)"
  by (rule einv_calm [OF assms(1) calm_refl assms(2-4)]) simp_all

lemma receiver_some:
  assumes "receiver ns a = Some i"
  shows "i < length ns" "fst a = self_ip (ns ! i)"
  using assms by (auto simp: receiver_def find_Some_iff bound_at_def)

lemma einv_vote_request:
  assumes inv: "einv c s" and ips: "distinct (peerIPs c)" and k: "k < length (s_net s)" and i: "i < length (peerIPs c)"
    and d: "dg_msg (s_net s ! k) = REQUEST_VOTE q" "fst (dg_dst (s_net s ! k)) = peerIPs c ! i" "timely (s_nodes s ! i) (REQUEST_VOTE q)"
  shows "einv c (put_node i (handle_request_vote (s_nodes s ! i) q (dg_src (s_net s ! k)))
    (s\<lparr>s_net := take k (s_net s) @ drop (Suc k) (s_net s), s_tally := s_tally s @ []\<rparr>))"
proof -
  let ?n = "s_nodes s ! i" and ?d = "s_net s ! k"
  define r where r: "r = handle_request_vote ?n q (dg_src ?d)"
  note old = node_invD [OF inv i]
  have "?d \<in> set (s_net s)" using k by simp
  then have cand: "rv_is_petition q \<or> rv_candidate_id q = (fst (dg_src ?d), clientPort c)"
    using einvD(6) [OF inv] d(1) by (fastforce simp: net_ok_def)
  have role: "role ?n = FOLLOWER \<or> voted_for ?n \<noteq> None" using old(7) by auto
  show ?thesis
  proof (cases rule: request_vote_cases [OF role r [symmetric]])
    case 1
    then show ?thesis unfolding r [symmetric] by (rule einv_receive [OF inv])
  next
    case grant: (2 d')
    let ?k = "fst (dg_src ?d)"
    have id: "rv_candidate_id q = (?k, clientPort c)" using cand grant(1) by simp
    have net: "s_net s = take k (s_net s) @ ?d # drop (Suc k) (s_net s)" using k by (rule id_take_nth_drop)
    show ?thesis unfolding r [symmetric]
    proof (rule einv_grant [OF inv i ips net, where n' = "fst r" and r = d' and k = ?k])
      show "rv_key ?d = Some (rv_term q, peerIPs c ! i, ?k)" using d grant(1) by (simp add: rv_key_def)
      show "vr_key d' = Some (rv_term q, peerIPs c ! i, ?k)" using grant(10) old(3) by simp
      show "(voted_for ?n = None \<and> current_leader ?n = no_leader) \<or> voted_for ?n = Some (?k, clientPort c)" if "rv_term q = current_term ?n"
        using grant(1,3) d(3) that id by (auto simp: msg_hazard_def split: if_splits)
    qed (use grant old id in \<open>simp_all add: put_node_def List.map_filter_def\<close>)
  qed
qed

lemma einv_vote_response:
  assumes inv: "einv c s" and ips: "distinct (peerIPs c)" and k: "k < length (s_net s)" and i: "i < length (peerIPs c)"
    and d: "dg_msg (s_net s ! k) = VOTE_RESPONSE q" "fst (dg_dst (s_net s ! k)) = peerIPs c ! i" "timely (s_nodes s ! i) (VOTE_RESPONSE q)"
  shows "einv c (put_node i (handle_vote_response (s_nodes s ! i) q)
    (s\<lparr>s_net := take k (s_net s) @ drop (Suc k) (s_net s), s_tally := s_tally s @ counted_votes (s_nodes s ! i) (s_net s ! k)\<rparr>))"
proof (cases "role (s_nodes s ! i) = CANDIDATE \<and> vr_term q \<le> current_term (s_nodes s ! i) \<and> vr_vote_granted q")
  case True
  let ?n = "s_nodes s ! i" and ?d = "s_net s ! k"
  note old = node_invD [OF inv i]
  have t: "vr_term q = current_term ?n" using True d(3) by (auto simp: msg_hazard_def split: if_splits)
  have v: "counted_votes ?n ?d = [(current_term ?n, fst (dg_src ?d), peerIPs c ! i)]" using True d(1) old(3) by (simp add: counted_votes_def)
  have net: "s_net s = take k (s_net s) @ ?d # drop (Suc k) (s_net s)" using k by (rule id_take_nth_drop)
  have "fst (handle_vote_response ?n q) = ?n\<lparr>votes_received := votes_received ?n + 1\<rparr>
      \<or> fst (handle_vote_response ?n q) = ?n\<lparr>votes_received := votes_received ?n + 1,
          election_async_tasks := election_async_tasks ?n @ [Become_leader]\<rparr>"
    and out: "snd (handle_vote_response ?n q) = []"
    using True by (auto simp: handle_vote_response_def Let_def)
  then obtain ts where n': "fst (handle_vote_response ?n q) = ?n\<lparr>votes_received := votes_received ?n + 1, election_async_tasks := ts\<rparr>"
    by (metis rnode.surjective rnode.update_convs(23))
  show ?thesis
    by (rule einv_count [OF inv i ips net, where n' = "fst (handle_vote_response ?n q)" and j = "fst (dg_src ?d)"])
      (use True d t old v out n' in \<open>simp_all add: vr_key_def put_node_def List.map_filter_def\<close>)
next
  case False
  let ?n = "s_nodes s ! i" and ?d = "s_net s ! k"
  have "counted_votes ?n ?d = []" using False d(1) by (simp add: counted_votes_def)
  moreover have "calm ?n (fst (handle_vote_response ?n q))" "snd (handle_vote_response ?n q) = []"
    using False by (auto simp: handle_vote_response_def calm_def)
  ultimately show ?thesis using einv_receive [OF inv, of i "handle_vote_response ?n q" k] by (simp add: calm_out_def leader_ids_def)
qed

lemma self_id_real:
  assumes "einv c s" and "i < length (peerIPs c)" and "[] \<notin> set (peerIPs c)"
  shows "self_id (s_nodes s ! i) \<noteq> no_leader"
  using node_invD(4) [OF assms(1,2)] nth_mem [OF assms(2)] assms(3) by (auto simp: no_leader_def)

lemma einv_deliver:
  assumes inv: "einv c s" and ips: "distinct (peerIPs c)" "[] \<notin> set (peerIPs c)" and k: "k < length (s_net s)"
    and i: "receiver (s_nodes s) (dg_dst (s_net s ! k)) = Some i" and timely: "timely (s_nodes s ! i) (dg_msg (s_net s ! k))"
    and r: "handleReceived sz rtt (s_nodes s ! i) (dg_msg (s_net s ! k)) (dg_src (s_net s ! k)) = Some r"
  shows "einv c (put_node i r (s\<lparr>s_net := take k (s_net s) @ drop (Suc k) (s_net s),
    s_tally := s_tally s @ counted_votes (s_nodes s ! i) (s_net s ! k)\<rparr>))"
proof -
  let ?n = "s_nodes s ! i" and ?d = "s_net s ! k"
  have len: "i < length (peerIPs c)" using receiver_some(1) [OF i] einvD(1) [OF inv] by simp
  note old = node_invD [OF inv len]
  have dst: "fst (dg_dst ?d) = peerIPs c ! i" using receiver_some(2) [OF i] old(3) by simp
  have id: "self_id ?n \<noteq> no_leader" by (rule self_id_real [OF inv len ips(2)])
  have ok: "net_ok c (set (s_ballots s)) ?d" using k by (intro einvD(6) [OF inv]) simp
  have calm: ?thesis if "calm ?n (fst r) \<and> calm_out (snd r) \<and> leader_ids (snd r)" "\<And>q. dg_msg ?d \<noteq> VOTE_RESPONSE q"
  proof -
    have "counted_votes ?n ?d = []" using that(2) by (auto simp: counted_votes_def split: msg.splits)
    then show ?thesis using einv_receive [OF inv, of i r k] that(1) by simp
  qed
  show ?thesis
  proof (cases "dg_msg ?d")
    case (REQUEST_VOTE q)
    then have "counted_votes ?n ?d = []" by (simp add: counted_votes_def)
    then show ?thesis using einv_vote_request [OF inv ips(1) k len REQUEST_VOTE dst] timely r REQUEST_VOTE by (simp add: handleReceived_def)
  next
    case (VOTE_RESPONSE q)
    then show ?thesis using einv_vote_response [OF inv ips(1) k len VOTE_RESPONSE dst] timely r by (simp add: handleReceived_def)
  next
    case (APPEND_ENTRIES m)
    then have "ae_leader_id m \<noteq> no_leader" using ok by (simp add: net_ok_def)
    from append_entries_calm [OF this, of ?n "dg_src ?d"] show ?thesis using APPEND_ENTRIES r by (intro calm) (auto simp: handleReceived_def)
  next
    case (APPEND_ENTRIES_RESPONSE q)
    then show ?thesis using append_response_calm [of ?n q "dg_src ?d"] r by (intro calm) (auto simp: handleReceived_def)
  next
    case (PENALTY_SCORE m)
    then show ?thesis using penalty_score_calm r by (intro calm) (auto simp: handleReceived_def calm_out_def leader_ids_def)
  next
    case (PETITION m)
    then show ?thesis using petition_calm r by (intro calm) (auto simp: handleReceived_def)
  next
    case (CLIENT_REQUEST q)
    then show ?thesis using client_request_calm [OF _ id] r by (intro calm) (auto simp: handleReceived_def)
  next
    case (CLIENT_RESPONSE q)
    then show ?thesis using calm_refl r by (intro calm) (auto simp: handleReceived_def calm_out_def leader_ids_def)
  qed
qed

lemma einv_task:
  assumes inv: "einv c s" and ips: "distinct (peerIPs c)" and i: "i < length (peerIPs c)"
    and "orderly (Task i) s" and s': "step sz (Task i) s = Some s'"
  shows "einv c s'"
proof -
  let ?n = "s_nodes s ! i"
  note old = node_invD [OF inv i]
  from s' obtain t ts where ts: "election_async_tasks ?n = t # ts" by (cases "election_async_tasks ?n") (simp_all split: if_splits)
  have eq: "s' = (put_node i (run_task ?n, []) s)\<lparr>s_elected := s_elected s @
      (if t = Become_leader then [(current_term ?n, self_ip ?n)] else [])\<rparr>"
    using s' ts by (simp add: Let_def split: if_splits)
  show ?thesis
  proof (cases t)
    case (Reset_election_timeout a b)
    have "s' = put_node i (run_task ?n, []) s" by (simp add: eq Reset_election_timeout put_node_def)
    moreover have "calm ?n (run_task ?n)" by (simp add: run_task_def ts Reset_election_timeout calm_def)
    ultimately show ?thesis using einv_put [OF inv, of i "(run_task ?n, [])"] by (simp add: calm_out_def leader_ids_def)
  next
    case Become_leader
    have "role ?n = LEADER \<or> (role ?n = CANDIDATE \<and> int (length (peerIPs c)) div 2 + 1 \<le> votes_received ?n)"
      using assms(4) ts Become_leader old(1) by (simp add: hazard_of_def quorum_def Let_def split: if_splits)
    then show ?thesis
      by (rule einv_lead [OF inv i ips, where n' = "run_task ?n"])
        (simp_all add: eq put_node_def run_task_def ts Become_leader become_leader_def Let_def old List.map_filter_def)
  qed
qed

lemma einv_step:
  assumes inv: "einv c s" and ips: "distinct (peerIPs c)" "[] \<notin> set (peerIPs c)"
    and ord: "orderly e s" and s': "step sz e s = Some s'"
  shows "einv c s'"
proof -
  note len = einvD(1) [OF inv]
  have id: "self_id (s_nodes s ! i) \<noteq> no_leader" if "i < length (peerIPs c)" for i
    by (rule self_id_real [OF inv that ips(2)])
  note out_defs = calm_out_def leader_ids_def
  show ?thesis
  proof (cases e)
    case (Timeout i)
    let ?r = "election_timeout_cb (s_nodes s ! i)"
    have i: "i < length (peerIPs c)" and eq: "s' = put_node i ?r s" using s' len Timeout by (simp_all split: if_splits)
    note old = node_invD [OF inv i]
    show ?thesis
    proof (cases rule: timeout_cases [of "s_nodes s ! i" ?r, OF refl])
      case 1
      then show ?thesis unfolding eq by (intro einv_put [OF inv]) (simp_all add: out_defs)
    next
      case 2
      have keys: "List.map_filter vr_key (snd ?r) = []"
        unfolding 2(7) using request_keys(2) [of "fst ?r" c i] ips(1) 2(1,2) old(1,2) by simp
      show ?thesis unfolding eq
        by (rule einv_election [OF inv i ips(1), where n' = "fst ?r"])
          (use 2(1-6) old keys in \<open>simp_all add: put_node_def 2(7) [symmetric]\<close>)
    qed
  next
    case (Deliver k rtt)
    let ?d = "s_net s ! k"
    have k: "k < length (s_net s)" using s' Deliver by (simp split: if_splits)
    show ?thesis
    proof (cases "receiver (s_nodes s) (dg_dst ?d)")
      case None
      then have "s' = s\<lparr>s_net := (take k (s_net s) @ drop (Suc k) (s_net s)) @ []\<rparr>" using s' Deliver k by (simp add: Let_def)
      then show ?thesis using einv_net [OF inv _ _ subseq_drop_nth, of "[]" k] by (simp add: out_defs)
    next
      case (Some i)
      from s' Deliver k Some obtain r where r: "handleReceived sz rtt (s_nodes s ! i) (dg_msg ?d) (dg_src ?d) = Some r"
        and eq: "s' = put_node i r (s\<lparr>s_net := take k (s_net s) @ drop (Suc k) (s_net s), s_tally := s_tally s @ counted_votes (s_nodes s ! i) ?d\<rparr>)"
        by (auto simp: Let_def)
      have "timely (s_nodes s ! i) (dg_msg ?d)" using ord Deliver Some by (simp add: hazard_of_def)
      from einv_deliver [OF inv ips k Some this r] show ?thesis unfolding eq .
    qed
  next
    case (Lose k)
    then have "s' = s\<lparr>s_net := (take k (s_net s) @ drop (Suc k) (s_net s)) @ []\<rparr>" using s' by (simp split: if_splits)
    then show ?thesis using einv_net [OF inv _ _ subseq_drop_nth, of "[]" k] by (simp add: out_defs)
  next
    case (Copy k)
    then show ?thesis using ord by (simp add: hazard_of_def)
  next
    case (Task i)
    then have "i < length (peerIPs c)" using s' len by (simp split: if_splits)
    then show ?thesis using einv_task [OF inv ips(1)] ord s' Task by blast
  next
    case (Beat i)
    then have i: "i < length (peerIPs c)" and eq: "s' = put_node i (send_heartbeat (s_nodes s ! i)) s"
      using s' len by (simp_all split: if_splits)
    show ?thesis unfolding eq by (intro einv_put [OF inv] heartbeat_calm [OF id [OF i]])
  next
    case (Fail i)
    then have i: "i < length (peerIPs c)" and eq: "s' = put_node i (failure_cb (s_nodes s ! i), []) s"
      using s' len by (simp_all split: if_splits)
    have "voted_for (s_nodes s ! i) \<noteq> None" using node_invD(7) [OF inv i] ord Fail by (simp add: hazard_of_def split: if_splits)
    then have "calm (s_nodes s ! i) (failure_cb (s_nodes s ! i))" by (simp add: failure_cb_def calm_def)
    then show ?thesis unfolding eq by (intro einv_put [OF inv]) (simp_all add: out_defs)
  next
    case (Penalty i rtt)
    then have "s' = put_node i (calculate_and_send_penalty_score rtt (s_nodes s ! i)) s" using s' by (simp split: if_splits)
    then show ?thesis using einv_put [OF inv] penalty_calm by blast
  next
    case (Request src dst q)
    then have "s' = s\<lparr>s_net := s_net s @ [\<lparr>dg_src = src, dg_dst = dst, dg_msg = CLIENT_REQUEST q\<rparr>]\<rparr>" using s' by simp
    then show ?thesis using einv_net [OF inv _ _ subseq_order.refl] by (simp add: out_defs rv_key_def vr_key_def)
  qed
qed

interpretation elections: safe_invariant "\<lambda>s. einv c s \<and> distinct (peerIPs c) \<and> [] \<notin> set (peerIPs c)" for c
  by unfold_locales (use einv_step in blast)

subsection \<open>Election safety\<close>

interpretation cluster_majority: majority n "n div 2 + 1" for n
  by unfold_locales presburger

lemma elected_unique:
  assumes inv: "einv c s" and ips: "distinct (peerIPs c)"
    and k: "(t, k) \<in> set (s_elected s)" "(t, k') \<in> set (s_elected s)"
  shows "k = k'"
proof -
  have sub: "voters s t a \<subseteq> set (peerIPs c)" for a using einvD(4) [OF inv] by (auto simp: voters_def)
  have "card (set (peerIPs c)) = length (peerIPs c)" by (rule distinct_card [OF ips])
  from cluster_majority.quorums_meet [OF _ this sub sub einvD(8) [OF inv k(1)] einvD(8) [OF inv k(2)]]
  obtain j where "j \<in> voters s t k" "j \<in> voters s t k'" by auto
  then show ?thesis using einvD(3) [OF inv, of t j] by (auto simp: voters_def)
qed

definition leads_term :: "cluster \<Rightarrow> int \<Rightarrow> nat \<Rightarrow> bool" where
  "leads_term s t i \<longleftrightarrow> i < length (s_nodes s) \<and> role (s_nodes s ! i) = LEADER \<and> current_term (s_nodes s ! i) = t"

text \<open>
  C1: In every run of the cluster without a hazard, whatever is lost, delayed or reordered, at most one node is ever made
  leader of a term, at most one is the leader of it now, and that one was made leader with votes from a majority.
\<close>

theorem election_safety:
  assumes "distinct (peerIPs c)" and "[] \<notin> set (peerIPs c)"
    and "hazards sz es (cluster_init c) = Some []" and "cluster_run sz es (cluster_init c) = Some s"
  shows "((t, k) \<in> set (s_elected s) \<longrightarrow> (t, k') \<in> set (s_elected s) \<longrightarrow> k = k')
    \<and> (leads_term s t i \<longrightarrow> leads_term s t j \<longrightarrow> i = j)
    \<and> (leads_term s t i \<longrightarrow> (t, peerIPs c ! i) \<in> set (s_elected s) \<and> length (peerIPs c) < 2 * card (voters s t (peerIPs c ! i)))"
proof -
  have inv: "einv c s" using elections.orderly_run [OF _ assms(3,4), of c] einv_init assms(1,2) by simp
  have lead: "i < length (peerIPs c) \<and> (t, peerIPs c ! i) \<in> set (s_elected s)" if "leads_term s t i" for i
    using that einvD(1) [OF inv] node_invD(10) [OF inv] by (auto simp: leads_term_def)
  show ?thesis
  proof (intro conjI impI)
    show "k = k'" if "(t, k) \<in> set (s_elected s)" "(t, k') \<in> set (s_elected s)" by (rule elected_unique [OF inv assms(1) that])
    show "i = j" if "leads_term s t i" "leads_term s t j"
      using elected_unique [OF inv assms(1), of t] lead [OF that(1)] lead [OF that(2)] assms(1) nth_eq_iff_index_eq by blast
    show "(t, peerIPs c ! i) \<in> set (s_elected s)" if "leads_term s t i" using lead [OF that] by simp
    then show "length (peerIPs c) < 2 * card (voters s t (peerIPs c ! i))" if "leads_term s t i"
      using einvD(8) [OF inv, of t "peerIPs c ! i"] that by linarith
  qed
qed

definition three_nodes :: process_config where
  "three_nodes = \<lparr>peerIPs = [''A'', ''B'', ''C''], clientPort = 10, internalBasePort = 20, eligibleLeaders = [],
     initialEligibleLeaders = [0, 1, 2], failureLeader = False, maxHeartbeats = 3, checkFalsePositive = False, tcpMonitor = False,
     latencyThreshold = 0\<rparr>"

definition no_rtt :: rtts where
  "no_rtt ip = None"

definition orderly_example :: "cluster_event list" where
  "orderly_example = [Timeout 0, Deliver 0 no_rtt, Deliver 0 no_rtt, Deliver 1 no_rtt, Deliver 1 no_rtt, Task 0, Task 0, Beat 0]"

theorem election_safety_witness:
  "case cluster_run (\<lambda>e. 10) orderly_example (cluster_init three_nodes) of
     None \<Rightarrow> False
   | Some s \<Rightarrow> leads_term s 1 0 \<and> \<not> leads_term s 1 1 \<and> (1, ''A'') \<in> set (s_elected s) \<and> 3 < 2 * card (voters s 1 ''A'')"
proof -
  have ord: "hazards (\<lambda>e. 10) orderly_example (cluster_init three_nodes) = Some []" by code_simp
  have lead: "case cluster_run (\<lambda>e. 10) orderly_example (cluster_init three_nodes) of None \<Rightarrow> False | Some s \<Rightarrow> leads_term s 1 0" by code_simp
  then obtain s where s: "cluster_run (\<lambda>e. 10) orderly_example (cluster_init three_nodes) = Some s" "leads_term s 1 0" by (auto split: option.splits)
  have c: "distinct (peerIPs three_nodes)" "[] \<notin> set (peerIPs three_nodes)" "peerIPs three_nodes = [''A'', ''B'', ''C'']"
    by (simp_all add: three_nodes_def)
  from election_safety [OF c(1,2) ord s(1), of 1 _ _ 0 1] s c(3) show ?thesis by (auto simp: numeral_3_eq_3)
qed

subsection \<open>What the hazards do\<close>

text \<open>Runs of three nodes; A, B and C are the nodes 0, 1 and 2.\<close>

abbreviation deliver :: "nat \<Rightarrow> cluster_event" where
  "deliver k \<equiv> Deliver k no_rtt"

text \<open>A counts its own vote twice and leads alone; B, not asked yet, votes for C in the same term.\<close>

definition duplicate_run :: "cluster_event list" where
  "duplicate_run = [Timeout 0, deliver 0, Copy 2, deliver 2, deliver 2, Task 0, Task 0,
     Timeout 2, deliver 3, deliver 3, deliver 3, deliver 3, Task 2, Task 2]"

text \<open>A leads term 2 with a vote that B cast in term 1; B is free to vote for C in term 2.\<close>

definition late_vote_run :: "cluster_event list" where
  "late_vote_run = [Timeout 0, deliver 1, Timeout 0, deliver 3, deliver 2, deliver 4, Timeout 2, Timeout 2, Task 0, Task 0,
     deliver 8, deliver 8, deliver 8, deliver 8, Task 2, Task 2]"

text \<open>A leads with B's vote; its heartbeat makes B forget that, and B votes for C in the same term.\<close>

definition forgotten_vote_run :: "cluster_event list" where
  "forgotten_vote_run = [Timeout 0, Timeout 2, deliver 0, deliver 0, deliver 4, deliver 4, Task 0, Task 0, Beat 0,
     deliver 5, deliver 2, deliver 2, deliver 5, deliver 5, Task 2, Task 2]"

text \<open>A has won term 1 and its task is queued; C wins term 2 with A's vote, then the task makes A a leader of term 2.\<close>

definition late_task_run :: "cluster_event list" where
  "late_task_run = [Timeout 0, deliver 0, deliver 0, deliver 1, deliver 1, Timeout 2, Timeout 2,
     deliver 4, deliver 5, deliver 5, deliver 5, Task 2, Task 2, Task 0, Task 0]"

text \<open>
  A led term 1, then voted for B in term 2 and heard from it; now A's failure timer fires, so A does not even know
  of B any more, and votes for C.
\<close>

definition late_failure_run :: "cluster_event list" where
  "late_failure_run = [Timeout 0, deliver 0, deliver 0, deliver 1, deliver 1, Task 0, Task 0, Beat 0,
     Timeout 1, deliver 4, deliver 4, deliver 5, deliver 5, Task 1, Task 1, Task 1, Beat 1, deliver 5, Fail 0,
     Timeout 2, Timeout 2, deliver 11, deliver 12, deliver 12, deliver 12, Task 2, Task 2]"

definition split_run :: "process_config \<Rightarrow> cluster_event list \<Rightarrow> hazard \<Rightarrow> bool" where
  "split_run c es h \<longleftrightarrow> hazards (\<lambda>e. 10) es (cluster_init c) = Some [h]
     \<and> (case cluster_run (\<lambda>e. 10) es (cluster_init c) of
          None \<Rightarrow> False
        | Some s \<Rightarrow> list_ex (\<lambda>i. list_ex (\<lambda>j. leads_term s (current_term (s_nodes s ! i)) i \<and> leads_term s (current_term (s_nodes s ! i)) j)
            [Suc i..<length (s_nodes s)]) [0..<length (s_nodes s)])"


end
