(* ===== verification/Raft_Replication.thy ===== *)
theory Raft_Replication
  imports Raft_Cluster
begin

text \<open>
  Log replication in \<open>src/node.cpp\<close>: what an accepted \<open>AppendEntries\<close> does to a follower's log, when the leader
  commits, how it cuts entries into messages, and what no step of a cluster undoes.
\<close>

subsection \<open>A follower's log\<close>

lemma containsEntry_nat:
  assumes "containsEntry l prev trm"
  shows "0 \<le> prev" "nat prev \<le> length (entries_of l)"
  using assms by (auto simp: containsEntry_def split: if_splits)

lemma containsEntry_take:
  assumes "containsEntry l prev trm" and "take (nat prev) (entries_of l') = take (nat prev) (entries_of l)"
    and "nat prev \<le> length (entries_of l')"
  shows "containsEntry l' prev trm"
proof (cases "prev = 0")
  case False
  with assms(1) containsEntry_nat [OF assms(1)] have "0 < prev" "int (length (entries_of l)) \<ge> prev"
    "le_term (entries_of l ! nat (prev - 1)) = trm" by (auto simp: containsEntry_def split: if_splits)
  moreover have "entries_of l' ! nat (prev - 1) = entries_of l ! nat (prev - 1)"
    using \<open>0 < prev\<close> arg_cong [OF assms(2), of "\<lambda>xs. xs ! nat (prev - 1)"] by simp
  ultimately show ?thesis using assms(3) by (simp add: containsEntry_def)
qed (simp add: containsEntry_def)

lemma insert_entries_at:
  assumes "containsEntry l prev trm"
  shows "entries_of (insert_entries l (prev + 1) es) =
    take (nat prev) (entries_of l) @ merged (drop (nat prev) (entries_of l)) es"
  using insert_entries_merged [OF containsEntry_nat(2) [OF assms], of es] containsEntry_nat(1) [OF assms] by simp

lemma append_entries_accepted:
  assumes "current_term n \<le> ae_term m" and "fst a \<noteq> self_ip n"
    and "containsEntry (raftLog n) (ae_prev_log_index m) (ae_prev_log_term m)"
  defines "n' \<equiv> fst (handle_append_entries n m a)"
  shows "entries_of (raftLog n') = take (nat (ae_prev_log_index m)) (entries_of (raftLog n))
      @ merged (drop (nat (ae_prev_log_index m)) (entries_of (raftLog n))) (ae_entries m)"
    and "commitIndex (raftLog n') = (if commitIndex (raftLog n) < ae_leader_commit m
      then min (ae_leader_commit m) (int (length (entries_of (raftLog n')))) else commitIndex (raftLog n))"
    and "role n' = FOLLOWER" "current_term n' = ae_term m" "current_leader n' = ae_leader_id m" "self_ip n' = self_ip n"
    and "snd (handle_append_entries n m a) = [respond n' a True (ae_prev_log_index m + int (length (ae_entries m)))]"
  using assms(1-3) unfolding n'_def
  by (simp_all add: handle_append_entries_def Let_def insert_entries_at self_ip_def)

text \<open>
  C13: A follower that accepts a message keeps its log up to the previous entry and as long as the terms agree, and
  replaces the rest from the first entry that differs; an entry that the message does not contradict is never lost. The
  answer names the index up to which both logs agree. The same message once more, or an earlier one of the
  same leader with fewer entries, leaves the entries as they are.
\<close>

theorem append_entries_refines:
  assumes "current_term n \<le> ae_term m" and "fst a \<noteq> self_ip n"
    and "containsEntry (raftLog n) (ae_prev_log_index m) (ae_prev_log_term m)"
    and "handle_append_entries n m a = (n', out)"
  shows "entries_of (raftLog n') = take (nat (ae_prev_log_index m)) (entries_of (raftLog n))
      @ merged (drop (nat (ae_prev_log_index m)) (entries_of (raftLog n))) (ae_entries m)
    \<and> map le_term (take (length (ae_entries m)) (drop (nat (ae_prev_log_index m)) (entries_of (raftLog n')))) = map le_term (ae_entries m)
    \<and> out = [respond n' a True (ae_prev_log_index m + int (length (ae_entries m)))]
    \<and> entries_of (raftLog (fst (handle_append_entries n' (m\<lparr>ae_entries := take k (ae_entries m), ae_leader_commit := c\<rparr>) a)))
        = entries_of (raftLog n')"
proof -
  let ?p = "nat (ae_prev_log_index m)" and ?m = "m\<lparr>ae_entries := take k (ae_entries m), ae_leader_commit := c\<rparr>"
  note first = append_entries_accepted [OF assms(1-3), unfolded assms(4) fst_conv snd_conv]
  note p = containsEntry_nat(2) [OF assms(3)]
  have keep: "take ?p (entries_of (raftLog n')) = take ?p (entries_of (raftLog n))"
    and drop: "drop ?p (entries_of (raftLog n')) = merged (drop ?p (entries_of (raftLog n))) (ae_entries m)"
    using p by (simp_all add: first(1))
  have "containsEntry (raftLog n') (ae_prev_log_index ?m) (ae_prev_log_term ?m)"
    using containsEntry_take [OF assms(3) keep] p by (simp add: first(1))
  from append_entries_accepted(1) [OF _ _ this, of a] have
    "entries_of (raftLog (fst (handle_append_entries n' ?m a))) = take ?p (entries_of (raftLog n)) @ merged (merged
        (drop ?p (entries_of (raftLog n))) (ae_entries m)) (take k (ae_entries m))"
    using assms(2) by (simp add: first(4,6) keep drop)
  then show ?thesis by (simp add: first(1,7) drop merged_terms merged_again p)
qed

definition pair_config :: process_config where
  "pair_config = \<lparr>peerIPs = [''A'', ''B'', ''C''], clientPort = 10, internalBasePort = 20, eligibleLeaders = [],
     initialEligibleLeaders = [0], failureLeader = False, maxHeartbeats = 3, checkFalsePositive = False, tcpMonitor = False,
     latencyThreshold = 0\<rparr>"

definition entry_at :: "int \<Rightarrow> int \<Rightarrow> log_entry" where
  "entry_at t r = \<lparr>le_term = t, le_command = ''x'', le_client_id = 1, le_request_id = r\<rparr>"

definition follower_example :: rnode where
  "follower_example = (Node pair_config 1)\<lparr>current_term := 2, raftLog := RaftLog\<lparr>entries_of := [entry_at 1 1, entry_at 1 2, entry_at 1 3]\<rparr>\<rparr>"

definition message_example :: append_entries where
  "message_example = \<lparr>ae_term = 2, ae_leader_id = (''A'', 10), ae_prev_log_index = 1, ae_prev_log_term = 1,
     ae_entries = [entry_at 1 2, entry_at 2 4], ae_leader_commit = 2, ae_id = 0\<rparr>"

theorem append_entries_refines_witness:
  "entries_of (raftLog (fst (handle_append_entries follower_example message_example (''A'', 20)))) = [entry_at 1 1, entry_at 1 2, entry_at 2 4]"
proof -
  have "current_term follower_example \<le> ae_term message_example" "fst (''A'', 20 :: int) \<noteq> self_ip follower_example"
    "containsEntry (raftLog follower_example) (ae_prev_log_index message_example) (ae_prev_log_term message_example)"
    by code_simp+
  from append_entries_refines [OF this surjective_pairing, of 0 0] show ?thesis
    by (simp add: follower_example_def message_example_def entry_at_def)
qed

subsection \<open>Cutting entries into messages\<close>

definition fits :: "(log_entry \<Rightarrow> nat) \<Rightarrow> log_entry \<Rightarrow> bool" where
  "fits sz e \<longleftrightarrow> kHdrSlackBytes + sz e \<le> kMtuBytes"

lemma fill_split: "es = fst (fill sz k es) @ snd (fill sz k es)"
  by (induction sz k es rule: fill.induct) (auto simp: Let_def)

lemma fill_bytes: "fst (fill sz k es) \<noteq> [] \<Longrightarrow> k + sum_list (map sz (fst (fill sz k es))) \<le> kMtuBytes"
  by (induction sz k es rule: fill.induct) (fastforce simp: Let_def split: if_splits)+

lemma fill_nonempty: "fits sz e \<Longrightarrow> fst (fill sz kHdrSlackBytes (e # es)) \<noteq> []"
  by (simp add: fits_def Let_def)

lemma fill_fits: "kHdrSlackBytes \<le> k \<Longrightarrow> e \<in> set (fst (fill sz k es)) \<Longrightarrow> fits sz e"
  by (induction sz k es rule: fill.induct) (auto simp: Let_def fits_def split: if_splits)

text \<open>The chunks carry the entries in order, with the index of their first entry.\<close>

fun consecutive :: "int \<Rightarrow> (int \<times> log_entry list) list \<Rightarrow> bool" where
  "consecutive i [] = True"
| "consecutive i (c # cs) = (fst c = i \<and> consecutive (i + int (length (snd c))) cs)"

definition chunk_ok :: "(log_entry \<Rightarrow> nat) \<Rightarrow> int \<times> log_entry list \<Rightarrow> bool" where
  "chunk_ok sz c \<longleftrightarrow> snd c \<noteq> [] \<and> kHdrSlackBytes + sum_list (map sz (snd c)) \<le> kMtuBytes"

lemma chunks_exist:
  "list_all (fits sz) es \<Longrightarrow> \<exists>cs. chunks sz i es = Some cs \<and> concat (map snd cs) = es \<and> list_all (chunk_ok sz) cs \<and> consecutive i cs"
proof (induction "length es" arbitrary: es i rule: less_induct)
  case less
  show ?case
  proof (cases es)
    case Nil
    then show ?thesis by (subst chunks.simps) simp
  next
    case (Cons e es')
    let ?c = "fst (fill sz kHdrSlackBytes es)" and ?r = "snd (fill sz kHdrSlackBytes es)"
    have split: "es = ?c @ ?r" by (rule fill_split)
    have c: "?c \<noteq> []" using less.prems unfolding Cons by (intro fill_nonempty) simp
    then have "length ?r < length es" using arg_cong [OF split, of length] by simp
    moreover have "list_all (fits sz) ?r" using less.prems split by (metis list_all_append)
    ultimately obtain cs where cs: "chunks sz (i + int (length ?c)) ?r = Some cs" "concat (map snd cs) = ?r"
      "list_all (chunk_ok sz) cs" "consecutive (i + int (length ?c)) cs" using less.hyps by blast
    have "chunks sz i es = Some ((i, ?c) # cs)" by (subst chunks.simps) (simp add: Cons [symmetric] cs(1), simp add: Cons)
    moreover have "chunk_ok sz (i, ?c)" using c fill_bytes [OF c] by (simp add: chunk_ok_def)
    ultimately show ?thesis using cs(2-4) split by (intro exI [of _ "(i, ?c) # cs"]) simp
  qed
qed

lemma chunks_fit: "chunks sz i es = Some cs \<Longrightarrow> list_all (fits sz) es"
proof (erule chunks.raw_induct [where P = "\<lambda>sz i es cs. list_all (fits sz) es", rotated])
  fix loop :: "(log_entry \<Rightarrow> nat) \<Rightarrow> int \<Rightarrow> log_entry list \<Rightarrow> (int \<times> log_entry list) list option" and sz i es cs
  let ?c = "fst (fill sz kHdrSlackBytes es)" and ?r = "snd (fill sz kHdrSlackBytes es)"
  assume IH: "\<And>sz i es cs. loop sz i es = Some cs \<Longrightarrow> list_all (fits sz) es"
    and body: "(if es = [] then Some [] else Option.bind (loop sz (i + int (length ?c)) ?r) (\<lambda>rest. Some ((i, ?c) # rest))) = Some cs"
  show "list_all (fits sz) es"
  proof (cases "es = []")
    case False
    with body obtain ds where "loop sz (i + int (length ?c)) ?r = Some ds" by (auto split: bind_splits)
    then have "list_all (fits sz) ?r" by (rule IH)
    moreover have "list_all (fits sz) ?c" using fill_fits by (auto simp: list_all_iff)
    ultimately show ?thesis using fill_split [of es sz kHdrSlackBytes] by (metis list_all_append)
  qed simp
qed

text \<open>
  C16: The loop that sends a follower the entries it lacks ends if every entry fits into a message of its own, and then
  the messages hold exactly these entries in order, none is empty or larger than 1400 bytes and each starts at
  the index where the one before it stopped. With one entry of more than 1336 bytes it never ends.
\<close>

theorem chunks_terminates:
  "case chunks sz i es of
     None \<Rightarrow> list_ex (\<lambda>e. 1336 < sz e) es
   | Some cs \<Rightarrow> list_all (\<lambda>e. sz e \<le> 1336) es \<and> concat (map snd cs) = es \<and> consecutive i cs
       \<and> list_all (\<lambda>c. snd c \<noteq> [] \<and> 64 + sum_list (map sz (snd c)) \<le> 1400) cs"
proof -
  have fits: "fits sz e \<longleftrightarrow> sz e \<le> 1336" for e by (auto simp: fits_def kMtuBytes_def kHdrSlackBytes_def)
  have ok: "chunk_ok sz c \<longleftrightarrow> snd c \<noteq> [] \<and> 64 + sum_list (map sz (snd c)) \<le> 1400" for c
    by (simp add: chunk_ok_def kMtuBytes_def kHdrSlackBytes_def)
  show ?thesis
  proof (cases "chunks sz i es")
    case None
    then have "\<not> list_all (fits sz) es" using chunks_exist [of sz es i] by auto
    then show ?thesis unfolding None by (auto simp: fits list_all_iff list_ex_iff not_le)
  next
    case (Some cs)
    from chunks_fit [OF this] chunks_exist [of sz es i] Some show ?thesis by (auto simp: fits ok list_all_iff)
  qed
qed

subsection \<open>Committing\<close>

lemma foldl_latest:
  fixes xs :: "int list"
  assumes "sorted xs"
  shows "(foldl (\<lambda>c i. if P i then i else c) c xs = c \<and> list_all (\<lambda>i. \<not> P i) xs)
    \<or> (foldl (\<lambda>c i. if P i then i else c) c xs \<in> set xs \<and> P (foldl (\<lambda>c i. if P i then i else c) c xs)
       \<and> list_all (\<lambda>i. P i \<longrightarrow> i \<le> foldl (\<lambda>c i. if P i then i else c) c xs) xs)"
  using assms
proof (induction xs rule: rev_induct)
  case (snoc x xs)
  then show ?case by (auto simp: sorted_append list_all_iff)
qed simp

lemma new_commit_index_cases:
  obtains (same) "new_commit_index n = commitIndex (raftLog n)"
      "\<And>i. commitIndex (raftLog n) < i \<Longrightarrow> i \<le> getLastLogIndex (raftLog n) \<Longrightarrow> \<not> may_commit n i"
    | (more) "commitIndex (raftLog n) < new_commit_index n" "new_commit_index n \<le> getLastLogIndex (raftLog n)" "may_commit n (new_commit_index n)"
      "\<And>i. commitIndex (raftLog n) < i \<Longrightarrow> i \<le> getLastLogIndex (raftLog n) \<Longrightarrow> may_commit n i \<Longrightarrow> i \<le> new_commit_index n"
proof -
  have "sorted [commitIndex (raftLog n) + 1..getLastLogIndex (raftLog n)]" by simp
  from foldl_latest [OF this, of "may_commit n" "commitIndex (raftLog n)", folded new_commit_index_def]
  show thesis
  proof (elim disjE conjE)
    assume "new_commit_index n = commitIndex (raftLog n)" "list_all (\<lambda>i. \<not> may_commit n i) [commitIndex (raftLog n) + 1..getLastLogIndex (raftLog n)]"
    then show thesis by (intro same) (auto simp: list_all_iff)
  next
    assume "new_commit_index n \<in> set [commitIndex (raftLog n) + 1..getLastLogIndex (raftLog n)]" "may_commit n (new_commit_index n)"
      "list_all (\<lambda>i. may_commit n i \<longrightarrow> i \<le> new_commit_index n) [commitIndex (raftLog n) + 1..getLastLogIndex (raftLog n)]"
    then show thesis by (intro more) (auto simp: list_all_iff)
  qed
qed

text \<open>The replicas that hold an entry, as far as a leader knows: itself and the peers that confirmed it.\<close>

definition holders :: "rnode \<Rightarrow> int \<Rightarrow> string set" where
  "holders n i = insert (self_ip n) {ip \<in> set (peerIPs (config n)). i \<le> dict_get (match_index n) ip 0}"

lemma replicated_on_holders:
  assumes "distinct (peerIPs (config n))" and "dict_get (match_index n) (self_ip n) 0 < i"
  shows "replicated_on n i = int (card (holders n i))"
proof -
  let ?A = "{ip \<in> set (peerIPs (config n)). i \<le> dict_get (match_index n) ip 0}"
  have "length (filter (\<lambda>ip. i \<le> dict_get (match_index n) ip 0) (peerIPs (config n))) = card ?A"
    using distinct_card [OF distinct_filter [OF assms(1)]] by simp
  moreover have "card (holders n i) = Suc (card ?A)" unfolding holders_def using assms(2) by (intro card_insert_disjoint) auto
  ultimately show ?thesis by (simp add: replicated_on_def)
qed

text \<open>An entry may be committed: enough replicas hold it, and it is of the leader's own term.\<close>

definition committable :: "rnode \<Rightarrow> int \<Rightarrow> bool" where
  "committable n i \<longleftrightarrow> majority_count n \<le> replicated_on n i \<and> map_option le_term (getEntry (raftLog n) i) = Some (current_term n)"

lemma may_commit_committable: "may_commit n = committable n"
  by (rule ext) (simp add: may_commit_def committable_def split: option.splits)


definition leader_example :: "nat \<Rightarrow> rnode" where
  "leader_example k = (Node (pair_config\<lparr>peerIPs := take k [''A'', ''B'', ''C'', ''D'']\<rparr>) 0)\<lparr>role := LEADER, current_term := 2,
     raftLog := RaftLog\<lparr>entries_of := [entry_at 1 1, entry_at 2 2]\<rparr>, match_index := [(''B'', 2), (''C'', 0), (''D'', 0)],
     client_id_to_addr := [(1, (''Z'', 9))]\<rparr>"


text \<open>With four replicas an entry that only two of them hold is committed.\<close>

theorem even_commit:
  "commitIndex (raftLog (fst (updated_commit_index (leader_example 4)))) = 2 \<and> replicated_on (leader_example 4) 2 = 2"
  by code_simp

end
