(* ===== verification/Raft_Progress.thy ===== *)
theory Raft_Progress
  imports Raft_Cluster
begin

text \<open>
  What holds in every run of a cluster, hazards or not: the identity of a node is fixed, its term never falls, and as long as
  it leads it only appends to its log. And what holds when no node may start: without an eligible first
  leader no term ever begins.
\<close>

subsection \<open>Progress\<close>

definition advances :: "rnode \<Rightarrow> rnode \<Rightarrow> bool" where
  "advances n n' \<longleftrightarrow> config n' = config n \<and> replica_id n' = replica_id n \<and> current_term n \<le> current_term n'
     \<and> (role n = LEADER \<longrightarrow> role n' = LEADER \<longrightarrow> prefix (entries_of (raftLog n)) (entries_of (raftLog n')))"

lemma advances_refl [simp]: "advances n n"
  by (simp add: advances_def)

lemma timeout_advances: "advances n (fst (election_timeout_cb n))"
  by (simp add: election_timeout_cb_def advances_def Let_def)

lemma request_vote_advances: "advances n (fst (handle_request_vote n q a))"
  by (simp add: handle_request_vote_def advances_def Let_def)

lemma vote_response_advances: "advances n (fst (handle_vote_response n q))"
  by (simp add: handle_vote_response_def advances_def Let_def)

lemma append_entries_advances: "advances n (fst (handle_append_entries n m a))"
  by (simp add: handle_append_entries_def advances_def Let_def)

lemma commit_index_advances: "advances n (fst (updated_commit_index n))"
  by (simp add: updated_commit_index_def advances_def Let_def)

lemma append_response_advances: "advances n (fst (handle_append_entries_response n r a))"
  by (simp add: handle_append_entries_response_def updated_commit_index_def advances_def Let_def)

lemma propose_all_keeps:
  assumes "propose_all sz t ci ips r = Some r'"
  shows "config (fst r') = config (fst r) \<and> replica_id (fst r') = replica_id (fst r) \<and> current_term (fst r') = current_term (fst r)
    \<and> raftLog (fst r') = raftLog (fst r)"
  using assms
proof (induction sz t ci ips r rule: propose_all.induct)
  case (2 sz t ci ip ips r)
  then obtain r1 where r1: "propose_to sz t ci ip r = Some r1" "propose_all sz t ci ips r1 = Some r'" by (auto split: option.splits)
  from r1(1) have "config (fst r1) = config (fst r) \<and> replica_id (fst r1) = replica_id (fst r)
      \<and> current_term (fst r1) = current_term (fst r) \<and> raftLog (fst r1) = raftLog (fst r)"
    by (auto simp: propose_to_def Let_def split: if_splits)
  with "2.IH" [OF r1] show ?case by simp
qed simp

lemma client_request_advances:
  assumes "handle_client_request sz n q a = Some r"
  shows "advances n (fst r)"
  using assms
proof (cases rule: client_request_cases)
  case proposed
  from propose_all_keeps [OF this] show ?thesis by (simp add: advances_def entered_def)
qed simp

lemma received_advances:
  assumes "handleReceived sz rtt n m a = Some r"
  shows "advances n (fst r)"
proof (cases m)
  case (CLIENT_REQUEST q)
  with assms show ?thesis by (intro client_request_advances [of sz n q a r]) (simp add: handleReceived_def)
next
  case (PENALTY_SCORE q)
  with assms show ?thesis by (auto simp: handleReceived_def handle_penalty_score_def advances_def)
next
  case (PETITION q)
  with assms show ?thesis by (auto simp: handleReceived_def handle_petition_def Let_def advances_def)
qed (use assms in \<open>auto simp: handleReceived_def request_vote_advances vote_response_advances append_entries_advances
    append_response_advances\<close>)

lemma step_advances:
  assumes "step sz e s = Some s'"
  shows "length (s_nodes s') = length (s_nodes s)" "i < length (s_nodes s) \<Longrightarrow> advances (s_nodes s ! i) (s_nodes s' ! i)"
proof -
  have put: "length (s_nodes (put_node j r s0)) = length (s_nodes s0)
      \<and> (i < length (s_nodes s0) \<longrightarrow> advances (s_nodes s0 ! j) (fst r) \<longrightarrow> advances (s_nodes s0 ! i) (s_nodes (put_node j r s0) ! i))" for j r s0
    by (cases "i = j") (auto simp: put_node_def)
  have "length (s_nodes s') = length (s_nodes s) \<and> (i < length (s_nodes s) \<longrightarrow> advances (s_nodes s ! i) (s_nodes s' ! i))"
  proof (cases e)
    case (Timeout j)
    with assms show ?thesis using put [of j "election_timeout_cb (s_nodes s ! j)" s] timeout_advances by (auto split: if_splits)
  next
    case (Deliver k rtt)
    show ?thesis
    proof (cases "receiver (s_nodes s) (dg_dst (s_net s ! k))")
      case None
      with assms Deliver show ?thesis by (auto simp: Let_def split: if_splits)
    next
      case (Some j)
      let ?s = "s\<lparr>s_net := take k (s_net s) @ drop (Suc k) (s_net s), s_tally := s_tally s @ counted_votes (s_nodes s ! j) (s_net s ! k)\<rparr>"
      from assms Deliver Some obtain r where r: "handleReceived sz rtt (s_nodes s ! j) (dg_msg (s_net s ! k)) (dg_src (s_net s ! k)) = Some r"
        "s' = put_node j r ?s" by (auto simp: Let_def split: if_splits)
      then show ?thesis using put [of j r ?s] received_advances [OF r(1)] by simp
    qed
  next
    case (Task j)
    have "advances (s_nodes s ! j) (run_task (s_nodes s ! j))"
      by (auto simp: run_task_def become_leader_def advances_def Let_def split: list.splits task.splits)
    with assms Task show ?thesis using put [of j "(run_task (s_nodes s ! j), [])" s] by (auto simp: Let_def split: if_splits)
  next
    case (Beat j)
    have "advances (s_nodes s ! j) (fst (send_heartbeat (s_nodes s ! j)))" by (auto simp: send_heartbeat_def advances_def Let_def)
    with assms Beat show ?thesis using put [of j "send_heartbeat (s_nodes s ! j)" s] by (auto split: if_splits)
  next
    case (Fail j)
    have "advances (s_nodes s ! j) (failure_cb (s_nodes s ! j))" by (simp add: failure_cb_def advances_def)
    with assms Fail show ?thesis using put [of j "(failure_cb (s_nodes s ! j), [])" s] by (auto split: if_splits)
  next
    case (Penalty j rtt)
    have "advances (s_nodes s ! j) (fst (calculate_and_send_penalty_score rtt (s_nodes s ! j)))"
      by (simp add: calculate_and_send_penalty_score_def advances_def split_beta Let_def)
    with assms Penalty show ?thesis using put [of j "calculate_and_send_penalty_score rtt (s_nodes s ! j)" s] by (auto split: if_splits)
  qed (use assms in \<open>auto split: if_splits\<close>)
  then show "length (s_nodes s') = length (s_nodes s)" "i < length (s_nodes s) \<Longrightarrow> advances (s_nodes s ! i) (s_nodes s' ! i)" by simp_all
qed

text \<open>The node leads before and after every event of the run.\<close>

fun leads_throughout :: "(log_entry \<Rightarrow> nat) \<Rightarrow> nat \<Rightarrow> cluster_event list \<Rightarrow> cluster \<Rightarrow> bool" where
  "leads_throughout sz i [] s = (role (s_nodes s ! i) = LEADER)"
| "leads_throughout sz i (e # es) s = (role (s_nodes s ! i) = LEADER
     \<and> (case step sz e s of None \<Rightarrow> False | Some s' \<Rightarrow> leads_throughout sz i es s'))"

lemma leads_throughout_now: "leads_throughout sz i es s \<Longrightarrow> role (s_nodes s ! i) = LEADER"
  by (cases es) simp_all

text \<open>
  C17: In every run, from any state and with any hazards, no node is added or lost, each keeps its configuration and its
  number, its term never falls, and the log of a node that leads throughout the run only grows at its end.
\<close>

theorem raft_progress:
  assumes "cluster_run sz es s = Some s'"
  shows "length (s_nodes s') = length (s_nodes s) \<and> list_all (\<lambda>i. config (s_nodes s' ! i) = config (s_nodes s ! i)
      \<and> replica_id (s_nodes s' ! i) = replica_id (s_nodes s ! i) \<and> current_term (s_nodes s ! i) \<le> current_term (s_nodes s' ! i)
      \<and> (if leads_throughout sz i es s then prefix (entries_of (raftLog (s_nodes s ! i))) (entries_of (raftLog (s_nodes s' ! i))) else True))
    [0..<length (s_nodes s)]"
  using assms
proof (induction sz es s rule: cluster_run.induct)
  case (2 sz e es s)
  then obtain s1 where s1: "step sz e s = Some s1" "cluster_run sz es s1 = Some s'" by (auto split: option.splits)
  note one = step_advances [OF s1(1)] and rest = "2.IH" [OF s1]
  have "prefix (entries_of (raftLog (s_nodes s ! i))) (entries_of (raftLog (s_nodes s' ! i)))"
    if i: "i < length (s_nodes s)" and lead: "leads_throughout sz i (e # es) s" for i
  proof -
    from lead s1(1) have "role (s_nodes s ! i) = LEADER" "leads_throughout sz i es s1" by simp_all
    moreover from this(2) have "role (s_nodes s1 ! i) = LEADER" by (rule leads_throughout_now)
    ultimately show ?thesis using one(2) [OF i] rest one(1) i
      by (auto simp: advances_def list_all_iff intro: prefix_order.order_trans)
  qed
  then show ?case using one rest by (auto simp: advances_def list_all_iff split: option.splits) (fastforce intro: order_trans)+
qed (simp add: list_all_iff)

definition progress_config :: "int list \<Rightarrow> process_config" where
  "progress_config initial = \<lparr>peerIPs = [''A'', ''B'', ''C''], clientPort = 10, internalBasePort = 20, eligibleLeaders = [],
     initialEligibleLeaders = initial, failureLeader = False, maxHeartbeats = 3, checkFalsePositive = False, tcpMonitor = False,
     latencyThreshold = 0\<rparr>"

definition progress_state :: cluster where
  "progress_state = (let s = cluster_init (progress_config [0]) in
     s\<lparr>s_nodes := (s_nodes s)[0 := become_leader ((s_nodes s ! 0)\<lparr>current_term := 1\<rparr>)]\<rparr>)"

definition progress_events :: "cluster_event list" where
  "progress_events = [Request (''Z'', 9) (''A'', 10) \<lparr>cq_command = ''x'', cq_client_id = 1, cq_request_id = 1\<rparr>,
     Deliver 0 (\<lambda>ip. None), Deliver 0 (\<lambda>ip. None)]"

theorem raft_progress_witness:
  "case cluster_run (\<lambda>e. 10) progress_events progress_state of
     None \<Rightarrow> False
   | Some s \<Rightarrow> length (entries_of (raftLog (s_nodes s ! 0))) = 1 \<and> current_term (s_nodes s ! 1) = 1
       \<and> prefix (entries_of (raftLog (s_nodes progress_state ! 0))) (entries_of (raftLog (s_nodes s ! 0)))"
proof -
  have lead: "leads_throughout (\<lambda>e. 10) 0 progress_events progress_state" by code_simp
  have "case cluster_run (\<lambda>e. 10) progress_events progress_state of None \<Rightarrow> False
      | Some s \<Rightarrow> length (entries_of (raftLog (s_nodes s ! 0))) = 1 \<and> current_term (s_nodes s ! 1) = 1" by code_simp
  then obtain s where s: "cluster_run (\<lambda>e. 10) progress_events progress_state = Some s" "length (entries_of (raftLog (s_nodes s ! 0))) = 1"
    "current_term (s_nodes s ! 1) = 1" by (auto split: option.splits)
  have "length (s_nodes progress_state) = 3" by code_simp
  with raft_progress [OF s(1)] lead s show ?thesis by (simp add: list_all_iff)
qed

subsection \<open>A cluster that never starts\<close>

definition dormant :: "rnode \<Rightarrow> bool" where
  "dormant n \<longleftrightarrow> role n = FOLLOWER \<and> current_term n = 0 \<and> current_leader n = no_leader \<and> election_async_tasks n = []
     \<and> \<not> heartbeat_timer n \<and> \<not> failure_timer n \<and> int (replica_id n) \<notin> set (initialEligibleLeaders (config n))"

definition idle_msg :: "datagram \<Rightarrow> bool" where
  "idle_msg d = (case dg_msg d of
       REQUEST_VOTE r \<Rightarrow> rv_is_petition r \<and> rv_term r = 0
     | VOTE_RESPONSE r \<Rightarrow> False
     | APPEND_ENTRIES m \<Rightarrow> False
     | CLIENT_RESPONSE r \<Rightarrow> \<not> cs_success r
     | _ \<Rightarrow> True)"

definition asleep :: "cluster \<Rightarrow> bool" where
  "asleep s \<longleftrightarrow> list_all dormant (s_nodes s) \<and> list_all idle_msg (s_net s) \<and> s_elected s = []"

lemma asleep_put:
  assumes "asleep s" "dormant (fst r)" "list_all idle_msg (snd r)" "list_all idle_msg net"
  shows "asleep (put_node i r (s\<lparr>s_net := net, s_tally := t\<rparr>))"
proof -
  have "set ((s_nodes s)[i := fst r]) \<subseteq> insert (fst r) (set (s_nodes s))" by (rule set_update_subset_insert)
  then show ?thesis using assms by (auto simp: asleep_def put_node_def list_all_iff)
qed

lemma dormant_timeout: "dormant n \<Longrightarrow> dormant (fst (election_timeout_cb n)) \<and> snd (election_timeout_cb n) = []"
  by (simp add: election_timeout_cb_def dormant_def no_leader_def Let_def)

lemma dormant_penalty:
  assumes "dormant n"
  shows "dormant (fst (calculate_and_send_penalty_score rtt n)) \<and> list_all idle_msg (snd (calculate_and_send_penalty_score rtt n))"
proof -
  have "list_all idle_msg (snd (compute_penalty_score rtt n))"
    by (simp add: compute_penalty_score_def idle_msg_def send_petition_def sendToPeer_def split: option.splits)
  then show ?thesis using assms
    by (auto simp: calculate_and_send_penalty_score_def dormant_def split_beta Let_def list_all_iff idle_msg_def sendToPeer_def)
qed

lemma dormant_petition:
  assumes "dormant n"
  shows "dormant (fst (handle_petition rtt n m)) \<and> list_all idle_msg (snd (handle_petition rtt n m))"
  using assms by (simp add: handle_petition_def send_request_vote_petition_def vote_request_def idle_msg_def sendToPeer_def dormant_def Let_def)

lemma dormant_receive:
  assumes "dormant n" "idle_msg d" and r: "handleReceived sz rtt n (dg_msg d) a = Some r"
  shows "dormant (fst r) \<and> list_all idle_msg (snd r)"
proof (cases "dg_msg d")
  case (PETITION m)
  with r dormant_petition [OF assms(1), of rtt m] show ?thesis by (auto simp: handleReceived_def)
qed (use assms in \<open>auto simp: handleReceived_def handle_request_vote_def handle_vote_response_def handle_append_entries_response_def
    handle_penalty_score_def handle_client_request_def sendToClient_def idle_msg_def dormant_def\<close>)

lemma asleep_step:
  assumes s: "asleep s" and step: "step sz e s = Some s'"
  shows "asleep s'"
proof -
  have node: "dormant (s_nodes s ! i)" if "i < length (s_nodes s)" for i using s that by (simp add: asleep_def list_all_length)
  have net: "list_all idle_msg (s_net s)" using s by (simp add: asleep_def)
  have sub: "list_all idle_msg (take k (s_net s) @ drop (Suc k) (s_net s))" for k
    using net by (auto simp: list_all_iff dest: in_set_takeD in_set_dropD)
  note put = asleep_put [OF s, where net = "s_net s" and t = "s_tally s", simplified]
  show ?thesis
  proof (cases e)
    case (Timeout i)
    with step show ?thesis using put [of "election_timeout_cb (s_nodes s ! i)" i] dormant_timeout [OF node [of i]] net by (auto split: if_splits)
  next
    case (Deliver k rtt)
    with step have k: "k < length (s_net s)" by (simp split: if_splits)
    then have d: "idle_msg (s_net s ! k)" using net by (simp add: list_all_length)
    show ?thesis
    proof (cases "receiver (s_nodes s) (dg_dst (s_net s ! k))")
      case None
      with step Deliver k show ?thesis using s sub by (auto simp: Let_def asleep_def)
    next
      case (Some i)
      then have i: "i < length (s_nodes s)" by (auto simp: receiver_def find_Some_iff)
      from step Deliver k Some obtain r t where r: "handleReceived sz rtt (s_nodes s ! i) (dg_msg (s_net s ! k)) (dg_src (s_net s ! k)) = Some r"
        "s' = put_node i r (s\<lparr>s_net := take k (s_net s) @ drop (Suc k) (s_net s), s_tally := t\<rparr>)" by (auto simp: Let_def)
      then show ?thesis using asleep_put [OF s _ _ sub] dormant_receive [OF node [OF i] d r(1)] by simp
    qed
  next
    case (Copy k)
    with step show ?thesis using s by (auto simp: asleep_def list_all_iff split: if_splits)
  next
    case (Task i)
    with step show ?thesis using node [of i] by (auto simp: dormant_def split: if_splits)
  next
    case (Beat i)
    with step show ?thesis using node [of i] by (auto simp: dormant_def split: if_splits)
  next
    case (Fail i)
    with step show ?thesis using node [of i] by (auto simp: dormant_def split: if_splits)
  next
    case (Penalty i rtt)
    with step show ?thesis using put [of "calculate_and_send_penalty_score rtt (s_nodes s ! i)" i] dormant_penalty [OF node [of i]] net
      by (auto split: if_splits)
  qed (use step s sub in \<open>auto simp: asleep_def idle_msg_def split: if_splits\<close>)
qed

interpretation sleeping: cluster_invariant asleep
  by unfold_locales (rule asleep_step)

text \<open>
  C32: When no replica is listed in \<open>initialEligibleLeaders\<close>, which is so when the configuration does not mention it, no run
  ever gets a leader: every node stays a follower of term 0, whatever times out or arrives, and no client request succeeds.
\<close>

theorem never_starts:
  assumes "list_all (\<lambda>i. int i \<notin> set (initialEligibleLeaders c)) [0..<length (peerIPs c)]" and "cluster_run sz es (cluster_init c) = Some s"
  shows "s_elected s = [] \<and> list_all (\<lambda>n. role n = FOLLOWER \<and> current_term n = 0) (s_nodes s)
    \<and> list_all (\<lambda>d. case dg_msg d of CLIENT_RESPONSE r \<Rightarrow> \<not> cs_success r | APPEND_ENTRIES m \<Rightarrow> False | _ \<Rightarrow> True) (s_net s)"
proof -
  have "asleep (cluster_init c)" using assms(1) by (simp add: asleep_def cluster_init_def list_all_iff dormant_def Node_def)
  then have "asleep s" using assms(2) by (rule sleeping.every_run)
  then show ?thesis by (auto simp: asleep_def list_all_iff dormant_def idle_msg_def split: msg.splits)
qed

theorem never_starts_witness:
  "case cluster_run (\<lambda>e. 10) [Timeout 0, Timeout 1, hd progress_events, Deliver 0 (\<lambda>ip. None)] (cluster_init (progress_config [])) of
     None \<Rightarrow> False | Some s \<Rightarrow> s_elected s = [] \<and> length (s_net s) = 1"
proof -
  let ?es = "[Timeout 0, Timeout 1, hd progress_events, Deliver 0 (\<lambda>ip. None)]"
  have init: "list_all (\<lambda>i. int i \<notin> set (initialEligibleLeaders (progress_config []))) [0..<length (peerIPs (progress_config []))]"
    by (simp add: progress_config_def list_all_iff)
  have "case cluster_run (\<lambda>e. 10) ?es (cluster_init (progress_config [])) of None \<Rightarrow> False | Some s \<Rightarrow> length (s_net s) = 1" by code_simp
  then obtain s where s: "cluster_run (\<lambda>e. 10) ?es (cluster_init (progress_config [])) = Some s" "length (s_net s) = 1" by (auto split: option.splits)
  from never_starts [OF init s(1)] s show ?thesis by simp
qed

end
