(* ===== verification/Raft_Types.thy ===== *)
theory Raft_Types
  imports Raft_Cluster
begin

text \<open>
  The shape of a replica's state (\<open>src/node.h\<close>): its maps have every key once, counters, terms and the commit index are not
  negative, the index to send next to a follower is at least 1 and what a follower has confirmed is not negative.
  Every handler of \<open>src/node.cpp\<close> keeps it, whatever message arrives.
\<close>

definition next_ok :: "(string, int) dict \<Rightarrow> bool" where
  "next_ok d \<longleftrightarrow> wf_dict d \<and> list_all (\<lambda>p. 1 \<le> snd p) d"

definition match_ok :: "(string, int) dict \<Rightarrow> bool" where
  "match_ok d \<longleftrightarrow> wf_dict d \<and> list_all (\<lambda>p. 0 \<le> snd p) d"

definition rnode_wf :: "rnode \<Rightarrow> bool" where
  "rnode_wf n \<longleftrightarrow> wf_dict (latency_to_leader n) \<and> wf_dict (penalty_scores n) \<and> wf_dict (inflight n) \<and> wf_dict (client_id_to_addr n)
     \<and> next_ok (next_index n) \<and> match_ok (match_index n)
     \<and> 0 \<le> current_term n \<and> 0 \<le> votes_received n \<and> 0 \<le> heartbeat_count n \<and> 0 \<le> heartbeat_current_term n
     \<and> 0 \<le> suspected_leader_failures n \<and> 0 \<le> recv_heartbeat_count n \<and> 0 \<le> petition_count n \<and> 0 \<le> commitIndex (raftLog n)"

lemma next_ok_update: "next_ok d \<Longrightarrow> 1 \<le> v \<Longrightarrow> next_ok (AList.update k v d)"
  using set_update_subset [of k v d] by (auto simp: next_ok_def list_all_iff)

lemma match_ok_update: "match_ok d \<Longrightarrow> 0 \<le> v \<Longrightarrow> match_ok (AList.update k v d)"
  using set_update_subset [of k v d] by (auto simp: match_ok_def list_all_iff)

lemma next_ok_foldl: "next_ok d \<Longrightarrow> 1 \<le> v \<Longrightarrow> next_ok (foldl (\<lambda>d k. AList.update k v d) d ks)"
  by (induction ks arbitrary: d) (simp_all add: next_ok_update)

lemma match_ok_foldl: "match_ok d \<Longrightarrow> 0 \<le> v \<Longrightarrow> match_ok (foldl (\<lambda>d k. AList.update k v d) d ks)"
  by (induction ks arbitrary: d) (simp_all add: match_ok_update)

lemma match_ok_get: "match_ok d \<Longrightarrow> 0 \<le> dict_get d k 0"
  by (force simp: match_ok_def dict_get_def list_all_iff dest: map_of_SomeD split: option.splits)

lemma Node_wf: "distinct (peerIPs c) \<Longrightarrow> rnode_wf ((Node c i)\<lparr>election_timer := b\<rparr>)"
  by (simp add: rnode_wf_def Node_def next_ok_def match_ok_def RaftLog_def wf_dict_def o_def)

lemma timeout_wf: "rnode_wf n \<Longrightarrow> rnode_wf (fst (election_timeout_cb n))"
  by (simp add: election_timeout_cb_def rnode_wf_def Let_def)

lemma request_vote_wf: "rnode_wf n \<Longrightarrow> rnode_wf (fst (handle_request_vote n q a))"
  by (simp add: handle_request_vote_def rnode_wf_def Let_def)

lemma vote_response_wf: "rnode_wf n \<Longrightarrow> rnode_wf (fst (handle_vote_response n q))"
  by (simp add: handle_vote_response_def rnode_wf_def Let_def)

lemma append_entries_wf: "rnode_wf n \<Longrightarrow> rnode_wf (fst (handle_append_entries n m a))"
  by (simp add: handle_append_entries_def rnode_wf_def Let_def min_def)

lemma run_task_wf: "rnode_wf n \<Longrightarrow> rnode_wf (run_task n)"
  by (auto simp: run_task_def become_leader_def rnode_wf_def Let_def next_ok_foldl match_ok_foldl split: list.splits task.splits)

lemma heartbeat_wf: "rnode_wf n \<Longrightarrow> rnode_wf (fst (send_heartbeat n))"
  by (simp add: send_heartbeat_def rnode_wf_def Let_def)

lemma failure_wf: "rnode_wf n \<Longrightarrow> rnode_wf (failure_cb n)"
  by (simp add: failure_cb_def rnode_wf_def)

lemma petition_wf: "rnode_wf n \<Longrightarrow> rnode_wf (fst (handle_petition rtt n m))"
  by (simp add: handle_petition_def rnode_wf_def Let_def)

lemma penalty_score_wf: "rnode_wf n \<Longrightarrow> rnode_wf (handle_penalty_score n m)"
  by (simp add: handle_penalty_score_def rnode_wf_def)

lemma penalty_wf: "rnode_wf n \<Longrightarrow> rnode_wf (fst (calculate_and_send_penalty_score rtt n))"
  by (simp add: calculate_and_send_penalty_score_def rnode_wf_def split_beta Let_def)

lemma new_commit_index_ge: "commitIndex (raftLog n) \<le> new_commit_index n"
proof -
  have "c \<le> foldl (\<lambda>c i. if P i then i else c) c xs" if "list_all (\<lambda>i. c \<le> i) xs" for c :: int and P xs
    using that by (induction xs rule: rev_induct) auto
  then show ?thesis by (simp add: new_commit_index_def list_all_iff)
qed

lemma append_response_wf:
  assumes "rnode_wf n"
  shows "rnode_wf (fst (handle_append_entries_response n r a))"
proof -
  have commit: "rnode_wf (fst (updated_commit_index n'))" if "rnode_wf n'" for n'
    using that new_commit_index_ge [of n'] by (simp add: updated_commit_index_def rnode_wf_def Let_def)
  have "0 \<le> dict_get (match_index n) (fst a) 0" using assms match_ok_get by (simp add: rnode_wf_def)
  then show ?thesis using assms
    by (auto simp: handle_append_entries_response_def Let_def rnode_wf_def next_ok_update match_ok_update
        intro!: commit [unfolded rnode_wf_def])
qed

lemma propose_all_wf:
  "propose_all sz t ci ips r = Some r' \<Longrightarrow> rnode_wf (fst r) \<Longrightarrow> rnode_wf (fst r')"
proof (induction sz t ci ips r rule: propose_all.induct)
  case (2 sz t ci ip ips r)
  then obtain r1 where r1: "propose_to sz t ci ip r = Some r1" "propose_all sz t ci ips r1 = Some r'" by (auto split: option.splits)
  from r1(1) "2.prems"(2) have "rnode_wf (fst r1)" by (auto simp: propose_to_def Let_def rnode_wf_def split: if_splits)
  from "2.IH" [OF r1 this] show ?case .
qed simp

lemma client_request_wf:
  assumes "rnode_wf n" and "handle_client_request sz n q a = Some r"
  shows "rnode_wf (fst r)"
  using assms(2)
proof (cases rule: client_request_cases)
  case proposed
  have "rnode_wf (entered n q a)" using assms(1) by (simp add: rnode_wf_def entered_def)
  with propose_all_wf [OF proposed] show ?thesis by simp
qed (use assms(1) in simp)

lemma received_wf:
  assumes "rnode_wf n" and "handleReceived sz rtt n m a = Some r"
  shows "rnode_wf (fst r)"
proof (cases m)
  case (CLIENT_REQUEST q)
  with assms show ?thesis by (intro client_request_wf [of n sz q a r]) (simp_all add: handleReceived_def)
qed (use assms in \<open>auto simp: handleReceived_def request_vote_wf vote_response_wf append_entries_wf append_response_wf
    penalty_score_wf petition_wf\<close>)

lemma put_node_wf:
  assumes "list_all rnode_wf (s_nodes s)" and "rnode_wf (fst r)"
  shows "list_all rnode_wf (s_nodes (put_node i r s))"
  using assms set_update_subset_insert [of "s_nodes s" i "fst r"] by (auto simp: put_node_def list_all_iff)

lemma step_wf:
  assumes s: "list_all rnode_wf (s_nodes s)" and step: "step sz e s = Some s'"
  shows "list_all rnode_wf (s_nodes s')"
proof -
  have node: "rnode_wf (s_nodes s ! i)" if "i < length (s_nodes s)" for i using s that by (simp add: list_all_length)
  show ?thesis
  proof (cases e)
    case (Timeout i)
    with step s show ?thesis by (auto intro!: put_node_wf timeout_wf node split: if_splits)
  next
    case (Deliver k rtt)
    show ?thesis
    proof (cases "receiver (s_nodes s) (dg_dst (s_net s ! k))")
      case None
      with step s Deliver show ?thesis by (auto simp: Let_def split: if_splits)
    next
      case (Some i)
      then have "rnode_wf (s_nodes s ! i)" by (intro node) (auto simp: receiver_def find_Some_iff)
      from received_wf [OF this, of sz rtt "dg_msg (s_net s ! k)" "dg_src (s_net s ! k)"] step s Deliver Some show ?thesis by (auto simp: Let_def intro!: put_node_wf split: if_splits)
    qed
  next
    case (Task i)
    then have "i < length (s_nodes s)" using step by (simp split: if_splits)
    from put_node_wf [OF s, of "(run_task (s_nodes s ! i), [])" i] run_task_wf [OF node [OF this]] step Task show ?thesis
      by (auto simp: Let_def split: if_splits)
  next
    case (Beat i)
    with step s show ?thesis by (auto intro!: put_node_wf heartbeat_wf node split: if_splits)
  next
    case (Fail i)
    with step s show ?thesis by (auto intro!: put_node_wf failure_wf node split: if_splits)
  next
    case (Penalty i rtt)
    with step s show ?thesis by (auto intro!: put_node_wf penalty_wf node split: if_splits)
  qed (use step s in \<open>auto split: if_splits\<close>)
qed

interpretation well_formed: cluster_invariant "\<lambda>s. list_all rnode_wf (s_nodes s)"
  by unfold_locales (rule step_wf)


definition types_config :: process_config where
  "types_config = \<lparr>peerIPs = [''A'', ''B''], clientPort = 10, internalBasePort = 20, eligibleLeaders = [],
     initialEligibleLeaders = [0], failureLeader = False, maxHeartbeats = 3, checkFalsePositive = False, tcpMonitor = False,
     latencyThreshold = 0\<rparr>"


end
