(* ===== verification/Raft_Client.thy ===== *)
theory Raft_Client
  imports Raft_Node
begin

text \<open>
  \<open>src/client.cpp\<close>: a client of the replicated log. A callback of its event loop is a function on the client's state, which also
  keeps the requests handed to the network and the lines of its log that the analysis scripts read. Whether
  \<open>sendto\<close> accepts a request and when is given by the request's number, which no two calls share; whether an address
  can be parsed is an argument too. A loop that sends until enough requests are under way does not end while \<open>sendto\<close>
  keeps failing, so a callback is partial: \<open>None\<close> is a callback that does not return. A leader id is the pair of address and
  port, \<open>None\<close> where the text has no colon.
\<close>

subsection \<open>State\<close>

datatype send_mode = FIXED_RATE | MAX_IN_FLIGHT

datatype client_line = Begin_of_Leadership string | End_of_Leadership string | Received_ClientResponse "real option" client_response string

record client =
  server :: node_id
  sending_mode :: send_mode
  max_in_flight :: int
  in_flight :: int
  client_id :: int
  request_id :: int
  request_times :: "(int, real) dict"
  known_leader :: bool
  sent :: "(node_id \<times> client_request) list"
  client_lines :: "client_line list"

definition new_client :: "node_id \<Rightarrow> send_mode \<Rightarrow> int \<Rightarrow> int \<Rightarrow> client" where
  "new_client srv mode maxInFlight cid = \<lparr>server = srv, sending_mode = mode, max_in_flight = maxInFlight, in_flight = 0, client_id = cid,
     request_id = 1, request_times = [], known_leader = True, sent = [], client_lines = []\<rparr>"

text \<open>What lies outside: which requests \<open>sendto\<close> takes, when it is called, and which addresses parse.\<close>

record client_env =
  sendto_ok :: "int \<Rightarrow> bool"
  sent_at :: "int \<Rightarrow> real"
  valid_ip :: "string \<Rightarrow> bool"

subsection \<open>Callbacks\<close>

definition client_request_of :: "int \<Rightarrow> int \<Rightarrow> client_request" where
  "client_request_of cid rid = \<lparr>cq_command = show_int rid @ '' '' @ show_int cid, cq_client_id = cid, cq_request_id = rid\<rparr>"

definition send_request :: "client_env \<Rightarrow> client \<Rightarrow> client" where
  "send_request E c =
     (let r = request_id c;
          request = client_request_of (client_id c) r;
          c1 = c\<lparr>request_id := r + 1, request_times := AList.update r (sent_at E r) (request_times c)\<rparr>
      in if sendto_ok E r
         then c1\<lparr>sent := sent c1 @ [(server c1, request)],
           in_flight := (if sending_mode c1 = MAX_IN_FLIGHT then in_flight c1 + 1 else in_flight c1)\<rparr>
         else c1)"

primrec send_requests :: "client_env \<Rightarrow> nat \<Rightarrow> client \<Rightarrow> client" where
  "send_requests E 0 c = c"
| "send_requests E (Suc k) c = send_requests E k (send_request E c)"

text \<open>The loop \<open>while (in_flight_ < max_in_flight_) send_request();\<close>\<close>

partial_function (option) refill :: "client_env \<Rightarrow> client \<Rightarrow> client option" where
  "refill E c = (if in_flight c < max_in_flight c then refill E (send_request E c) else Some c)"

definition run_client :: "client_env \<Rightarrow> client \<Rightarrow> client" where
  "run_client E c =
     (let c1 = send_request E c
      in if sending_mode c1 = MAX_IN_FLIGHT then send_requests E (nat (max_in_flight c1 - 1)) c1 else c1)"

definition send_timer_cb :: "client_env \<Rightarrow> client \<Rightarrow> client option" where
  "send_timer_cb E c = (case sending_mode c of FIXED_RATE \<Rightarrow> Some (send_request E c) | MAX_IN_FLIGHT \<Rightarrow> refill E c)"

definition timeout_cb :: "client_env \<Rightarrow> client \<Rightarrow> client" where
  "timeout_cb E c = (if 0 < in_flight c then send_requests E (nat (max_in_flight c)) (c\<lparr>in_flight := 0\<rparr>) else c)"

definition reset_in_flight :: "client \<Rightarrow> client" where
  "reset_in_flight c = (if sending_mode c = MAX_IN_FLIGHT then c\<lparr>in_flight := 0\<rparr> else c)"

text \<open>Following another leader.\<close>

definition change_leader :: "client_env \<Rightarrow> node_id \<Rightarrow> client \<Rightarrow> client option" where
  "change_leader E leader c =
     (let c1 = reset_in_flight (c\<lparr>known_leader := False\<rparr>);
          c2 = c1\<lparr>client_lines := client_lines c1 @ [End_of_Leadership (fst (server c1))], server := leader\<rparr>
      in if sending_mode c2 = MAX_IN_FLIGHT then refill E (send_request E c2) else Some c2)"

text \<open>The end of \<open>handle_response\<close>: the latency is logged, and in the second mode the next requests are sent.\<close>

definition log_response :: "client_response \<Rightarrow> string \<Rightarrow> real \<Rightarrow> client \<Rightarrow> client" where
  "log_response response sender now c = c\<lparr>request_times := AList.delete (cs_request_id response) (request_times c),
     client_lines := client_lines c @ [Received_ClientResponse (map_option (\<lambda>t. now - t) (map_of (request_times c) (cs_request_id response))) response sender]\<rparr>"

definition finish_response :: "client_env \<Rightarrow> client_response \<Rightarrow> string \<Rightarrow> real \<Rightarrow> client \<Rightarrow> client option" where
  "finish_response E response sender now c =
     (let c1 = log_response response sender now c
      in if sending_mode c1 = MAX_IN_FLIGHT
         then refill E (if 0 < in_flight c1 then c1\<lparr>in_flight := in_flight c1 - 1\<rparr> else c1)
         else Some c1)"

definition handle_response :: "client_env \<Rightarrow> client_response \<Rightarrow> string \<Rightarrow> real \<Rightarrow> client \<Rightarrow> client option" where
  "handle_response E response sender now c =
     (if cs_success response
      then finish_response E response sender now
        (if \<not> known_leader c then c\<lparr>known_leader := True, client_lines := client_lines c @ [Begin_of_Leadership (fst (server c))]\<rparr> else c)
      else case cs_leader_id response of
        None \<Rightarrow> finish_response E response sender now c
      | Some leader \<Rightarrow>
          if fst leader = [] then Some (send_request E (reset_in_flight c))
          else if \<not> valid_ip E (fst leader) then finish_response E response sender now c
          else if fst (server c) = fst leader then Some c
          else Option.bind (change_leader E leader c) (finish_response E response sender now))"

text \<open>The event loop. The send timer runs in the first mode only and the timeout in the second only.\<close>

datatype client_event = Send_timer | Timeout_timer | Response client_response string real

fun client_step :: "client_env \<Rightarrow> client_event \<Rightarrow> client \<Rightarrow> client option" where
  "client_step E Send_timer c = (if sending_mode c = FIXED_RATE then send_timer_cb E c else Some c)"
| "client_step E Timeout_timer c = (if sending_mode c = MAX_IN_FLIGHT then Some (timeout_cb E c) else Some c)"
| "client_step E (Response response sender now) c = handle_response E response sender now c"

fun client_loop :: "client_env \<Rightarrow> client_event list \<Rightarrow> client \<Rightarrow> client option" where
  "client_loop E [] c = Some c"
| "client_loop E (e # es) c = Option.bind (client_step E e c) (client_loop E es)"

subsection \<open>Sending\<close>

lemma send_request_simps [simp]:
  "sending_mode (send_request E c) = sending_mode c" "max_in_flight (send_request E c) = max_in_flight c" "server (send_request E c) = server c"
  "client_id (send_request E c) = client_id c" "request_id (send_request E c) = request_id c + 1" "known_leader (send_request E c) = known_leader c"
  "client_lines (send_request E c) = client_lines c"
  "in_flight (send_request E c) = (if sendto_ok E (request_id c) \<and> sending_mode c = MAX_IN_FLIGHT then in_flight c + 1 else in_flight c)"
  by (simp_all add: send_request_def Let_def)

declare refill.simps [code]

text \<open>A property every request keeps is kept by the loops that send requests.\<close>

lemma send_requests_keeps:
  assumes "P c" "\<And>c. P c \<Longrightarrow> P (send_request E c)"
  shows "P (send_requests E k c)"
  using assms(1) by (induction k arbitrary: c) (simp_all add: assms(2))

lemma refill_keeps:
  assumes "refill E c = Some c'" "P c" "\<And>c. P c \<Longrightarrow> in_flight c < max_in_flight c \<Longrightarrow> P (send_request E c)"
  shows "P c' \<and> max_in_flight c' \<le> in_flight c'"
proof -
  have "E' = E \<longrightarrow> P c \<longrightarrow> P c' \<and> max_in_flight c' \<le> in_flight c'" if "refill E' c = Some c'" for E' c c'
  proof (rule refill.raw_induct [OF _ that], intro impI)
    fix f E' c c'
    assume IH: "\<And>E' c c'. f E' c = Some c' \<Longrightarrow> E' = E \<longrightarrow> P c \<longrightarrow> P c' \<and> max_in_flight c' \<le> in_flight c'"
      and body: "(if in_flight c < max_in_flight c then f E' (send_request E' c) else Some c) = Some c'" and E: "E' = E" and P: "P c"
    show "P c' \<and> max_in_flight c' \<le> in_flight c'"
    proof (cases "in_flight c < max_in_flight c")
      case True
      with body have "f E' (send_request E' c) = Some c'" by simp
      from IH [OF this] E assms(3) [OF P True] show ?thesis by simp
    next
      case False
      with body P show ?thesis by simp
    qed
  qed
  with assms(1,2) show ?thesis by blast
qed

lemma refill_fails:
  assumes "\<And>r. request_id c \<le> r \<Longrightarrow> \<not> sendto_ok E r" "in_flight c < max_in_flight c"
  shows "refill E c = None"
proof (rule ccontr)
  assume "refill E c \<noteq> None"
  then obtain c' where "refill E c = Some c'" by auto
  from refill_keeps [OF this, of "\<lambda>x. request_id c \<le> request_id x \<and> in_flight x < max_in_flight x"] assms show False by auto
qed

lemma send_requests_simps [simp]:
  "sending_mode (send_requests E k c) = sending_mode c" "max_in_flight (send_requests E k c) = max_in_flight c" "server (send_requests E k c) = server c"
  "client_id (send_requests E k c) = client_id c" "request_id (send_requests E k c) = request_id c + int k"
  "known_leader (send_requests E k c) = known_leader c" "client_lines (send_requests E k c) = client_lines c"
  by (induction k arbitrary: c) simp_all

lemma send_requests_bound: "in_flight c \<le> in_flight (send_requests E k c) \<and> in_flight (send_requests E k c) \<le> in_flight c + int k"
proof (induction k arbitrary: c)
  case (Suc k)
  from Suc [of "send_request E c"] show ?case by (auto split: if_splits)
qed simp

text \<open>What is sent when nothing fails.\<close>

definition requests_from :: "client \<Rightarrow> nat \<Rightarrow> (node_id \<times> client_request) list" where
  "requests_from c k = map (\<lambda>i. (server c, client_request_of (client_id c) (request_id c + int i))) [0..<k]"

lemma requests_from_Suc: "requests_from c (Suc k) = requests_from c 1 @ requests_from (send_request E c) k"
  by (simp add: requests_from_def map_upt_Suc algebra_simps del: upt_Suc)

lemma send_requests_ok:
  assumes "\<And>r. sendto_ok E r"
  shows "sent (send_requests E k c) = sent c @ requests_from c k
    \<and> in_flight (send_requests E k c) = in_flight c + (if sending_mode c = MAX_IN_FLIGHT then int k else 0)"
proof (induction k arbitrary: c)
  case 0
  show ?case by (simp add: requests_from_def)
next
  case (Suc k)
  have "sent (send_request E c) = sent c @ requests_from c 1" by (simp add: send_request_def Let_def assms requests_from_def)
  then show ?case using Suc [of "send_request E c"] assms by (simp add: requests_from_Suc [of c k E])
qed

lemma refill_ok:
  assumes "\<And>r. sendto_ok E r" "sending_mode c = MAX_IN_FLIGHT"
  shows "refill E c = Some (send_requests E (nat (max_in_flight c - in_flight c)) c)"
  using assms(2)
proof (induction k \<equiv> "nat (max_in_flight c - in_flight c)" arbitrary: c)
  case 0
  then show ?case by (subst refill.simps) simp
next
  case (Suc k)
  then have "in_flight c < max_in_flight c" by simp
  moreover have "k = nat (max_in_flight (send_request E c) - in_flight (send_request E c))" using Suc.hyps(2) Suc.prems by (simp add: assms(1))
  ultimately show ?case using Suc.hyps(1) [of "send_request E c"] Suc.prems Suc.hyps(2) [symmetric] by (subst refill.simps) simp
qed

subsection \<open>The invariant\<close>

text \<open>The marks of leadership in the log: no two beginnings without an end in between.\<close>

fun mark_run :: "bool \<Rightarrow> client_line list \<Rightarrow> bool option" where
  "mark_run known [] = Some known"
| "mark_run known (Begin_of_Leadership ip # ls) = (if known then None else mark_run True ls)"
| "mark_run known (End_of_Leadership ip # ls) = mark_run False ls"
| "mark_run known (Received_ClientResponse l r a # ls) = mark_run known ls"

definition request_ok :: "client \<Rightarrow> client_request \<Rightarrow> bool" where
  "request_ok c r \<longleftrightarrow> cq_client_id r = client_id c \<and> 1 \<le> cq_request_id r \<and> cq_request_id r < request_id c"

definition cbase :: "client \<Rightarrow> bool" where
  "cbase c \<longleftrightarrow> 1 \<le> request_id c \<and> 0 \<le> in_flight c \<and> (sending_mode c = FIXED_RATE \<longrightarrow> in_flight c = 0)
     \<and> wf_dict (request_times c) \<and> list_all (\<lambda>r. 1 \<le> r \<and> r < request_id c) (dict_keys (request_times c))
     \<and> sorted_wrt (<) (map (\<lambda>m. cq_request_id (snd m)) (sent c)) \<and> list_all (\<lambda>m. request_ok c (snd m)) (sent c)
     \<and> mark_run True (client_lines c) = Some (known_leader c)"

definition cinv :: "client \<Rightarrow> bool" where
  "cinv c \<longleftrightarrow> cbase c \<and> in_flight c \<le> max_in_flight c"

lemma mark_run_append: "mark_run known (ls @ ms) = Option.bind (mark_run known ls) (\<lambda>k. mark_run k ms)"
  by (induction known ls rule: mark_run.induct) simp_all

lemma send_request_base:
  assumes "cbase c"
  shows "cbase (send_request E c)"
proof -
  have wf: "wf_dict (AList.update k v d)" "set (dict_keys (AList.update k v d)) = insert k (set (dict_keys d))"
    if "wf_dict d" for k v and d :: "(int, real) dict" using that by (simp_all add: wf_dict_def distinct_update dict_keys_def dom_update)
  show ?thesis using assms
    by (auto simp: cbase_def send_request_def Let_def wf list_all_iff sorted_wrt_append request_ok_def client_request_of_def)
qed

lemma refill_inv: "refill E c = Some c' \<Longrightarrow> cinv c \<Longrightarrow> cinv c'"
  by (drule refill_keeps [where P = cinv]) (auto simp: cinv_def send_request_base)

lemma send_requests_inv:
  assumes "cbase c" "in_flight c + int k \<le> max_in_flight c"
  shows "cinv (send_requests E k c)"
  using send_requests_keeps [of cbase, OF assms(1) send_request_base] send_requests_bound [of c E k] assms(2) by (auto simp: cinv_def)

lemma reset_base: "cbase c \<Longrightarrow> cbase (reset_in_flight c)"
  by (auto simp: cbase_def reset_in_flight_def request_ok_def)

lemma fixed_send: "cbase c \<Longrightarrow> sending_mode c = FIXED_RATE \<Longrightarrow> 1 \<le> max_in_flight c \<Longrightarrow> cinv (send_request E c)"
  by (frule send_request_base [of c E]) (auto simp: cinv_def cbase_def)

lemma run_client_inv:
  assumes "1 \<le> k"
  shows "cinv (run_client E (new_client srv mode k cid))"
proof -
  let ?c = "new_client srv mode k cid"
  have base: "cbase ?c" by (simp add: cbase_def new_client_def wf_dict_def dict_keys_def)
  have c: "in_flight ?c = 0" "max_in_flight ?c = k" "sending_mode ?c = mode" by (simp_all add: new_client_def)
  show ?thesis
  proof (cases mode)
    case FIXED_RATE
    then show ?thesis using fixed_send [OF base] c assms by (simp add: run_client_def Let_def)
  next
    case MAX_IN_FLIGHT
    then show ?thesis using send_requests_inv [OF base, of "Suc (nat (k - 1))" E] c assms by (simp add: run_client_def Let_def)
  qed
qed

lemma change_leader_inv:
  assumes "change_leader E leader c = Some c'" "cinv c" "1 \<le> max_in_flight c"
  shows "cinv c' \<and> max_in_flight c' = max_in_flight c"
proof -
  let ?c2 = "(reset_in_flight (c\<lparr>known_leader := False\<rparr>))\<lparr>client_lines := client_lines c @ [End_of_Leadership (fst (server c))], server := leader\<rparr>"
  have base: "cbase ?c2" using assms(2) by (auto simp: cinv_def cbase_def reset_in_flight_def mark_run_append request_ok_def)
  have same: "max_in_flight ?c2 = max_in_flight c" "sending_mode ?c2 = sending_mode c" by (simp_all add: reset_in_flight_def)
  show ?thesis
  proof (cases "sending_mode c = MAX_IN_FLIGHT")
    case True
    have r: "refill E (send_request E ?c2) = Some c'" using assms(1) True by (simp add: change_leader_def Let_def reset_in_flight_def)
    have "in_flight ?c2 = 0" using True by (simp add: reset_in_flight_def)
    then have "cinv (send_request E ?c2)" using send_requests_inv [OF base, of 1 E] assms(3) same by simp
    moreover have "max_in_flight c' = max_in_flight c"
      using refill_keeps [OF r, of "\<lambda>x. max_in_flight x = max_in_flight c"] same by simp
    ultimately show ?thesis using refill_inv [OF r] by simp
  next
    case False
    then have "c' = ?c2" using assms(1) by (auto simp: change_leader_def Let_def reset_in_flight_def)
    then show ?thesis using base assms(2,3) same False by (cases "sending_mode c") (auto simp: cinv_def cbase_def)
  qed
qed

lemma finish_response_inv:
  assumes "finish_response E response sender now c = Some c'" "cinv c"
  shows "cinv c' \<and> max_in_flight c' = max_in_flight c"
proof -
  have del: "wf_dict (AList.delete k d)" "set (dict_keys (AList.delete k d)) \<subseteq> set (dict_keys d)" if "wf_dict d" for k and d :: "(int, real) dict"
    using that by (auto simp: wf_dict_def distinct_removeAll dict_keys_def AList.delete_keys)
  let ?c1 = "log_response response sender now c"
  have inv: "cinv ?c1" using assms(2) del [of "request_times c" "cs_request_id response"]
    by (auto simp: log_response_def cinv_def cbase_def list_all_iff mark_run_append request_ok_def)
  have same: "max_in_flight ?c1 = max_in_flight c" by (simp add: log_response_def)
  show ?thesis
  proof (cases "sending_mode ?c1 = MAX_IN_FLIGHT")
    case True
    let ?c2 = "if 0 < in_flight ?c1 then ?c1\<lparr>in_flight := in_flight ?c1 - 1\<rparr> else ?c1"
    have r: "refill E ?c2 = Some c'" using assms(1) True by (simp add: finish_response_def Let_def)
    have "cinv ?c2" using inv True by (auto simp: cinv_def cbase_def request_ok_def)
    moreover have "max_in_flight c' = max_in_flight c"
      using refill_keeps [OF r, of "\<lambda>x. max_in_flight x = max_in_flight c"] same by simp
    ultimately show ?thesis using refill_inv [OF r] by simp
  next
    case False
    then have "c' = ?c1" using assms(1) by (simp add: finish_response_def Let_def)
    then show ?thesis using inv same by simp
  qed
qed

lemma handle_response_inv:
  assumes "handle_response E response sender now c = Some c'" "cinv c" "1 \<le> max_in_flight c"
  shows "cinv c' \<and> max_in_flight c' = max_in_flight c"
proof (cases "cs_success response")
  case True
  let ?c1 = "if \<not> known_leader c then c\<lparr>known_leader := True, client_lines := client_lines c @ [Begin_of_Leadership (fst (server c))]\<rparr> else c"
  have "cinv ?c1" using assms(2) by (auto simp: cinv_def cbase_def mark_run_append request_ok_def)
  moreover have "finish_response E response sender now ?c1 = Some c'" using assms(1) True by (simp add: handle_response_def)
  ultimately show ?thesis using finish_response_inv [of E response sender now ?c1 c'] by (auto split: if_splits)
next
  case False
  have one: "cinv (send_request E (reset_in_flight c))"
  proof (cases "sending_mode c")
    case FIXED_RATE
    then show ?thesis using fixed_send [of c E] assms(2,3) by (simp add: reset_in_flight_def cinv_def)
  next
    case MAX_IN_FLIGHT
    have "cbase (c\<lparr>in_flight := 0\<rparr>)" using reset_base [of c] assms(2) MAX_IN_FLIGHT by (simp add: cinv_def reset_in_flight_def)
    then show ?thesis using send_requests_inv [of "c\<lparr>in_flight := 0\<rparr>" 1 E] assms(3) MAX_IN_FLIGHT by (simp add: reset_in_flight_def)
  qed
  show ?thesis
  proof (cases "cs_leader_id response")
    case None
    then show ?thesis using assms(1,2) False finish_response_inv by (simp add: handle_response_def)
  next
    case (Some leader)
    consider "fst leader = []" | "fst leader \<noteq> []" "\<not> valid_ip E (fst leader)" | "fst leader \<noteq> []" "valid_ip E (fst leader)" "fst (server c) = fst leader"
      | "fst leader \<noteq> []" "valid_ip E (fst leader)" "fst (server c) \<noteq> fst leader" by blast
    then show ?thesis
    proof cases
      case 1
      then show ?thesis using assms(1) one False Some by (auto simp: handle_response_def reset_in_flight_def)
    next
      case 2
      then show ?thesis using assms(1,2) False Some finish_response_inv by (simp add: handle_response_def)
    next
      case 3
      then show ?thesis using assms(1,2) False Some by (simp add: handle_response_def)
    next
      case 4
      then obtain c1 where "change_leader E leader c = Some c1" "finish_response E response sender now c1 = Some c'"
        using assms(1) False Some by (auto simp: handle_response_def bind_eq_Some_conv)
      then show ?thesis using change_leader_inv [OF _ assms(2,3)] finish_response_inv by metis
    qed
  qed
qed

lemma client_step_inv:
  assumes "client_step E e c = Some c'" "cinv c" "1 \<le> max_in_flight c"
  shows "cinv c' \<and> max_in_flight c' = max_in_flight c"
proof (cases e)
  case Send_timer
  then show ?thesis using assms fixed_send [of c E] by (auto simp: send_timer_cb_def cinv_def split: if_splits)
next
  case Timeout_timer
  have "cinv (send_requests E (nat (max_in_flight c)) (c\<lparr>in_flight := 0\<rparr>))" if "sending_mode c = MAX_IN_FLIGHT"
    using send_requests_inv [of "c\<lparr>in_flight := 0\<rparr>" "nat (max_in_flight c)" E] assms(2,3) that
    by (auto simp: cinv_def cbase_def request_ok_def)
  then show ?thesis using Timeout_timer assms(1,2) by (auto simp: timeout_cb_def split: if_splits)
next
  case (Response response sender now)
  then show ?thesis using assms handle_response_inv by simp
qed

lemma client_loop_inv:
  "client_loop E es c = Some c' \<Longrightarrow> cinv c \<Longrightarrow> 1 \<le> max_in_flight c \<Longrightarrow> cinv c' \<and> max_in_flight c' = max_in_flight c"
proof (induction E es c rule: client_loop.induct)
  case (2 E e es c)
  from "2.prems"(1) obtain c1 where c1: "client_step E e c = Some c1" "client_loop E es c1 = Some c'" by (auto simp: bind_eq_Some_conv)
  from client_step_inv [OF c1(1) "2.prems"(2,3)] "2.IH" [OF c1] "2.prems"(3) show ?case by simp
qed simp

text \<open>
  C22: A client keeps its window: whatever answers come and timers fire, and whether or not requests can be sent, it counts at most the configured number
  of requests under way, and none when it sends at a fixed rate; it numbers its requests upwards without reuse, notes times only for requests
  it has made, and never logs the beginning of a leadership without the end of the one before.
\<close>

theorem client_window:
  assumes "client_loop E es (run_client E (new_client srv mode k cid)) = Some c" and "1 \<le> k"
  shows "0 \<le> in_flight c \<and> in_flight c \<le> k \<and> (sending_mode c = FIXED_RATE \<longrightarrow> in_flight c = 0)
    \<and> sorted_wrt (<) (map (\<lambda>m. cq_request_id (snd m)) (sent c)) \<and> list_all (\<lambda>m. request_ok c (snd m)) (sent c)
    \<and> distinct (dict_keys (request_times c)) \<and> list_all (\<lambda>r. 1 \<le> r \<and> r < request_id c) (dict_keys (request_times c))
    \<and> mark_run True (client_lines c) = Some (known_leader c)"
proof -
  have "max_in_flight (run_client E (new_client srv mode k cid)) = k" by (simp add: run_client_def Let_def new_client_def)
  with client_loop_inv [OF assms(1) run_client_inv [OF assms(2)]] assms(2) show ?thesis
    by (auto simp: cinv_def cbase_def wf_dict_def dict_keys_def)
qed

definition good_env :: client_env where
  "good_env = \<lparr>sendto_ok = (\<lambda>r. True), sent_at = (\<lambda>r. 0), valid_ip = (\<lambda>ip. True)\<rparr>"

theorem client_window_witness:
  "\<exists>c. client_loop good_env [Timeout_timer] (run_client good_env (new_client (''10.0.0.2'', 7788) MAX_IN_FLIGHT 2 1)) = Some c
     \<and> in_flight c \<le> 2 \<and> mark_run True (client_lines c) = Some (known_leader c)"
proof -
  have "client_loop good_env [Timeout_timer] x \<noteq> None" for x by simp
  then obtain c where c: "client_loop good_env [Timeout_timer] (run_client good_env (new_client (''10.0.0.2'', 7788) MAX_IN_FLIGHT 2 1)) = Some c" by blast
  from client_window [OF c] c show ?thesis by simp
qed

subsection \<open>Progress\<close>

text \<open>
  C24: The client goes on as long as requests can be sent: then every callback returns, and after a successful response the full number of
  requests is counted as under way again.
\<close>

theorem client_goes_on:
  assumes "\<And>r. sendto_ok E r" and "0 \<le> in_flight c" and "in_flight c \<le> max_in_flight c"
  shows "\<exists>c'. client_step E e c = Some c' \<and> (case e of
      Response response sender now \<Rightarrow> cs_success response \<and> sending_mode c = MAX_IN_FLIGHT \<longrightarrow> in_flight c' = max_in_flight c
    | _ \<Rightarrow> True)"
proof -
  note ok = refill_ok [OF assms(1)]
  have finish: "\<exists>c'. finish_response E response sender now x = Some c'" for response sender now x
    by (auto simp: finish_response_def Let_def log_response_def ok)
  have full: "in_flight c' = max_in_flight x" if "finish_response E response sender now x = Some c'" "sending_mode x = MAX_IN_FLIGHT" "in_flight x \<le> max_in_flight x"
    for response sender now x c'
    using that send_requests_ok [OF assms(1)] by (auto simp: finish_response_def Let_def log_response_def ok split: if_splits)
  have change: "\<exists>c'. change_leader E leader x = Some c'" for leader x
    by (auto simp: change_leader_def Let_def reset_in_flight_def ok)
  show ?thesis
  proof (cases e)
    case (Response response sender now)
    show ?thesis
    proof (cases "cs_success response")
      case True
      let ?c1 = "if \<not> known_leader c then c\<lparr>known_leader := True, client_lines := client_lines c @ [Begin_of_Leadership (fst (server c))]\<rparr> else c"
      obtain c' where c': "finish_response E response sender now ?c1 = Some c'" using finish by blast
      have "in_flight c' = max_in_flight c" if "sending_mode c = MAX_IN_FLIGHT" using full [OF c'] that assms(3) by (auto split: if_splits)
      then show ?thesis using c' True Response by (auto simp: handle_response_def)
    next
      case False
      have "\<exists>c'. handle_response E response sender now c = Some c'"
        using finish change False by (auto simp: handle_response_def bind_eq_Some_conv split: option.split) metis+
      then show ?thesis using False Response by simp
    qed
  qed (auto simp: send_timer_cb_def ok split: send_mode.split)
qed

theorem client_goes_on_witness:
  "\<exists>c'. client_step good_env (Response \<lparr>cs_success = True, cs_client_id = 1, cs_request_id = 1, cs_leader_id = None\<rparr> ''10.0.0.2'' 5)
     ((new_client (''10.0.0.2'', 7788) MAX_IN_FLIGHT 2 1)\<lparr>in_flight := 1\<rparr>) = Some c' \<and> in_flight c' = 2"
  using client_goes_on [of good_env "(new_client (''10.0.0.2'', 7788) MAX_IN_FLIGHT 2 1)\<lparr>in_flight := 1\<rparr>"
    "Response \<lparr>cs_success = True, cs_client_id = 1, cs_request_id = 1, cs_leader_id = None\<rparr> ''10.0.0.2'' 5"]
  by (simp add: good_env_def new_client_def)



subsection \<open>Following the leader\<close>

lemma requests_from_add: "requests_from c (k + m) = requests_from c k @ requests_from (send_requests E k c) m"
proof -
  have "[0..<k + m] = [0..<k] @ map (\<lambda>i. i + k) [0..<m]" 
    using upt_add_eq_append [of 0 k m] map_add_upt [of k m] by (simp add: add.commute)
  then show ?thesis by (simp add: requests_from_def algebra_simps)
qed

lemma requests_from_cong:
  "server c = server c' \<Longrightarrow> client_id c = client_id c' \<Longrightarrow> request_id c = request_id c' \<Longrightarrow> requests_from c k = requests_from c' k"
  by (simp add: requests_from_def)

lemma change_leader_ok:
  assumes "\<And>r. sendto_ok E r" "sending_mode c = MAX_IN_FLIGHT" "1 \<le> max_in_flight c"
  shows "change_leader E leader c = Some (send_requests E (nat (max_in_flight c))
    (c\<lparr>known_leader := False, in_flight := 0, client_lines := client_lines c @ [End_of_Leadership (fst (server c))], server := leader\<rparr>))"
proof -
  let ?c2 = "c\<lparr>known_leader := False, in_flight := 0, client_lines := client_lines c @ [End_of_Leadership (fst (server c))], server := leader\<rparr>"
  have "change_leader E leader c = refill E (send_request E ?c2)" using assms(2) by (simp add: change_leader_def Let_def reset_in_flight_def)
  also have "\<dots> = Some (send_requests E (Suc (nat (max_in_flight c - 1))) ?c2)" using assms by (simp add: refill_ok)
  finally show ?thesis using assms(3) by (simp add: nat_diff_distrib' Suc_diff_le flip: Suc_nat_eq_nat_zadd1 [of "max_in_flight c - 1"])
qed

text \<open>
  C23: A client finds the leader: when it asks a replica that follows another leader, the replica's answer makes it send its next requests to that
  leader. They are one more than the configured number under way, since the answer itself is counted off once more after the
  window has been filled anew.
\<close>

theorem client_redirected:
  assumes "handle_client_request sz n request addr = Some (n', [dg])" and "dg_msg dg = CLIENT_RESPONSE response"
    and "role n \<noteq> LEADER" and "fst (current_leader n) \<noteq> []" and "valid_ip E (fst (current_leader n))" and "fst (server c) \<noteq> fst (current_leader n)"
    and "\<And>r. sendto_ok E r" and "sending_mode c = MAX_IN_FLIGHT" and "1 \<le> max_in_flight c"
  shows "\<exists>c'. handle_response E response sender now c = Some c' \<and> server c' = current_leader n \<and> in_flight c' = max_in_flight c
    \<and> sent c' = sent c @ requests_from (c\<lparr>server := current_leader n\<rparr>) (nat (max_in_flight c) + 1)"
proof -
  let ?c2 = "c\<lparr>known_leader := False, in_flight := 0, client_lines := client_lines c @ [End_of_Leadership (fst (server c))], server := current_leader n\<rparr>"
  let ?k = "nat (max_in_flight c)"
  define c3 where "c3 = send_requests E ?k ?c2"
  define c4 where "c4 = (log_response response sender now c3)\<lparr>in_flight := in_flight c3 - 1\<rparr>"
  have resp: "\<not> cs_success response" "cs_leader_id response = Some (current_leader n)"
    using assms(1-3) by (auto simp: handle_client_request_def sendToClient_def)
  have c3: "in_flight c3 = max_in_flight c" "sent c3 = sent c @ requests_from ?c2 ?k" "max_in_flight c3 = max_in_flight c" "sending_mode c3 = MAX_IN_FLIGHT"
    using send_requests_ok [OF assms(7), of ?k ?c2] assms(8,9) by (simp_all add: c3_def)
  have "handle_response E response sender now c = finish_response E response sender now c3"
    using resp assms(4-6) by (simp add: handle_response_def change_leader_ok [OF assms(7-9)] c3_def)
  also have "\<dots> = refill E c4" using c3 assms(9) by (simp add: finish_response_def Let_def c4_def log_response_def)
  also have "\<dots> = Some (send_requests E 1 c4)" using refill_ok [OF assms(7), of c4] c3 by (simp add: c4_def log_response_def)
  finally have h: "handle_response E response sender now c = Some (send_requests E 1 c4)" .
  have s4: "sent c4 = sent c3" "in_flight c4 = max_in_flight c - 1" "server c4 = current_leader n" "sending_mode c4 = MAX_IN_FLIGHT"
    using c3 by (simp_all add: c4_def log_response_def) (simp add: c3_def)
  have "requests_from c4 1 = requests_from c3 1" by (rule requests_from_cong) (simp_all add: c4_def log_response_def)
  then have "sent (send_requests E 1 c4) = sent c @ requests_from ?c2 (?k + 1)"
    using send_requests_ok [OF assms(7), of 1 c4] s4(1) c3(2) unfolding requests_from_add [of ?c2 ?k 1 E] c3_def [symmetric] by simp
  also have "requests_from ?c2 (?k + 1) = requests_from (c\<lparr>server := current_leader n\<rparr>) (?k + 1)" by (rule requests_from_cong) simp_all
  finally have "sent (send_requests E 1 c4) = sent c @ requests_from (c\<lparr>server := current_leader n\<rparr>) (?k + 1)" .
  moreover have "in_flight (send_requests E 1 c4) = max_in_flight c" using send_requests_ok [OF assms(7), of 1 c4] s4 by simp
  moreover have "server (send_requests E 1 c4) = current_leader n" using s4 by simp
  ultimately show ?thesis using h by blast
qed

theorem client_redirected_witness:
  "\<exists>c'. handle_response good_env \<lparr>cs_success = False, cs_client_id = 1, cs_request_id = 1, cs_leader_id = Some (''10.0.0.3'', 7788)\<rparr> ''10.0.0.2'' 5
       (run_client good_env (new_client (''10.0.0.2'', 7788) MAX_IN_FLIGHT 2 1)) = Some c'
     \<and> server c' = (''10.0.0.3'', 7788) \<and> in_flight c' = 2"
proof -
  let ?c = "run_client good_env (new_client (''10.0.0.2'', 7788) MAX_IN_FLIGHT 2 1)"
  define n where "n = (Node \<lparr>peerIPs = [''10.0.0.2'', ''10.0.0.3''], clientPort = 7788, internalBasePort = 5000, eligibleLeaders = [],
    initialEligibleLeaders = [], failureLeader = False, maxHeartbeats = 5, checkFalsePositive = False, tcpMonitor = False, latencyThreshold = 100\<rparr> 0)
    \<lparr>current_leader := (''10.0.0.3'', 7788)\<rparr>"
  let ?resp = "\<lparr>cs_success = False, cs_client_id = 1, cs_request_id = 1, cs_leader_id = Some (''10.0.0.3'', 7788)\<rparr>"
  let ?req = "\<lparr>cq_command = ''1 1'', cq_client_id = 1, cq_request_id = 1\<rparr>"
  have req: "handle_client_request (\<lambda>e. 0) n ?req (''c'', 9) = Some (n, [sendToClient n (''c'', 9) ?resp])"
    by (simp add: handle_client_request_def n_def Node_def)
  have n: "role n \<noteq> LEADER" "current_leader n = (''10.0.0.3'', 7788)" by (simp_all add: n_def Node_def)
  have c: "fst (server ?c) = ''10.0.0.2''" "sending_mode ?c = MAX_IN_FLIGHT" "max_in_flight ?c = 2"
    by (simp_all add: run_client_def Let_def new_client_def)
  have dg: "dg_msg (sendToClient n (''c'', 9) ?resp) = CLIENT_RESPONSE ?resp" by (simp add: sendToClient_def)
  show ?thesis using client_redirected [OF req dg n(1), of good_env ?c "''10.0.0.2''" 5] c n(2) by (auto simp: good_env_def)
qed

end
