(* ===== verification/Raft_Dump.thy ===== *)
theory Raft_Dump
  imports Raft_Client Consistency
begin

text \<open>
  The dump that \<open>Node::dumpRaftLogToFile\<close> (\<open>src/node.cpp\<close>) writes when a replica shuts down, and its reader,
  \<open>scripts/verify_consistency.py\<close>: what the script reads from the files is what the logs hold, so that its
  verdict is about the logs. The commands are those of \<open>src/client.cpp\<close>.
\<close>

subsection \<open>The dump\<close>

definition dump_entry :: "int \<times> log_entry \<Rightarrow> string" where
  "dump_entry p = ''Index: '' @ show_int (fst p) @ '', Term: '' @ show_int (le_term (snd p)) @ '', Command: '' @ le_command (snd p)
     @ '', Client ID: '' @ show_int (le_client_id (snd p)) @ '', Request ID: '' @ show_int (le_request_id (snd p)) @ [newline]"

definition dump_header :: "rnode \<Rightarrow> string list" where
  "dump_header n =
     [''Raft Log Dump for Node '' @ self_ip n @ '':'' @ show_int (clientPort (config n)) @ [newline],
      ''Current term: '' @ show_int (current_term n) @ [newline],
      ''Last log index: '' @ show_int (getLastLogIndex (raftLog n)) @ [newline],
      ''----------------------------------------'' @ [newline]]"

definition dumpRaftLogToFile :: "rnode \<Rightarrow> string list" where
  "dumpRaftLogToFile n = dump_header n
     @ List.map_filter (\<lambda>i. map_option (\<lambda>e. dump_entry (i, e)) (getEntry (raftLog n) i)) [1..getLastLogIndex (raftLog n)]"

text \<open>The name given to it by \<open>shutdown_cb\<close>.\<close>

definition dump_filename :: "rnode \<Rightarrow> string" where
  "dump_filename n = ''raftlog_dump_'' @ self_ip n @ ''.log''"

definition dump_files :: "rnode list \<Rightarrow> string \<Rightarrow> string list option" where
  "dump_files ns = map_of (map (\<lambda>n. (dump_filename n, dumpRaftLogToFile n)) ns)"

subsection \<open>Reading a dump\<close>

text \<open>A command that survives: no comma, no line break, no blanks around it.\<close>

definition plain :: "string \<Rightarrow> bool" where
  "plain c \<longleftrightarrow> c \<noteq> [] \<and> strip c = c \<and> CHR '','' \<notin> set c \<and> newline \<notin> set c"

definition dumpable :: "log_entry \<Rightarrow> bool" where
  "dumpable e \<longleftrightarrow> 0 \<le> le_term e \<and> plain (le_command e)"

lemma hd_plain: "plain c \<Longrightarrow> \<not> is_space (hd c)"
proof
  assume c: "plain c" "is_space (hd c)"
  then obtain a as where a: "c = a # as" "is_space a" by (cases c) (auto simp: plain_def)
  have "length (strip c) \<le> length as" unfolding strip_def using a
    by (simp add: order_trans [OF length_dropWhile_le])
  with c(1) a(1) show False by (simp add: plain_def)
qed

lemma first_space:
  "s \<noteq> [] \<Longrightarrow> \<not> is_space (hd s) \<Longrightarrow> rfirst (rseq rs) (Some (CHR '' ''), s, g) z \<Longrightarrow>
     rfirst (rseq (Star rspace # rs)) (p, CHR '' '' # s, g) z"
  using first_star [of is_space "'' ''" s p g] by (intro first_rseq) (auto simp: rspace_def is_space_def code_def)

lemma digit_no_comma: "\<not> is_digit (CHR '','')"
  by (simp add: is_digit_def code_def)

lemma parse_dump_entry:
  assumes "0 \<le> i" and "dumpable e"
  shows "parse_dump_line (dump_entry (i, e)) = Some (i, le_term e, le_command e)"
proof -
  let ?c = "le_command e" and ?r = "'', Client ID: '' @ show_int (le_client_id e) @ '', Request ID: '' @ show_int (le_request_id e) @ [newline]"
  have t: "0 \<le> le_term e" and c: "?c \<noteq> []" "strip ?c = ?c" "list_all (\<lambda>x. x \<noteq> CHR '','') ?c" "\<not> is_space (hd ?c)"
    using assms(2) hd_plain by (auto simp: dumpable_def plain_def list_all_iff)
  have hd: "\<not> is_space (hd (show_int n @ w))" if "0 \<le> n" for n w
    using list_all_show_int [OF that] is_digit_not_space hd_in_set [of "show_int n"] by (auto simp: list_all_iff)
  have "rfirst dump_LINE_RE (None, ''Index:'' @ CHR '' '' # show_int i @ '','' @ CHR '' '' # ''Term:'' @ CHR '' '' # show_int (le_term e)
      @ '','' @ CHR '' '' # ''Command:'' @ CHR '' '' # ?c @ ?r, []) (Some (last ?c), ?r, [(3, ?c), (2, show_int (le_term e)), (1, show_int i)])"
    unfolding dump_LINE_RE_def rdigit_def
    using assms(1) t c hd list_all_show_int
    by (intro first_rseq_lit first_space first_rseq_plus) (simp_all add: digit_no_comma first_Eps is_space_def code_def)
  then have "re_search dump_LINE_RE (dump_entry (i, e)) = Some [(3, ?c), (2, show_int (le_term e)), (1, show_int i)]"
    using re_search_first by (fastforce simp: dump_entry_def)
  then show ?thesis using assms(1) t c by (simp add: parse_dump_line_def group_def)
qed

text \<open>No other line is taken for an entry.\<close>

lemma no_I_not_parsed: "CHR ''I'' \<notin> set s \<Longrightarrow> parse_dump_line s = None"
proof (rule ccontr)
  assume s: "CHR ''I'' \<notin> set s" and "parse_dump_line s \<noteq> None"
  then have "re_search dump_LINE_RE s \<noteq> None" by (simp add: parse_dump_line_def)
  then have "str_in ''Index:'' s" unfolding dump_LINE_RE_def by (rule re_search_rseq_lit) simp
  then obtain u v where "s = u @ ''Index:'' @ v" by (auto simp: str_in_sublist sublist_def)
  with s show False by simp
qed

lemma show_int_no_I: "CHR ''I'' \<notin> set (show_int n)"
proof -
  have "\<not> is_digit (CHR ''I'')" by (simp add: is_digit_def code_def)
  then show ?thesis using show_digits_digits [of "CHR ''I''" n] show_digits_digits [of "CHR ''I''" "- n"]
    by (auto simp: show_int_def)
qed

lemma map_filter_Nil: "(\<And>x. x \<in> set xs \<Longrightarrow> f x = None) \<Longrightarrow> List.map_filter f xs = []"
  by (induction xs) (simp_all add: map_filter_def)

lemma map_filter_append: "List.map_filter f (xs @ ys) = List.map_filter f xs @ List.map_filter f ys"
  by (simp add: map_filter_def)

lemma dump_parsed:
  assumes "CHR ''I'' \<notin> set (self_ip n)" and "list_all dumpable (entries_of (raftLog n))"
  shows "List.map_filter parse_dump_line (dumpRaftLogToFile n) =
    map (\<lambda>i. (int i + 1, le_term (entries_of (raftLog n) ! i), le_command (entries_of (raftLog n) ! i))) [0..<length (entries_of (raftLog n))]"
proof -
  let ?es = "entries_of (raftLog n)" and ?f = "\<lambda>i. map_option (\<lambda>e. dump_entry (i, e)) (getEntry (raftLog n) i)"
  have "[1..int m] = map (\<lambda>i. int i + 1) [0..<m]" for m
    by (induction m) (auto simp: upto_rec2)
  then have entries: "List.map_filter ?f [1..getLastLogIndex (raftLog n)] = map (\<lambda>i. dump_entry (int i + 1, ?es ! i)) [0..<length ?es]"
    by (simp add: map_filter_def filter_map o_def getEntry_nat cong: map_cong)
  have "parse_dump_line (dump_entry (int i + 1, ?es ! i)) = Some (int i + 1, le_term (?es ! i), le_command (?es ! i))" if "i < length ?es" for i
    using assms(2) that by (intro parse_dump_entry) (simp_all add: list_all_length)
  then have "List.map_filter parse_dump_line (map (\<lambda>i. dump_entry (int i + 1, ?es ! i)) [0..<length ?es]) =
      map (\<lambda>i. (int i + 1, le_term (?es ! i), le_command (?es ! i))) [0..<length ?es]"
    by (simp add: map_filter_def filter_map o_def cong: map_cong)
  moreover have "List.map_filter parse_dump_line (dump_header n) = []"
    using assms(1) show_int_no_I by (intro map_filter_Nil no_I_not_parsed) (auto simp: dump_header_def)
  ultimately show ?thesis unfolding dumpRaftLogToFile_def entries map_filter_append by simp
qed

lemma dump_read_back:
  assumes "CHR ''I'' \<notin> set (self_ip n)" and "list_all dumpable (entries_of (raftLog n))"
  shows "map_of (load_dump (Some (dumpRaftLogToFile n))) idx = map_option (\<lambda>e. (le_term e, le_command e)) (getEntry (raftLog n) idx)"
proof -
  let ?es = "entries_of (raftLog n)"
  let ?ps = "map (\<lambda>i. (int i + 1, le_term (?es ! i), le_command (?es ! i))) [0..<length ?es]"
  have keys: "distinct (map fst (rev ?ps))" by (simp add: rev_map [symmetric] o_def distinct_map inj_on_def)
  have "map_of (load_dump (Some (dumpRaftLogToFile n))) idx = map_of (rev ?ps) idx"
    using parse_dump_map_of dump_parsed [OF assms] by (simp add: load_dump_def)
  also have "\<dots> = map_option (\<lambda>e. (le_term e, le_command e)) (getEntry (raftLog n) idx)"
  proof (cases "1 \<le> idx \<and> idx \<le> int (length ?es)")
    case True
    then obtain i where i: "idx = int i + 1" "i < length ?es" 
      by (intro that [of "nat (idx - 1)"]) auto
    then have "(idx, le_term (?es ! i), le_command (?es ! i)) \<in> set (rev ?ps)" by auto
    from map_of_is_SomeI [OF keys this] show ?thesis using i by (simp add: getEntry_nat)
  next
    case False
    then have "idx \<notin> fst ` set (rev ?ps)" by auto
    then have "map_of (rev ?ps) idx = None" by (simp only: map_of_eq_None_iff) simp
    moreover have "getEntry (raftLog n) idx = None" using False by (auto simp: getEntry_def)
    ultimately show ?thesis by simp
  qed
  finally show ?thesis .
qed

text \<open>The commands of the clients survive a dump, whatever the ids are.\<close>

lemma client_command_plain: "plain (cq_command (client_request_of cid rid))"
proof -
  have dash: "\<not> is_space (CHR ''-'')" by (simp add: is_space_def code_def)
  have no_space: "\<not> is_space c" if "c \<in> set (show_int n)" for c n using show_int_chars [OF that] is_digit_not_space dash by auto
  have ends: "dropWhile is_space (show_int n @ w) = show_int n @ w" "dropWhile is_space (rev (show_int n) @ w) = rev (show_int n) @ w" for n w
    using no_space hd_in_set [of "show_int n"] hd_in_set [of "rev (show_int n)"] by (auto simp: dropWhile_eq_self_iff)
  have chars: "CHR '','' \<notin> set (show_int n)" "newline \<notin> set (show_int n)" for n
    using show_int_chars [of "CHR '',''" n] show_int_chars [of newline n] by (auto simp: is_digit_def code_def)
  then show ?thesis using ends by (simp add: plain_def client_request_of_def strip_def)
qed

subsection \<open>The verdict on a cluster\<close>

definition script_ips :: "string list" where
  "script_ips = map (\<lambda>p. ''127.0.0.'' @ show_int p) ip_parts"

lemma dump_files_of:
  assumes "map self_ip ns = script_ips"
  shows "map (dump_files ns) dump_filenames = map (\<lambda>n. Some (dumpRaftLogToFile n)) ns"
proof -
  have names: "dump_filenames = map dump_filename ns"
    using arg_cong [OF assms, of "map (\<lambda>ip. ''raftlog_dump_'' @ ip @ ''.log'')"]
    by (simp add: dump_filenames_def script_ips_def dump_filename_def [abs_def] o_def)
  have "distinct dump_filenames" by (simp add: dump_filenames_def ip_parts_def show_int_inj)
  then have keys: "distinct (map fst (map (\<lambda>n. (dump_filename n, dumpRaftLogToFile n)) ns))" by (simp add: names o_def)
  have "dump_files ns (dump_filename n) = Some (dumpRaftLogToFile n)" if "n \<in> set ns" for n
    unfolding dump_files_def using that by (intro map_of_is_SomeI [OF keys]) auto
  then show ?thesis by (simp add: names o_def)
qed

text \<open>
  C14: After the replicas 127.0.0.2 to 127.0.0.6 have written their dumps, the script calls them consistent exactly when
  at every index exactly one opinion, an entry's term and command or its absence, is shared by three of the five
  logs in the memory of the replicas; entries with a term that is not negative and a command as the clients send it.
\<close>

theorem dumps_checked:
  assumes "map self_ip ns = script_ips" and "list_all (\<lambda>n. list_all dumpable (entries_of (raftLog n))) ns"
  shows "majority_consistent (load_logs (dump_files ns)) \<longleftrightarrow>
    (\<forall>idx. \<exists>!opinion. QUORUM \<le>
       length (filter (\<lambda>n. map_option (\<lambda>e. (le_term e, le_command e)) (getEntry (raftLog n) idx) = opinion) ns))"
proof -
  have ip: "CHR ''I'' \<notin> set (self_ip n)" if "n \<in> set ns" for n
  proof -
    from that have "self_ip n \<in> set script_ips" using assms(1) by (metis image_eqI list.set_map)
    then show ?thesis using show_int_no_I by (auto simp: script_ips_def)
  qed
  have "length (filter (\<lambda>fname. map_of (load_dump (dump_files ns fname)) idx = opinion) dump_filenames) =
      length (filter (\<lambda>f. map_of (load_dump f) idx = opinion) (map (dump_files ns) dump_filenames))" for idx opinion
    by (simp add: filter_map o_def)
  moreover have "length (filter (\<lambda>f. map_of (load_dump f) idx = opinion) (map (dump_files ns) dump_filenames)) =
      length (filter (\<lambda>n. map_option (\<lambda>e. (le_term e, le_command e)) (getEntry (raftLog n) idx) = opinion) ns)" for idx opinion
    unfolding dump_files_of [OF assms(1)] using ip assms(2) dump_read_back
    by (simp add: filter_map o_def list_all_iff cong: filter_cong)
  ultimately show ?thesis unfolding majority_consistent_iff by simp
qed

definition dump_example :: "rnode list" where
  "dump_example = map (\<lambda>i. (Node \<lparr>peerIPs = script_ips, clientPort = 5000, internalBasePort = 6000, eligibleLeaders = [],
      initialEligibleLeaders = [0], failureLeader = False, maxHeartbeats = 3, checkFalsePositive = False, tcpMonitor = False,
      latencyThreshold = 0\<rparr> i)\<lparr>raftLog := RaftLog\<lparr>entries_of :=
        (if i < 3 then [\<lparr>le_term = 1, le_command = ''7 2'', le_client_id = 2, le_request_id = 7\<rparr>] else [])\<rparr>\<rparr>) [0..<5]"

theorem dumps_checked_witness: "majority_consistent (load_logs (dump_files dump_example))"
proof -
  have "map self_ip dump_example = script_ips" "list_all (\<lambda>n. list_all dumpable (entries_of (raftLog n))) dump_example"
    by code_simp+
  from dumps_checked [OF this] have "majority_consistent (load_logs (dump_files dump_example)) \<longleftrightarrow>
    (\<forall>idx. \<exists>!opinion. QUORUM \<le>
       length (filter (\<lambda>n. map_option (\<lambda>e. (le_term e, le_command e)) (getEntry (raftLog n) idx) = opinion) dump_example))" .
  moreover have "\<exists>!opinion. QUORUM \<le>
       length (filter (\<lambda>n. map_option (\<lambda>e. (le_term e, le_command e)) (getEntry (raftLog n) idx) = opinion) dump_example)" for idx
    by (rule ex1I [of _ "if idx = 1 then Some (1, ''7 2'') else None"])
      (auto simp: dump_example_def QUORUM_eq upt_rec getEntry_def RaftLog_def Node_def split: if_splits)
  ultimately show ?thesis by simp
qed

end
