(* ===== verification/Raft_Timeout.thy ===== *)
theory Raft_Timeout
  imports Raft_Node "HOL-Library.Word" "HOL-Library.Multiset"
begin

text \<open>
  How long a replica waits for its leader: the TCP statistics of \<open>lib/tcp_stat_manager.cpp\<close> and
  \<open>start_election_timeout\<close> of \<open>src/node.cpp\<close>. What the kernel answers is a list of decoded netlink messages, each with the
  time it is handled at; samples are exact reals, counters are 32-bit words. A draw of the random
  generator is an argument. \<open>std::sort\<close> leaves the order of equal scores open, so the sorted scores are an argument
  too. Signed arithmetic on the configured margins is exact here; in C++ it is undefined beyond 32 bits.
\<close>

subsection \<open>Statistics of a connection\<close>

record conn_stats =
  rttSamples :: "real list"
  rttVarSamples :: "real list"
  retransmissions :: "32 word"
  conn_count :: "32 word"
  lastUpdated :: real

definition sample_mean :: "real list \<Rightarrow> real" where
  "sample_mean xs = (if xs = [] then 0 else sum_list xs / real (length xs))"

definition meanRtt :: "conn_stats \<Rightarrow> real" where
  "meanRtt st = sample_mean (rttSamples st)"

definition meanRttVar :: "conn_stats \<Rightarrow> real" where
  "meanRttVar st = sample_mean (rttVarSamples st)"

definition rttVariance :: "conn_stats \<Rightarrow> real" where
  "rttVariance st = (if length (rttSamples st) < 2 then 0
     else (\<Sum>rtt\<leftarrow>rttSamples st. (rtt - meanRtt st) * (rtt - meanRtt st)) / (real (length (rttSamples st)) - 1))"

definition getZScore :: "real \<Rightarrow> real" where
  "getZScore confidenceLevel =
     (if confidenceLevel = 90 / 100 then 1645 / 1000
      else if confidenceLevel = 95 / 100 then 196 / 100
      else if confidenceLevel = 99 / 100 then 2576 / 1000
      else if confidenceLevel = 999 / 1000 then 3291 / 1000
      else if confidenceLevel = 995 / 1000 then 2807 / 1000
      else 196 / 100)"

definition rttConfidenceInterval :: "conn_stats \<Rightarrow> real \<Rightarrow> real \<times> real" where
  "rttConfidenceInterval st confidenceLevel =
     (if length (rttSamples st) < 2 then (meanRtt st, meanRtt st)
      else let marginOfError = getZScore confidenceLevel * sqrt (meanRttVar st)
           in (meanRtt st - marginOfError, meanRtt st + marginOfError))"

definition jacobsonEst :: "conn_stats \<Rightarrow> real" where
  "jacobsonEst st = (if rttSamples st = [] then 0 else min (meanRtt st / 2 + 4 * meanRttVar st) 800)"

subsection \<open>Reading the kernel's answer\<close>

type_synonym conn_table = "(string \<times> string, conn_stats) dict"

definition MAX_SAMPLES :: nat where "MAX_SAMPLES = 1000"

text \<open>A new connection is stored before the time of its first sample is set, so the stored time stays the clock's epoch.\<close>

definition aggregateTcpStats :: "string \<Rightarrow> string \<Rightarrow> real \<Rightarrow> real \<Rightarrow> 32 word \<Rightarrow> real \<Rightarrow> conn_table \<Rightarrow> conn_table" where
  "aggregateTcpStats src_ip dst_ip rtt rttVar retrans now tbl =
     (case map_of tbl (src_ip, dst_ip) of
        None \<Rightarrow> AList.update (src_ip, dst_ip)
          \<lparr>rttSamples = [rtt], rttVarSamples = [rttVar], retransmissions = retrans, conn_count = 1, lastUpdated = 0\<rparr> tbl
      | Some st \<Rightarrow>
          let full = MAX_SAMPLES \<le> length (rttSamples st);
              rs = (if full then tl (rttSamples st) else rttSamples st);
              vs = (if full then tl (rttVarSamples st) else rttVarSamples st)
          in AList.update (src_ip, dst_ip)
               \<lparr>rttSamples = rs @ [rtt], rttVarSamples = vs @ [rttVar], retransmissions = retransmissions st + retrans,
                conn_count = conn_count st + 1, lastUpdated = now\<rparr> tbl)"

datatype nl_attr =
    INET_DIAG_INFO (tcpi_rtt: "32 word") (tcpi_rttvar: "32 word") (tcpi_total_retrans: "32 word") (tcpi_last_data_sent: "32 word")
  | Other_attr

datatype nl_msg = NLMSG_DONE | NLMSG_ERROR | Diag_msg string string "nl_attr list" real

text \<open>The attributes of a message: the last information counts, and one on an idle connection discards the message.\<close>

fun read_attrs :: "nl_attr list \<Rightarrow> 32 word \<times> 32 word \<times> 32 word \<Rightarrow> (32 word \<times> 32 word \<times> 32 word) option" where
  "read_attrs [] acc = Some acc"
| "read_attrs (INET_DIAG_INFO rtt rtt_var retrans lastsnd # as) acc =
     (if 600 < lastsnd then None else read_attrs as (rtt, rtt_var, retrans))"
| "read_attrs (Other_attr # as) acc = read_attrs as acc"

fun processNetlinkResponse :: "nl_msg list \<Rightarrow> conn_table \<Rightarrow> conn_table" where
  "processNetlinkResponse [] tbl = tbl"
| "processNetlinkResponse (NLMSG_DONE # ms) tbl = tbl"
| "processNetlinkResponse (NLMSG_ERROR # ms) tbl = tbl"
| "processNetlinkResponse (Diag_msg src_ip dst_ip as now # ms) tbl =
     processNetlinkResponse ms
       (case read_attrs as (0, 0, 0) of
          None \<Rightarrow> tbl
        | Some (rtt, rtt_var, retrans) \<Rightarrow>
            aggregateTcpStats src_ip dst_ip (real_of_int (uint rtt) / 1000) (real_of_int (uint rtt_var) / 1000) retrans now tbl)"

text \<open>The table a replica has after a number of answers.\<close>

definition monitored :: "nl_msg list list \<Rightarrow> conn_table" where
  "monitored responses = fold processNetlinkResponse responses []"

definition peer_rtt :: "conn_table \<Rightarrow> rnode \<Rightarrow> rtts" where
  "peer_rtt tbl n ip = map_option meanRtt (map_of tbl (self_ip n, ip))"

subsection \<open>The election timeout\<close>

datatype bound_type = CI | Jacobson | Raft_bound

record timeout_config =
  confidenceLevel :: real
  heartbeatIntervalMargin :: int
  safetyMarginLowerBound :: int
  safetyMarginStepSize :: int
  election_timeout_bound :: bound_type

text \<open>An unknown mode ends the process.\<close>

definition fd_bound :: "string \<Rightarrow> bound_type option" where
  "fd_bound fdMode = (if fdMode = ''raft'' then Some Raft_bound else if fdMode = ''Jacobson'' then Some Jacobson
     else if fdMode = ''CI'' then Some CI else None)"

text \<open>The loop that looks for the own rank; without an own score the variable keeps no value.\<close>

fun find_rank :: "node_id \<Rightarrow> int \<Rightarrow> (node_id \<times> real) list \<Rightarrow> int option \<Rightarrow> int option" where
  "find_rank me i [] my_rank = my_rank"
| "find_rank me i ((k, score) # ps) my_rank = find_rank me (i + 1) ps (if k = me then Some i else my_rank)"

definition adaptive :: "timeout_config \<Rightarrow> rnode \<Rightarrow> bool \<Rightarrow> bool" where
  "adaptive tc n force_raft \<longleftrightarrow> tcpMonitor (config n) \<and> election_timeout_bound tc \<noteq> Raft_bound \<and> \<not> force_raft"

text \<open>The timeout in seconds from the statistics of the connection to the leader.\<close>

definition rtt_timeout :: "timeout_config \<Rightarrow> conn_stats \<Rightarrow> bool \<Rightarrow> int \<Rightarrow> real \<Rightarrow> real" where
  "rtt_timeout tc st double_time delay_ms timeout =
     (if 0 < meanRtt st / 1000
      then (case election_timeout_bound tc of
          CI \<Rightarrow> (let upperbound = snd (rttConfidenceInterval st (confidenceLevel tc)) in
            if \<not> double_time then (upperbound / 2 + real_of_int (heartbeatIntervalMargin tc) + real_of_int delay_ms) / 1000
            else (upperbound + real_of_int (heartbeatIntervalMargin tc) + real_of_int delay_ms) / 1000)
        | Jacobson \<Rightarrow> (if \<not> double_time then (jacobsonEst st + real_of_int (heartbeatIntervalMargin tc) + real_of_int delay_ms) / 1000
            else (jacobsonEst st + real_of_int (heartbeatIntervalMargin tc) + real_of_int delay_ms) / 1000)
        | Raft_bound \<Rightarrow> timeout)
      else timeout)"

text \<open>\<open>None\<close> where a variable without a value is read.\<close>

definition start_election_timeout :: "timeout_config \<Rightarrow> nat \<Rightarrow> (int \<Rightarrow> int \<Rightarrow> int) \<Rightarrow> (node_id \<times> real) list \<Rightarrow> conn_table
    \<Rightarrow> rnode \<Rightarrow> bool \<Rightarrow> bool \<Rightarrow> (rnode \<times> real) option" where
  "start_election_timeout tc draw delay_distribution penalty_scores_sorted tbl n double_time force_raft =
     (let timeout = real draw / 1000; started = n\<lparr>election_timer := True\<rparr> in
      if adaptive tc n force_raft
      then (case find_rank (self_id n) 0 penalty_scores_sorted None of
          None \<Rightarrow> None
        | Some my_rank \<Rightarrow>
            let lower_bound = safetyMarginLowerBound tc + safetyMarginStepSize tc * my_rank;
                upper_bound = safetyMarginLowerBound tc + safetyMarginStepSize tc * (my_rank + 1);
                delay_ms = delay_distribution lower_bound upper_bound
            in Some (started, case map_of tbl (self_ip n, fst (current_leader n)) of
                 None \<Rightarrow> timeout
               | Some st \<Rightarrow> rtt_timeout tc st double_time delay_ms timeout))
      else Some (started, timeout))"

definition reset_election_timeout :: "timeout_config \<Rightarrow> nat \<Rightarrow> (int \<Rightarrow> int \<Rightarrow> int) \<Rightarrow> (node_id \<times> real) list \<Rightarrow> conn_table
    \<Rightarrow> rnode \<Rightarrow> bool \<Rightarrow> bool \<Rightarrow> (rnode \<times> real) option" where
  "reset_election_timeout tc draw delay_distribution penalty_scores_sorted tbl n double_time force_raft =
     start_election_timeout tc draw delay_distribution penalty_scores_sorted tbl (n\<lparr>election_timer := False\<rparr>)
       (if double_time then True else False) force_raft"

text \<open>What \<open>std::sort\<close> promises, and what \<open>uniform_int_distribution\<close> does.\<close>

definition std_sorted :: "(node_id \<times> real) list \<Rightarrow> (node_id, real) dict \<Rightarrow> bool" where
  "std_sorted ps scores \<longleftrightarrow> sorted (map snd ps) \<and> mset ps = mset scores"

definition draws_between :: "(int \<Rightarrow> int \<Rightarrow> int) \<Rightarrow> bool" where
  "draws_between d \<longleftrightarrow> (\<forall>l u. l \<le> u \<longrightarrow> l \<le> d l u \<and> d l u \<le> u)"

subsection \<open>The window of samples\<close>

text \<open>
  Specification: the samples of a connection are those of the messages before the end of each answer that speak of it
  and are not discarded; the statistics are the last 1000 of them with the totals of all, and the time of the last
  one unless it is the only one.
\<close>

fun sample_of :: "nl_msg \<Rightarrow> ((string \<times> string) \<times> real \<times> real \<times> 32 word \<times> real) option" where
  "sample_of (Diag_msg src_ip dst_ip as now) = (case read_attrs as (0, 0, 0) of
       None \<Rightarrow> None
     | Some (rtt, rtt_var, retrans) \<Rightarrow> Some ((src_ip, dst_ip), real_of_int (uint rtt) / 1000, real_of_int (uint rtt_var) / 1000, retrans, now))"
| "sample_of m = None"

definition rtt_samples :: "nl_msg list list \<Rightarrow> ((string \<times> string) \<times> real \<times> real \<times> 32 word \<times> real) list" where
  "rtt_samples responses = concat (map (\<lambda>ms. List.map_filter sample_of (takeWhile (\<lambda>m. m \<noteq> NLMSG_DONE \<and> m \<noteq> NLMSG_ERROR) ms)) responses)"

definition rtt_history :: "string \<times> string \<Rightarrow> ((string \<times> string) \<times> real \<times> real \<times> 32 word \<times> real) list \<Rightarrow> (real \<times> real \<times> 32 word \<times> real) list" where
  "rtt_history key xs = map snd (filter (\<lambda>x. fst x = key) xs)"

definition last_n :: "nat \<Rightarrow> 'a list \<Rightarrow> 'a list" where
  "last_n k xs = drop (length xs - k) xs"

definition rtt_window :: "(real \<times> real \<times> 32 word \<times> real) list \<Rightarrow> conn_stats option" where
  "rtt_window h = (if h = [] then None else Some
     \<lparr>rttSamples = last_n 1000 (map fst h), rttVarSamples = last_n 1000 (map (\<lambda>(_, v, _, _). v) h),
      retransmissions = sum_list (map (\<lambda>(_, _, r, _). r) h), conn_count = of_nat (length h),
      lastUpdated = (if length h = 1 then 0 else (\<lambda>(_, _, _, t). t) (last h))\<rparr>)"

definition note_sample :: "(string \<times> string) \<times> real \<times> real \<times> 32 word \<times> real \<Rightarrow> conn_table \<Rightarrow> conn_table" where
  "note_sample x tbl = (case x of ((a, b), r, v, t, now) \<Rightarrow> aggregateTcpStats a b r v t now tbl)"

lemma process_samples: "processNetlinkResponse ms tbl = fold note_sample (rtt_samples [ms]) tbl"
  by (induction ms tbl rule: processNetlinkResponse.induct)
    (auto simp: rtt_samples_def map_filter_simps note_sample_def split: option.split)

lemma monitored_samples: "monitored responses = fold note_sample (rtt_samples responses) []"
proof -
  have "fold processNetlinkResponse responses tbl = fold note_sample (rtt_samples responses) tbl" for tbl
    by (induction responses arbitrary: tbl) (simp_all add: process_samples rtt_samples_def)
  then show ?thesis by (simp add: monitored_def)
qed

lemma last_n_snoc:
  assumes "0 < k"
  shows "last_n k (xs @ [x]) = (if k \<le> length (last_n k xs) then tl (last_n k xs) else last_n k xs) @ [x]"
  using assms by (auto simp: last_n_def drop_Suc tl_drop Suc_diff_le)

lemma window_snoc:
  "rtt_window (h @ [(r, v, t, now)]) = Some (case rtt_window h of
      None \<Rightarrow> \<lparr>rttSamples = [r], rttVarSamples = [v], retransmissions = t, conn_count = 1, lastUpdated = 0\<rparr>
    | Some st \<Rightarrow> \<lparr>rttSamples = (if 1000 \<le> length (rttSamples st) then tl (rttSamples st) else rttSamples st) @ [r],
        rttVarSamples = (if 1000 \<le> length (rttSamples st) then tl (rttVarSamples st) else rttVarSamples st) @ [v],
        retransmissions = retransmissions st + t, conn_count = conn_count st + 1, lastUpdated = now\<rparr>)"
proof (cases "h = []")
  case True
  then show ?thesis by (simp add: rtt_window_def last_n_def)
next
  case False
  have len: "length (last_n 1000 (map f h)) = length (last_n 1000 (map fst h))" for f :: "real \<times> real \<times> 32 word \<times> real \<Rightarrow> real"
    by (simp add: last_n_def)
  show ?thesis using False
    by (simp add: rtt_window_def last_n_snoc len [of "\<lambda>(_, v, _, _). v"] add.commute)
qed

lemma window_fold: "map_of (fold note_sample xs []) key = rtt_window (rtt_history key xs)"
proof (induction xs arbitrary: key rule: rev_induct)
  case Nil
  show ?case by (simp add: rtt_history_def rtt_window_def)
next
  case (snoc x xs)
  obtain a b r v t now where x: "x = ((a, b), r, v, t, now)" by (metis prod.exhaust)
  show ?case
  proof (cases "key = (a, b)")
    case True
    then show ?thesis using snoc [of "(a, b)"]
      by (auto simp: x note_sample_def aggregateTcpStats_def rtt_history_def window_snoc update_conv' MAX_SAMPLES_def Let_def split: option.splits)
  next
    case False
    then show ?thesis using snoc [of key]
      by (auto simp: x note_sample_def aggregateTcpStats_def rtt_history_def update_conv' Let_def split: option.splits)
  qed
qed

text \<open>
  C20: The statistics of every connection are those of a sliding window: after any answers of the kernel, the table holds for a
  connection the last 1000 round-trip times and variations reported on it, the number of reports and the sum of
  their retransmission totals modulo 2 to the 32, and nothing for a connection never reported.
\<close>

theorem tcp_window: "map_of (monitored responses) key = rtt_window (rtt_history key (rtt_samples responses))"
  by (simp add: monitored_samples window_fold)

subsection \<open>Bounds\<close>

lemma sample_mean_nonneg: "(\<And>x. x \<in> set xs \<Longrightarrow> 0 \<le> x) \<Longrightarrow> 0 \<le> sample_mean xs"
  by (simp add: sample_mean_def sum_list_nonneg)

lemma last_n_set: "x \<in> set (last_n k xs) \<Longrightarrow> x \<in> set xs"
  unfolding last_n_def by (rule in_set_dropD)

lemma unsigned_real_nonneg: "0 \<le> (unsigned (a :: 32 word) :: real)"
  by (metis of_nat_0_le_iff of_nat_unat)

lemma sample_nonneg: "sample_of m = Some (k, r, v, t, now) \<Longrightarrow> 0 \<le> r \<and> 0 \<le> v"
  by (cases m) (auto simp: unsigned_real_nonneg split: option.splits)

lemma samples_nonneg:
  assumes "(r, v, t, now) \<in> set (rtt_history key (rtt_samples responses))"
  shows "0 \<le> r \<and> 0 \<le> v"
proof -
  from assms obtain k where "(k, r, v, t, now) \<in> set (rtt_samples responses)" by (auto simp: rtt_history_def)
  then obtain m where "sample_of m = Some (k, r, v, t, now)"
    by (auto simp: rtt_samples_def List.map_filter_def)
  then show ?thesis by (rule sample_nonneg)
qed

lemma monitored_means:
  assumes "map_of (monitored responses) key = Some st"
  shows "0 \<le> meanRtt st" "0 \<le> meanRttVar st" "length (rttSamples st) \<le> 1000" "rttSamples st \<noteq> []"
proof -
  let ?h = "rtt_history key (rtt_samples responses)"
  have st: "rttSamples st = last_n 1000 (map fst ?h)" "rttVarSamples st = last_n 1000 (map (\<lambda>(_, v, _, _). v) ?h)" "?h \<noteq> []"
    using assms unfolding monitored_samples window_fold by (auto simp: rtt_window_def split: if_splits)
  have "0 \<le> x" if "x \<in> set (map fst ?h)" for x using that by (auto dest: samples_nonneg)
  then show "0 \<le> meanRtt st" unfolding meanRtt_def st by (blast intro: sample_mean_nonneg dest: last_n_set)
  have "0 \<le> x" if "x \<in> set (map (\<lambda>(_, v, _, _). v) ?h)" for x using that by (auto dest: samples_nonneg)
  then show "0 \<le> meanRttVar st" unfolding meanRttVar_def st by (blast intro: sample_mean_nonneg dest: last_n_set)
  show "length (rttSamples st) \<le> 1000" using st by (simp add: last_n_def)
  have "length ?h - 1000 < length ?h" using st(3) by (simp add: diff_less)
  then show "rttSamples st \<noteq> []" by (simp add: st(1) last_n_def)
qed

lemma jacobson_bounds:
  assumes "map_of (monitored responses) key = Some st"
  shows "0 \<le> jacobsonEst st" "jacobsonEst st \<le> 800"
  using monitored_means [OF assms] by (simp_all add: jacobsonEst_def)

lemma started:
  assumes "start_election_timeout tc draw d ps tbl n dbl force = Some (n', t)" "adaptive tc n force"
  obtains r where "find_rank (self_id n) 0 ps None = Some r" "n' = n\<lparr>election_timer := True\<rparr>"
    "t = (case map_of tbl (self_ip n, fst (current_leader n)) of None \<Rightarrow> real draw / 1000
       | Some st \<Rightarrow> rtt_timeout tc st dbl (d (safetyMarginLowerBound tc + safetyMarginStepSize tc * r)
           (safetyMarginLowerBound tc + safetyMarginStepSize tc * (r + 1))) (real draw / 1000))"
  using assms by (auto simp: start_election_timeout_def Let_def split: option.splits)

lemma jacobson_started:
  assumes "start_election_timeout tc draw d ps tbl n dbl force = Some (n', t)" "adaptive tc n force" "election_timeout_bound tc = Jacobson"
    and "map_of tbl (self_ip n, fst (current_leader n)) = Some st" "0 < meanRtt st"
  shows "\<exists>r. find_rank (self_id n) 0 ps None = Some r \<and> t * 1000 - jacobsonEst st = real_of_int (heartbeatIntervalMargin tc)
    + real_of_int (d (safetyMarginLowerBound tc + safetyMarginStepSize tc * r) (safetyMarginLowerBound tc + safetyMarginStepSize tc * (r + 1)))"
proof -
  from started [OF assms(1,2)] obtain r where r: "find_rank (self_id n) 0 ps None = Some r"
    "t = (case map_of tbl (self_ip n, fst (current_leader n)) of None \<Rightarrow> real draw / 1000
       | Some st \<Rightarrow> rtt_timeout tc st dbl (d (safetyMarginLowerBound tc + safetyMarginStepSize tc * r)
           (safetyMarginLowerBound tc + safetyMarginStepSize tc * (r + 1))) (real draw / 1000))" by blast
  from r(2) have "t * 1000 - jacobsonEst st = real_of_int (heartbeatIntervalMargin tc)
    + real_of_int (d (safetyMarginLowerBound tc + safetyMarginStepSize tc * r) (safetyMarginLowerBound tc + safetyMarginStepSize tc * (r + 1)))"
    using assms(3-5) by (simp add: rtt_timeout_def)
  with r(1) show ?thesis by blast
qed

text \<open>
  C25: How long a replica waits: with Jacobson's estimate, on the statistics of any answers of the kernel, the
  timeout is the drawn one where the leader's connection has no positive round-trip time, and otherwise lies between
  the two margins alone and 800 ms more, in the step of the safety margin that belongs to the replica's
  rank.
\<close>

theorem timeout_bounds:
  assumes "start_election_timeout tc draw d ps (monitored responses) n dbl False = Some (n', t)"
    and "tcpMonitor (config n)" and "election_timeout_bound tc = Jacobson" and "0 \<le> safetyMarginStepSize tc" and "draws_between d"
  shows "election_timer n' \<and> (\<exists>r. find_rank (self_id n) 0 ps None = Some r \<and>
    (case map_of (monitored responses) (self_ip n, fst (current_leader n)) of
       None \<Rightarrow> t = real draw / 1000
     | Some st \<Rightarrow> if meanRtt st = 0 then t = real draw / 1000
         else real_of_int (heartbeatIntervalMargin tc + safetyMarginLowerBound tc + safetyMarginStepSize tc * r) \<le> t * 1000
           \<and> t * 1000 \<le> 800 + real_of_int (heartbeatIntervalMargin tc + safetyMarginLowerBound tc + safetyMarginStepSize tc * (r + 1))))"
proof -
  have "adaptive tc n False" using assms(2,3) by (simp add: adaptive_def)
  from started [OF assms(1) this] obtain r where r: "find_rank (self_id n) 0 ps None = Some r" "n' = n\<lparr>election_timer := True\<rparr>"
    "t = (case map_of (monitored responses) (self_ip n, fst (current_leader n)) of None \<Rightarrow> real draw / 1000
       | Some st \<Rightarrow> rtt_timeout tc st dbl (d (safetyMarginLowerBound tc + safetyMarginStepSize tc * r)
           (safetyMarginLowerBound tc + safetyMarginStepSize tc * (r + 1))) (real draw / 1000))" by blast
  let ?l = "safetyMarginLowerBound tc + safetyMarginStepSize tc * r" and ?u = "safetyMarginLowerBound tc + safetyMarginStepSize tc * (r + 1)"
  have lu: "?l \<le> d ?l ?u" "d ?l ?u \<le> ?u" using assms(4,5) by (simp_all add: draws_between_def algebra_simps)
  show ?thesis
  proof (cases "map_of (monitored responses) (self_ip n, fst (current_leader n))")
    case None
    then show ?thesis using r by simp
  next
    case (Some st)
    note est = jacobson_bounds [OF Some] and mean = monitored_means(1) [OF Some]
    have "t * 1000 = jacobsonEst st + real_of_int (heartbeatIntervalMargin tc) + real_of_int (d ?l ?u)" if "meanRtt st \<noteq> 0"
      using r(3) that mean assms(3) by (simp add: Some rtt_timeout_def)
    moreover have "t = real draw / 1000" if "meanRtt st = 0" using r(3) that by (simp add: Some rtt_timeout_def)
    moreover have "real_of_int ?l \<le> real_of_int (d ?l ?u)" "real_of_int (d ?l ?u) \<le> real_of_int ?u" using lu by (simp_all only: of_int_le_iff)
    ultimately show ?thesis using r(1,2) est by (auto simp: Some)
  qed
qed

subsection \<open>Ranks\<close>

lemma find_rank_keep: "me \<notin> fst ` set ps \<Longrightarrow> find_rank me i ps r = r"
  by (induction me i ps r rule: find_rank.induct) auto

lemma find_rank_Some:
  assumes "find_rank me i ps None = Some r"
  shows "\<exists>k < length ps. r = i + int k \<and> fst (ps ! k) = me"
  using assms
proof (induction ps arbitrary: i rule: rev_induct)
  case (snoc p ps)
  have split: "find_rank me i (ps @ qs) acc = find_rank me (i + int (length ps)) qs (find_rank me i ps acc)" for qs acc
    by (induction ps arbitrary: i acc) (auto simp: algebra_simps)
  show ?case
  proof (cases "fst p = me")
    case True
    then show ?thesis using snoc.prems by (cases p) (auto simp: split intro!: exI [of _ "length ps"])
  next
    case False
    then have "find_rank me i ps None = Some r" using snoc.prems by (cases p) (simp add: split)
    from snoc.IH [OF this] show ?thesis by (auto simp: nth_append)
  qed
qed simp

lemma find_rank_defined: "find_rank me i ps None \<noteq> None \<longleftrightarrow> me \<in> fst ` set ps"
proof -
  have "find_rank me i ps acc = None \<longleftrightarrow> acc = None \<and> me \<notin> fst ` set ps" for acc
    by (induction me i ps acc rule: find_rank.induct) auto
  then show ?thesis by simp
qed

text \<open>A sorted position lies between the number of smaller scores and the number of scores that are not larger.\<close>

lemma sorted_position:
  assumes "sorted (map snd ps)" "k < length ps"
  shows "length (filter (\<lambda>p. snd p < snd (ps ! k)) ps) \<le> k" "k < length (filter (\<lambda>p. snd p \<le> snd (ps ! k)) ps)"
proof -
  have up: "snd (ps ! i) \<le> snd (ps ! j)" if "i \<le> j" "j < length ps" for i j
    using sorted_nth_mono [OF assms(1), of i j] that by simp
  have "filter (\<lambda>p. snd p < snd (ps ! k)) (drop k ps) = []"
  proof (rule filter_False, rule ballI)
    fix p assume "p \<in> set (drop k ps)"
    then obtain j where "p = ps ! (k + j)" "k + j < length ps" by (auto simp: in_set_conv_nth)
    then show "\<not> snd p < snd (ps ! k)" using up [of k "k + j"] by simp
  qed
  then have "filter (\<lambda>p. snd p < snd (ps ! k)) ps = filter (\<lambda>p. snd p < snd (ps ! k)) (take k ps)"
    by (metis append_Nil2 append_take_drop_id filter_append)
  then show "length (filter (\<lambda>p. snd p < snd (ps ! k)) ps) \<le> k"
    by (metis length_filter_le length_take min.bounded_iff order.trans)
  have "filter (\<lambda>p. snd p \<le> snd (ps ! k)) (take (Suc k) ps) = take (Suc k) ps"
  proof (rule filter_True, rule ballI)
    fix p assume "p \<in> set (take (Suc k) ps)"
    then obtain j where "p = ps ! j" "j \<le> k" by (auto simp: in_set_conv_nth)
    then show "snd p \<le> snd (ps ! k)" using up [of j k] assms(2) by simp
  qed
  then have "length (filter (\<lambda>p. snd p \<le> snd (ps ! k)) ps) = Suc k + length (filter (\<lambda>p. snd p \<le> snd (ps ! k)) (drop (Suc k) ps))"
    by (metis append_take_drop_id assms(2) filter_append length_append length_take min.absorb2 Suc_leI)
  then show "k < length (filter (\<lambda>p. snd p \<le> snd (ps ! k)) ps)" by simp
qed

lemma mset_filter_length: "mset xs = mset ys \<Longrightarrow> length (filter P xs) = length (filter P ys)"
  by (metis mset_filter size_mset)

lemma find_rank_score:
  assumes "std_sorted ps scores" "wf_dict scores" "find_rank me 0 ps None = Some r" "map_of scores me = Some s"
  shows "int (length (filter (\<lambda>p. snd p < s) scores)) \<le> r" "r < int (length (filter (\<lambda>p. snd p \<le> s) scores))"
proof -
  from find_rank_Some [OF assms(3)] obtain k where k: "k < length ps" "r = int k" "fst (ps ! k) = me" by auto
  have "ps ! k \<in> set scores" using k(1) assms(1) by (metis nth_mem set_mset_mset std_sorted_def)
  then have s: "snd (ps ! k) = s" using assms(2,4) k(3)
    by (metis map_of_eq_Some_iff option.inject prod.collapse wf_dict_def)
  show "int (length (filter (\<lambda>p. snd p < s) scores)) \<le> r" "r < int (length (filter (\<lambda>p. snd p \<le> s) scores))"
    using sorted_position [OF _ k(1)] assms(1) mset_filter_length [of ps scores] k(2) by (simp_all add: std_sorted_def s)
qed

lemma rank_mono:
  assumes "std_sorted ps scores" "std_sorted qs scores'" "mset scores = mset scores'" "wf_dict scores" "wf_dict scores'"
    and "find_rank a 0 ps None = Some r" "find_rank b 0 qs None = Some r'"
    and "map_of scores a = Some s" "map_of scores' b = Some s'" "s < s'"
  shows "r < r'"
proof -
  have "r < int (length (filter (\<lambda>p. snd p \<le> s) scores))" by (rule find_rank_score [OF assms(1,4,6,8)])
  also have "length (filter (\<lambda>p. snd p \<le> s) scores) \<le> length (filter (\<lambda>p. snd p < s') scores)"
    using assms(10) by (induction scores) auto
  also have "\<dots> = length (filter (\<lambda>p. snd p < s') scores')" by (rule mset_filter_length [OF assms(3)])
  also have "int \<dots> \<le> r'" by (rule find_rank_score [OF assms(2,5,7,9)])
  finally show ?thesis by simp
qed

text \<open>
  C19: The replica with the lower penalty score moves first: when two replicas hold the same scores, each sorted in any order \<open>std::sort\<close> may leave, the one
  with the smaller score has the smaller rank, and with Jacobson's estimate its timeout is not longer than
  the other's by more than the difference of their estimates, whatever the two margins are drawn to be.
\<close>

theorem margins_staggered:
  assumes "std_sorted ps (penalty_scores a)" "std_sorted qs (penalty_scores b)"
    and "mset (penalty_scores a) = mset (penalty_scores b)" "wf_dict (penalty_scores a)" "wf_dict (penalty_scores b)"
    and "map_of (penalty_scores a) (self_id a) = Some s" "map_of (penalty_scores b) (self_id b) = Some s'" "s < s'"
    and "election_timeout_bound tc = Jacobson" "0 \<le> safetyMarginStepSize tc" "draws_between d" "draws_between d'"
    and "tcpMonitor (config a)" "tcpMonitor (config b)"
    and "map_of tbl (self_ip a, fst (current_leader a)) = Some st" "0 < meanRtt st"
    and "map_of tbl' (self_ip b, fst (current_leader b)) = Some st'" "0 < meanRtt st'"
    and "start_election_timeout tc draw d ps tbl a dbl False = Some (a', ta)"
    and "start_election_timeout tc draw' d' qs tbl' b dbl' False = Some (b', tb)"
  shows "(\<exists>r r'. find_rank (self_id a) 0 ps None = Some r \<and> find_rank (self_id b) 0 qs None = Some r' \<and> r < r')
    \<and> ta * 1000 - jacobsonEst st \<le> tb * 1000 - jacobsonEst st'"
proof -
  have adaptive: "adaptive tc a False" "adaptive tc b False" using assms(9,13,14) by (simp_all add: adaptive_def)
  let ?l = "\<lambda>r. safetyMarginLowerBound tc + safetyMarginStepSize tc * r"
  obtain r where r: "find_rank (self_id a) 0 ps None = Some r" "ta * 1000 - jacobsonEst st = real_of_int (heartbeatIntervalMargin tc) + real_of_int (d (?l r) (?l (r + 1)))"
    using jacobson_started [OF assms(19) adaptive(1) assms(9,15,16)] by blast
  obtain r' where r': "find_rank (self_id b) 0 qs None = Some r'" "tb * 1000 - jacobsonEst st' = real_of_int (heartbeatIntervalMargin tc) + real_of_int (d' (?l r') (?l (r' + 1)))"
    using jacobson_started [OF assms(20) adaptive(2) assms(9,17,18)] by blast
  have less: "r < r'" by (rule rank_mono [OF assms(1-5) r(1) r'(1) assms(6-8)])
  have step: "?l (x + 1) \<le> ?l y" if "x < y" for x y using that assms(10) by (simp add: mult_left_mono)
  have up: "?l x \<le> ?l (x + 1)" for x using assms(10) by (simp add: algebra_simps)
  have "d (?l r) (?l (r + 1)) \<le> ?l (r + 1)" using assms(11) up [of r] unfolding draws_between_def by blast
  also have "\<dots> \<le> ?l r'" by (rule step [OF less])
  also have "\<dots> \<le> d' (?l r') (?l (r' + 1))" using assms(12) up [of r'] unfolding draws_between_def by blast
  finally show ?thesis using r r' less by auto
qed


subsection \<open>Witnesses\<close>

definition demo_config :: process_config where
  "demo_config = \<lparr>peerIPs = [''a'', ''b''], clientPort = 1, internalBasePort = 2, eligibleLeaders = [], initialEligibleLeaders = [],
     failureLeader = False, maxHeartbeats = 5, checkFalsePositive = False, tcpMonitor = True, latencyThreshold = 100\<rparr>"

definition demo_timeouts :: timeout_config where
  "demo_timeouts = \<lparr>confidenceLevel = 95 / 100, heartbeatIntervalMargin = 75, safetyMarginLowerBound = 20, safetyMarginStepSize = 10,
     election_timeout_bound = Jacobson\<rparr>"

definition demo_scores :: "(node_id \<times> real) list" where
  "demo_scores = [((''a'', 1), 1), ((''b'', 1), 2)]"

definition demo_node :: "nat \<Rightarrow> rnode" where
  "demo_node i = (Node demo_config i)\<lparr>penalty_scores := demo_scores, current_leader := (''c'', 1)\<rparr>"

definition demo_answers :: "nl_msg list list" where
  "demo_answers = [[Diag_msg ''a'' ''c'' [INET_DIAG_INFO 4000 1000 0 5] 1, Diag_msg ''b'' ''c'' [INET_DIAG_INFO 4000 1000 0 5] 2, NLMSG_DONE]]"

definition demo_stats :: conn_stats where
  "demo_stats = \<lparr>rttSamples = [4], rttVarSamples = [1], retransmissions = 0, conn_count = 1, lastUpdated = 0\<rparr>"

lemma demo_monitored: "monitored demo_answers = [((''a'', ''c''), demo_stats), ((''b'', ''c''), demo_stats)]"
  by (simp add: monitored_def demo_answers_def aggregateTcpStats_def demo_stats_def)

lemma demo_facts:
  "std_sorted demo_scores (penalty_scores (demo_node i))" "wf_dict (penalty_scores (demo_node i))" "draws_between (\<lambda>l u. l)"
  "self_id (demo_node 0) = (''a'', 1)" "self_ip (demo_node 0) = ''a''" "self_id (demo_node 1) = (''b'', 1)" "self_ip (demo_node 1) = ''b''"
  "tcpMonitor (config (demo_node i))" "fst (current_leader (demo_node i)) = ''c''" "penalty_scores (demo_node i) = demo_scores"
  "adaptive demo_timeouts (demo_node i) False"
  by (simp_all add: std_sorted_def demo_node_def demo_scores_def wf_dict_def draws_between_def self_id_def self_ip_def Node_def
    demo_config_def adaptive_def demo_timeouts_def)

lemma demo_start:
  "start_election_timeout demo_timeouts 300 (\<lambda>l u. l) demo_scores (monitored demo_answers) (demo_node 0) False False
     = Some ((demo_node 0)\<lparr>election_timer := True\<rparr>, 101 / 1000)"
  "start_election_timeout demo_timeouts 300 (\<lambda>l u. l) demo_scores (monitored demo_answers) (demo_node 1) False False
     = Some ((demo_node 1)\<lparr>election_timer := True\<rparr>, 111 / 1000)"
  unfolding start_election_timeout_def demo_facts demo_monitored Let_def
  by (simp_all add: adaptive_def demo_facts(8) demo_scores_def demo_stats_def demo_timeouts_def rtt_timeout_def meanRtt_def meanRttVar_def sample_mean_def jacobsonEst_def)

theorem timeout_bounds_witness:
  "start_election_timeout demo_timeouts 300 (\<lambda>l u. l) demo_scores (monitored demo_answers) (demo_node 0) False False
     = Some ((demo_node 0)\<lparr>election_timer := True\<rparr>, 101 / 1000)
   \<and> 95 \<le> 101 / 1000 * (1000 :: real) \<and> find_rank (''a'', 1) 0 demo_scores None = Some 0"
proof -
  have rank: "find_rank (self_id (demo_node 0)) 0 demo_scores None = Some 0" by (simp add: demo_facts demo_scores_def)
  have "election_timeout_bound demo_timeouts = Jacobson" "0 \<le> safetyMarginStepSize demo_timeouts" by (simp_all add: demo_timeouts_def)
  from timeout_bounds [OF demo_start(1) demo_facts(8) this demo_facts(3)] show ?thesis
    using rank demo_start(1) by (simp add: demo_facts demo_monitored)
qed

theorem margins_staggered_witness:
  "find_rank (''a'', 1) 0 demo_scores None = Some 0 \<and> find_rank (''b'', 1) 0 demo_scores None = Some 1 \<and> 101 - jacobsonEst demo_stats \<le> 111 - jacobsonEst demo_stats"
proof -
  have *: "map_of (penalty_scores (demo_node 0)) (self_id (demo_node 0)) = Some 1" "map_of (penalty_scores (demo_node 1)) (self_id (demo_node 1)) = Some 2"
    unfolding demo_facts by (simp_all add: demo_scores_def)
  have stats: "map_of (monitored demo_answers) (self_ip (demo_node 0), fst (current_leader (demo_node 0))) = Some demo_stats"
    "map_of (monitored demo_answers) (self_ip (demo_node 1), fst (current_leader (demo_node 1))) = Some demo_stats" "0 < meanRtt demo_stats"
    unfolding demo_facts demo_monitored by (simp_all add: demo_stats_def meanRtt_def sample_mean_def)
  have same: "mset (penalty_scores (demo_node 0)) = mset (penalty_scores (demo_node 1))" "(1 :: real) < 2"
    "election_timeout_bound demo_timeouts = Jacobson" "0 \<le> safetyMarginStepSize demo_timeouts" by (simp_all add: demo_facts demo_timeouts_def)
  have ranks: "find_rank (''a'', 1) 0 demo_scores None = Some 0" "find_rank (''b'', 1) 0 demo_scores None = Some 1" by (simp_all add: demo_scores_def)
  from margins_staggered [OF demo_facts(1) demo_facts(1) same(1) demo_facts(2) demo_facts(2) * same(2-4) demo_facts(3) demo_facts(3)
    demo_facts(8) demo_facts(8) stats(1) stats(3) stats(2) stats(3) demo_start]
  show ?thesis using ranks by simp
qed


end
