(* ===== verification/Client_Log.thy ===== *)
theory Client_Log
  imports Raft_Client Throughput
begin

text \<open>
  The log of a client and the script that summarises it: what \<open>src/client.cpp\<close> prints when a response arrives is what
  \<open>scripts/remote_thp_summary.py\<close> looks for, so the throughput it reports is that of the client's successful responses. The logging library
  is an argument; \<open>glog_format\<close> is its documented line format.
\<close>

subsection \<open>The lines\<close>

text \<open>\<open>std::fixed << std::setprecision(3)\<close>: three decimals, ties to the even one.\<close>

definition nearest_even :: "real \<Rightarrow> int" where
  "nearest_even y = (let k = \<lfloor>y\<rfloor>; d = y - of_int k in if d < 1 / 2 \<or> d = 1 / 2 \<and> even k then k else k + 1)"

definition fixed3 :: "real \<Rightarrow> string" where
  "fixed3 x = (let k = nearest_even (\<bar>x\<bar> * 1000) in (if x < 0 then ''-'' else []) @ show_int (k div 1000) @ ''.'' @ pad 3 (k mod 1000))"

definition leader_text :: "client_response \<Rightarrow> string" where
  "leader_text r = (case cs_leader_id r of None \<Rightarrow> [] | Some (ip, port) \<Rightarrow> ip @ '':'' @ show_int port)"

text \<open>The text a replica puts into its answer.\<close>

definition response_text :: "client_response \<Rightarrow> string" where
  "response_text r = (if cs_success r then ''1'' else ''Not a leader. Leader: '' @ leader_text r)"

fun client_message :: "client_line \<Rightarrow> string" where
  "client_message (Begin_of_Leadership ip) = ''Begin of Leadership under: '' @ ip"
| "client_message (End_of_Leadership ip) = ''End of Leadership under: '' @ ip"
| "client_message (Received_ClientResponse latency r sender) =
     ''Received ClientResponse: latency= '' @ (case latency of None \<Rightarrow> [] | Some x \<Rightarrow> fixed3 x)
     @ '', success='' @ (if cs_success r then ''1'' else ''0'') @ '', from='' @ sender
     @ '', response='' @ [CHR 34] @ response_text r @ [CHR 34] @ '', client_id='' @ show_int (cs_client_id r)
     @ '', request_id='' @ show_int (cs_request_id r) @ '', leader_id='' @ leader_text r"

subsection \<open>glog\<close>

definition glog_date :: "datetime \<Rightarrow> string" where
  "glog_date t = show_int (dt_year t) @ pad 2 (dt_month t) @ pad 2 (dt_day t)"

definition glog_time :: "datetime \<Rightarrow> string" where
  "glog_time t = pad 2 (dt_hour t) @ '':'' @ pad 2 (dt_minute t) @ '':'' @ pad 2 (dt_second t) @ ''.'' @ pad 6 (dt_us t)"

text \<open>\<open>I<date> <time> <thread> <file>:<line>] <message>\<close>\<close>

definition glog_format :: "(datetime \<Rightarrow> string \<Rightarrow> string) \<Rightarrow> bool" where
  "glog_format g \<longleftrightarrow> (\<forall>t m. \<exists>u. g t m = ''I'' @ glog_date t @ '' '' @ glog_time t @ '' '' @ u @ ''] '' @ m @ [newline]
     \<and> newline \<notin> set u \<and> CHR ''='' \<notin> set u)"

definition clock_years :: "datetime \<Rightarrow> bool" where
  "clock_years t \<longleftrightarrow> valid_dt t \<and> 1000 \<le> dt_year t"

lemma glog_parts:
  assumes "clock_years t"
  shows "length (glog_date t) = 8" "list_all is_digit (glog_date t)" "strptime (glog_date t @ '' '' @ glog_time t) = Inr t"
    "\<exists>h m s f. glog_time t = h @ '':'' @ m @ '':'' @ s @ ''.'' @ f \<and> length h = 2 \<and> length m = 2 \<and> length s = 2 \<and> length f = 6
       \<and> list_all is_digit h \<and> list_all is_digit m \<and> list_all is_digit s \<and> list_all is_digit f"
proof -
  have v: "valid_dt t" and b: "0 \<le> dt_month t" "dt_month t < 10 ^ 2" "0 \<le> dt_day t" "dt_day t < 10 ^ 2" "0 \<le> dt_hour t"
    "dt_hour t < 10 ^ 2" "0 \<le> dt_minute t" "dt_minute t < 10 ^ 2" "0 \<le> dt_second t" "dt_second t < 10 ^ 2" "0 \<le> dt_us t" "dt_us t < 10 ^ 6"
    "0 \<le> dt_year t" "length (show_int (dt_year t)) = 4"
    using assms days_in_month_le [of "dt_year t" "dt_month t"] length_show_year [of "dt_year t"] by (auto simp: clock_years_def valid_dt_def)
  note len = length_pad [OF b(1,2)] length_pad [OF b(3,4)] length_pad [OF b(5,6)] length_pad [OF b(7,8)] length_pad [OF b(9,10)] length_pad [OF b(11,12)] b(14)
  note dig = list_all_show_int [OF b(13)] list_all_pad [OF b(1), of 2] list_all_pad [OF b(3), of 2] list_all_pad [OF b(5), of 2]
    list_all_pad [OF b(7), of 2] list_all_pad [OF b(9), of 2] list_all_pad [OF b(11), of 6]
  show "length (glog_date t) = 8" using len by (simp add: glog_date_def)
  show "list_all is_digit (glog_date t)" using dig by (simp add: glog_date_def)
  show "\<exists>h m s f. glog_time t = h @ '':'' @ m @ '':'' @ s @ ''.'' @ f \<and> length h = 2 \<and> length m = 2 \<and> length s = 2 \<and> length f = 6
       \<and> list_all is_digit h \<and> list_all is_digit m \<and> list_all is_digit s \<and> list_all is_digit f"
    using len dig by (intro exI [of _ "pad 2 (dt_hour t)"] exI [of _ "pad 2 (dt_minute t)"] exI [of _ "pad 2 (dt_second t)"] exI [of _ "pad 6 (dt_us t)"])
      (simp add: glog_time_def)
  obtain y1 y2 y3 y4 where ys: "show_int (dt_year t) = [y1, y2, y3, y4]" using len(7) by (auto simp: length_Suc_conv eval_nat_numeral)
  obtain m1 m2 where ms: "pad 2 (dt_month t) = [m1, m2]" using len(1) by (auto simp: length_Suc_conv eval_nat_numeral)
  obtain d1 d2 where ds: "pad 2 (dt_day t) = [d1, d2]" using len(2) by (auto simp: length_Suc_conv eval_nat_numeral)
  obtain h1 h2 where hs: "pad 2 (dt_hour t) = [h1, h2]" using len(3) by (auto simp: length_Suc_conv eval_nat_numeral)
  obtain i1 i2 where mi: "pad 2 (dt_minute t) = [i1, i2]" using len(4) by (auto simp: length_Suc_conv eval_nat_numeral)
  obtain s1 s2 where ss: "pad 2 (dt_second t) = [s1, s2]" using len(5) by (auto simp: length_Suc_conv eval_nat_numeral)
  obtain f1 f2 f3 f4 f5 f6 where fs: "pad 6 (dt_us t) = [f1, f2, f3, f4, f5, f6]" using len(6) by (auto simp: length_Suc_conv eval_nat_numeral)
  note parts = ys ms ds hs mi ss fs
  have s: "glog_date t @ '' '' @ glog_time t = [y1, y2, y3, y4, m1, m2, d1, d2, CHR '' '', h1, h2, CHR '':'', i1, i2, CHR '':'', s1, s2, CHR ''.'', f1, f2, f3, f4, f5, f6]"
    by (simp add: glog_date_def glog_time_def parts)
  have vals: "int_of_digits [y1, y2, y3, y4] = dt_year t" "int_of_digits [m1, m2] = dt_month t" "int_of_digits [d1, d2] = dt_day t"
    "int_of_digits [h1, h2] = dt_hour t" "int_of_digits [i1, i2] = dt_minute t" "int_of_digits [s1, s2] = dt_second t" "int_of_digits [f1, f2, f3, f4, f5, f6] = dt_us t"
    using b by (metis parts int_of_digits_show_int int_of_digits_pad)+
  have "glog_shape (glog_date t @ '' '' @ glog_time t)" using dig unfolding s by (simp add: glog_shape_def parts)
  then have "strptime (glog_date t @ '' '' @ glog_time t) = mk_datetime (dt_year t) (dt_month t) (dt_day t) (dt_hour t) (dt_minute t) (dt_second t) (dt_us t)"
    unfolding s by (simp add: strptime_def num_at_def fraction_def vals)
  also have "\<dots> = Inr t" using v by (cases t) (simp add: mk_datetime_def)
  finally show "strptime (glog_date t @ '' '' @ glog_time t) = Inr t" .
qed

subsection \<open>The pattern on a line\<close>

lemma rxm_rseqI: "rxm r x y \<Longrightarrow> rxm (rseq rs) y z \<Longrightarrow> rxm (rseq (r # rs)) x z"
  unfolding rseq.simps by (rule rxm.Cat)

lemma rxm_rseq_lit_atI: "w \<noteq> [] \<Longrightarrow> rxm (rseq rs) (Some (last w), s, g) z \<Longrightarrow> rxm (rseq (lit w # rs)) (p, w @ s, g) z"
  by (rule rxm_rseqI) (simp_all add: rxm_lit)

lemma rxm_repI: "list_all P w \<Longrightarrow> w \<noteq> [] \<Longrightarrow> rxm (rep (length w) (Sym P)) (p, w @ s, g) (Some (last w), s, g)"
proof (induction w arbitrary: p)
  case (Cons c w)
  then show ?case by (cases w) auto
qed simp

lemma rxm_lstar_symI: "list_all P w \<Longrightarrow> rxm (LStar (Sym P)) (p, w @ s, g) (if w = [] then p else Some (last w), s, g)"
proof (induction w arbitrary: p)
  case Nil
  then show ?case by (simp add: rxm.LStar_stop)
next
  case (Cons c w)
  then have "rxm (LStar (Sym P)) (Some c, w @ s, g) (if w = [] then Some c else Some (last w), s, g)" by simp
  with Cons.prems show ?case
    using rxm.LStar_more [of "Sym P" p "c # w @ s" g "Some c" "w @ s" g "(if w = [] then Some c else Some (last w), s, g)"] by auto
qed

primrec captureless :: "regex \<Rightarrow> bool" where
  "captureless Eps = True"
| "captureless (Sym P) = True"
| "captureless (Cat r q) = (captureless r \<and> captureless q)"
| "captureless (Alt r q) = (captureless r \<and> captureless q)"
| "captureless (Star r) = captureless r"
| "captureless (LStar r) = captureless r"
| "captureless (Cap n r) = False"
| "captureless Bos = True"
| "captureless Eos = True"
| "captureless Wordb = True"

lemma captureless_groups: "rxm r x y \<Longrightarrow> captureless r \<Longrightarrow> groups y = groups x"
  by (induction rule: rxm.induct) auto

lemma captureless_lit [simp]: "captureless (lit w)"
  by (induction w) simp_all

lemma rxm_rseqE:
  assumes "rxm (rseq (r # rs)) x z"
  obtains p s g where "rxm r x (p, s, g)" "rxm (rseq rs) (p, s, g) z"
  using assms by auto

lemma rxm_capE:
  assumes "rxm (rseq (Cap n r # rs)) (p, s, g) z"
  obtains p' s' g' where "rxm r (p, s, g) (p', s', g')" "rxm (rseq rs) (p', s', (n, take (length s - length s') s) # g') z"
  using assms by auto

definition clock_text :: "string \<Rightarrow> bool" where
  "clock_text w \<longleftrightarrow> (\<exists>h m s f. w = h @ '':'' @ m @ '':'' @ s @ ''.'' @ f \<and> length h = 2 \<and> length m = 2 \<and> length s = 2 \<and> length f = 6
     \<and> list_all is_digit h \<and> list_all is_digit m \<and> list_all is_digit s \<and> list_all is_digit f)"

lemma rxm_digitsI:
  "length v = n \<Longrightarrow> 0 < n \<Longrightarrow> list_all is_digit v \<Longrightarrow> rxm (rseq rs) (Some (last v), s, g) z \<Longrightarrow> rxm (rseq (rep n rdigit # rs)) (p, v @ s, g) z"
  using rxm_repI [of is_digit v p s g] by (intro rxm_rseqI [of "rep n rdigit"]) (auto simp: rdigit_def)

lemma rxm_clock:
  assumes "clock_text w"
  shows "\<exists>c. rxm clock_re (p, w @ s, g) (c, s, g)"
proof -
  obtain h m sec f where w: "w = h @ '':'' @ m @ '':'' @ sec @ ''.'' @ f" and l: "length h = 2" "length m = 2" "length sec = 2" "length f = 6"
    and d: "list_all is_digit h" "list_all is_digit m" "list_all is_digit sec" "list_all is_digit f" using assms unfolding clock_text_def by blast
  have "rxm clock_re (p, h @ '':'' @ m @ '':'' @ sec @ ''.'' @ f @ s, g) (Some (last f), s, g)"
    unfolding clock_re_def using l d by (intro rxm_rseq_lit_atI rxm_digitsI) simp_all
  then show ?thesis unfolding w append_assoc by blast
qed

text \<open>Patterns that take a fixed number of characters and capture nothing.\<close>

definition takes :: "regex \<Rightarrow> nat \<Rightarrow> bool" where
  "takes r n \<longleftrightarrow> (\<forall>p s g p' s' g'. rxm r (p, s, g) (p', s', g') \<longrightarrow> (\<exists>w. s = w @ s' \<and> length w = n \<and> g' = g))"

lemma takes_lit: "takes (lit w) (length w)"
  by (auto simp: takes_def rxm_lit)

lemma takes_digits: "takes (rep n rdigit) n"
  by (auto simp: takes_def rdigit_def dest!: rxm_rep_sym)

lemma takes_Nil: "takes (rseq []) 0"
  by (simp add: takes_def)

lemma takes_Cons:
  assumes "takes r a" "takes (rseq rs) b"
  shows "takes (rseq (r # rs)) (a + b)"
  unfolding takes_def
proof (intro allI impI)
  fix p s g p' s' g'
  assume "rxm (rseq (r # rs)) (p, s, g) (p', s', g')"
  then obtain p1 s1 g1 where 1: "rxm r (p, s, g) (p1, s1, g1)" "rxm (rseq rs) (p1, s1, g1) (p', s', g')" by auto
  from assms(1) 1(1) obtain u where "s = u @ s1" "length u = a" "g1 = g" unfolding takes_def by blast
  moreover from assms(2) 1(2) obtain v where "s1 = v @ s'" "length v = b" "g' = g1" unfolding takes_def by blast
  ultimately show "\<exists>w. s = w @ s' \<and> length w = a + b \<and> g' = g" by (intro exI [of _ "u @ v"]) simp
qed

lemma takes_clock: "takes clock_re 15"
  unfolding clock_re_def
  using takes_Cons [OF takes_digits [of 2] takes_Cons [OF takes_lit [of "'':''"] takes_Cons [OF takes_digits [of 2] takes_Cons [OF takes_lit [of "'':''"]
    takes_Cons [OF takes_digits [of 2] takes_Cons [OF takes_lit [of "''.''"] takes_Cons [OF takes_digits [of 6] takes_Nil]]]]]]]
  by (simp only: list.size add_Suc add_Suc_right add_0_right add_0 numeral_plus_numeral) simp

subsection \<open>Successful responses\<close>

lemma thp_groups:
  assumes "rxm thp_RE_LINE (None, ''I'' @ D @ '' '' @ T @ Y, []) z" "length D = 8" "length T = 15" "\<not> is_space (hd T)"
  shows "groups z = [(2, T), (1, D)]"
proof -
  let ?X = "D @ '' '' @ T @ Y"
  let ?tail = "[rspace, LStar rdot, lit ''Received ClientResponse:'', LStar rdot, Wordb, lit ''success=1'', Wordb]"
  let ?body = "Cap 1 (rep 8 rdigit) # plus rspace # Cap 2 clock_re # ?tail"
  obtain pb sb gb where "rxm Bos (None, ''I'' @ ?X, []) (pb, sb, gb)" and B: "rxm (rseq (lit ''I'' # ?body)) (pb, sb, gb) z"
    using assms(1) unfolding thp_RE_LINE_def by (rule rxm_rseqE)
  then have b: "sb = ''I'' @ ?X" "gb = []" by simp_all
  from B obtain p0 s0 g0 where 0: "rxm (lit ''I'') (pb, ''I'' @ ?X, []) (p0, s0, g0)" and X: "rxm (rseq ?body) (p0, s0, g0) z"
    unfolding b by (rule rxm_rseqE)
  from 0 have s0: "s0 = ?X" "g0 = []" by (simp_all only: rxm_lit) auto
  from X obtain p1 s1 g1 where 1: "rxm (rep 8 rdigit) (p0, ?X, []) (p1, s1, g1)"
    and X2: "rxm (rseq (plus rspace # Cap 2 clock_re # ?tail)) (p1, s1, (1, take (length ?X - length s1) ?X) # g1) z"
    unfolding s0 by (rule rxm_capE)
  from takes_digits 1 obtain w where "?X = w @ s1" "length w = 8" "g1 = []" unfolding takes_def by blast
  then have s1: "s1 = '' '' @ T @ Y" "g1 = []" "take (length ?X - length s1) ?X = D" using assms(2) by (auto simp: append_eq_append_conv)
  from X2 obtain p2 s2 g2 where 2: "rxm (plus rspace) (p1, s1, [(1, D)]) (p2, s2, g2)" and X3: "rxm (rseq (Cap 2 clock_re # ?tail)) (p2, s2, g2) z"
    unfolding s1(2,3) by (rule rxm_rseqE)
  from rxm_plus_sym [OF 2 [unfolded rspace_def]] obtain v where v: "s1 = v @ s2" "v \<noteq> []" "list_all is_space v" "g2 = [(1, D)]" by blast
  have "v = '' ''"
  proof (cases v)
    case (Cons c v')
    with v(1) s1(1) have "T @ Y = v' @ s2" by simp
    with v(3) Cons assms(3,4) have "v' = []" by (cases v'; cases T) auto
    with Cons v(1) s1(1) show ?thesis by simp
  qed (use v in simp)
  then have s2: "s2 = T @ Y" using v(1) s1(1) by simp
  from X3 obtain p3 s3 g3 where 3: "rxm clock_re (p2, s2, g2) (p3, s3, g3)" and X4: "rxm (rseq ?tail) (p3, s3, (2, take (length s2 - length s3) s2) # g3) z"
    by (rule rxm_capE)
  from takes_clock 3 obtain t where "s2 = t @ s3" "length t = 15" "g3 = g2" unfolding takes_def by blast
  then have s3: "take (length s2 - length s3) s2 = T" "g3 = [(1, D)]" using s2 assms(3) v(4) by (auto simp: append_eq_append_conv)
  have "captureless (rseq ?tail)" by (simp add: rspace_def rdot_def del: lit.simps)
  from captureless_groups [OF X4 this] have "groups z = (2, take (length s2 - length s3) s2) # g3" by simp
  then show ?thesis by (simp add: s3)
qed

lemma rxm_capI: "rxm r (p, w @ s, g) (p', s, g) \<Longrightarrow> rxm (rseq rs) (p', s, (n, w) # g) z \<Longrightarrow> rxm (rseq (Cap n r # rs)) (p, w @ s, g) z"
  using rxm.Cap [of r p "w @ s" g p' s g n] by (intro rxm_rseqI) auto

lemma rxm_dotsI:
  "newline \<notin> set w \<Longrightarrow> rxm (rseq rs) (if w = [] then p else Some (last w), s, g) z \<Longrightarrow> rxm (rseq (LStar rdot # rs)) (p, w @ s, g) z"
  unfolding rdot_def by (rule rxm_rseqI [OF rxm_lstar_symI]) (auto simp: list_all_iff)

lemma thp_success:
  assumes "length D = 8" "list_all is_digit D" "clock_text T" and "newline \<notin> set A" and "newline \<notin> set B" "B \<noteq> []" "\<not> is_word (last B)" and "C \<noteq> []" "\<not> is_word (hd C)"
  shows "re_search thp_RE_LINE (''I'' @ D @ '' '' @ T @ '' '' @ A @ ''Received ClientResponse:'' @ B @ ''success=1'' @ C) = Some [(2, T), (1, D)]"
proof -
  let ?Y = "'' '' @ A @ ''Received ClientResponse:'' @ B @ ''success=1'' @ C"
  obtain h u where h: "T = h @ u" "length h = 2" "list_all is_digit h" "length u = 13" using assms(3) unfolding clock_text_def by auto
  then have T: "length T = 15" "\<not> is_space (hd T)"
    using is_digit_not_space [of "hd h"] by (cases h; simp)+
  have space: "is_space (CHR '' '')" by (simp add: is_space_def code_def)
  have word: "is_word (CHR ''s'')" "is_word (CHR ''1'')" by (simp_all add: is_word_def is_digit_def code_def)
  have one: "rxm (rep 8 rdigit) (p, D @ s, g) (Some (last D), s, g)" for p s g
    using rxm_repI [OF assms(2), of p s g] assms(1) by (cases "D = []") (auto simp: rdigit_def)
  obtain c where clock: "rxm clock_re (Some (CHR '' ''), T @ ?Y, [(1, D)]) (c, ?Y, [(1, D)])" using rxm_clock [OF assms(3)] by blast
  have plus: "rxm (plus rspace) (p, '' '' @ s, g) (Some (CHR '' ''), s, g)" for p s g
    using space by (auto simp: plus_def rspace_def intro: rxm.Star_stop)
  have sp: "rxm rspace (p, '' '' @ s, g) (Some (CHR '' ''), s, g)" for p s g using space by (simp add: rspace_def)
  have end1: "rxm (rseq [Wordb, lit ''success=1'', Wordb]) (Some (last B), ''success=1'' @ C, g) (Some (CHR ''1''), C, g)" for g
    using assms(7-9) word by (cases C) (simp_all add: at_wordb_def)
  let ?z = "(Some (CHR ''1''), C, [(2, T), (1, D)])"
  have end2: "rxm (rseq [LStar rdot, lit ''Received ClientResponse:'', LStar rdot, Wordb, lit ''success=1'', Wordb])
      (Some (CHR '' ''), A @ ''Received ClientResponse:'' @ B @ ''success=1'' @ C, [(2, T), (1, D)]) ?z"
    using end1 assms(4-6) by (intro rxm_dotsI rxm_rseq_lit_atI) simp_all
  have "rxm thp_RE_LINE (None, ''I'' @ D @ '' '' @ T @ ?Y, []) ?z"
    unfolding thp_RE_LINE_def
    by (rule rxm_rseqI [OF rxm.Bos], rule rxm_rseq_lit_atI, simp, rule rxm_capI [OF one], rule rxm_rseqI [OF plus], rule rxm_capI [OF clock], rule rxm_rseqI [OF sp], rule end2)
  from first_unique [OF this thp_groups [OF _ assms(1) T]] show ?thesis using re_search_first by fastforce
qed

subsection \<open>Other lines\<close>

lemma sublist_around:
  assumes "c \<notin> set w" "sublist w (a @ c # b)"
  shows "sublist w a \<or> sublist w b"
proof -
  from assms(2) obtain u v where uv: "a @ c # b = u @ w @ v" by (auto simp: sublist_def)
  have "length u + length w \<le> length a \<or> length a < length u"
  proof (rule ccontr)
    assume n: "\<not> ?thesis"
    then have "(u @ w @ v) ! length a = w ! (length a - length u)" "length a - length u < length w" by (auto simp: nth_append)
    moreover have "(a @ c # b) ! length a = c" by simp
    ultimately show False using assms(1) uv by (metis nth_mem)
  qed
  then show ?thesis
  proof
    assume le: "length u + length w \<le> length a"
    have "take (length a) (u @ w @ v) = a" by (simp flip: uv)
    then have "a = u @ w @ take (length a - length u - length w) v" using le by simp
    then show ?thesis by (metis sublist_appendI)
  next
    assume lt: "length a < length u"
    have "drop (Suc (length a)) (u @ w @ v) = b" by (simp flip: uv)
    then have "b = drop (Suc (length a)) u @ w @ v" using lt by simp
    then show ?thesis by (metis sublist_appendI)
  qed
qed

lemma sublist_equals:
  assumes "CHR ''='' \<notin> set x" "CHR ''='' \<notin> set y" "CHR ''='' \<notin> set a" "CHR ''='' \<notin> set b"
    and "sublist (x @ ''='' @ y) (a @ ''='' @ b)"
  shows "suffix x a \<and> prefix y b"
proof -
  from assms(5) obtain u v where uv: "a @ ''='' @ b = u @ (x @ ''='' @ y) @ v" by (auto simp: sublist_def)
  have tw: "takeWhile (\<lambda>c. c \<noteq> CHR ''='') (a @ ''='' @ b) = a" "dropWhile (\<lambda>c. c \<noteq> CHR ''='') (a @ ''='' @ b) = ''='' @ b"
    using assms(3) by (auto simp: takeWhile_append dropWhile_append)
  have eq: "CHR ''='' \<notin> set u"
  proof
    assume "CHR ''='' \<in> set u"
    then have "2 \<le> count_list (a @ ''='' @ b) (CHR ''='')" unfolding uv using count_list_0_iff [of u "CHR ''=''"] by simp
    moreover have "count_list (a @ ''='' @ b) (CHR ''='') = 1" using assms(3,4) by (simp add: count_list_0_iff)
    ultimately show False by linarith
  qed
  have "takeWhile (\<lambda>c. c \<noteq> CHR ''='') (u @ (x @ ''='' @ y) @ v) = u @ x" "dropWhile (\<lambda>c. c \<noteq> CHR ''='') (u @ (x @ ''='' @ y) @ v) = ''='' @ y @ v"
    using eq assms(1) by (auto simp: takeWhile_append dropWhile_append)
  then have "a = u @ x" "b = y @ v" using tw uv by simp_all
  then show ?thesis by (auto simp: suffix_def prefix_def)
qed

definition clean :: "string \<Rightarrow> bool" where
  "clean s \<longleftrightarrow> CHR ''='' \<notin> set s \<and> newline \<notin> set s"

text \<open>The addresses that occur in a line hold no equals sign and no line break.\<close>

fun clean_line :: "client_line \<Rightarrow> bool" where
  "clean_line (Begin_of_Leadership ip) = clean ip"
| "clean_line (End_of_Leadership ip) = clean ip"
| "clean_line (Received_ClientResponse latency r sender) = (clean sender \<and> (case cs_leader_id r of None \<Rightarrow> True | Some l \<Rightarrow> clean (fst l)))"

fun succeeded :: "client_line \<Rightarrow> bool" where
  "succeeded (Received_ClientResponse latency r sender) = cs_success r"
| "succeeded l = False"

lemma clean_append: "clean (a @ b) \<longleftrightarrow> clean a \<and> clean b"
  by (auto simp: clean_def)

lemma digits_clean: "list_all is_digit s \<Longrightarrow> clean s"
  by (auto simp: clean_def list_all_iff is_digit_def code_def)

lemma clean_show_int: "clean (show_int n)"
  using show_int_chars [of "CHR ''=''" n] show_int_chars [of newline n] by (auto simp: clean_def is_digit_def code_def)

lemma clean_literals: "clean []" "clean ''-''" "clean ''.''" "clean '':''"
  by (simp_all add: clean_def)

lemma clean_fixed3: "clean (fixed3 x)"
  unfolding fixed3_def Let_def clean_append
  using digits_clean [OF list_all_pad [of "nearest_even (\<bar>x\<bar> * 1000) mod 1000" 3]] clean_show_int clean_literals by simp

lemma clean_leader_text: "(case cs_leader_id r of None \<Rightarrow> True | Some l \<Rightarrow> clean (fst l)) \<Longrightarrow> clean (leader_text r)"
  unfolding leader_text_def using clean_show_int clean_literals by (auto simp only: clean_append fst_conv split: option.splits prod.splits)

abbreviation success_mark :: string where
  "success_mark \<equiv> ''success=1''"

lemma no_mark: "CHR ''='' \<notin> set s \<Longrightarrow> \<not> sublist success_mark s"
  by (auto simp: sublist_def)

lemma no_mark_key:
  "CHR ''='' \<notin> set a \<Longrightarrow> CHR ''='' \<notin> set b \<Longrightarrow> \<not> suffix ''success'' a \<or> \<not> prefix ''1'' b \<Longrightarrow> \<not> sublist success_mark (a @ ''='' @ b)"
  using sublist_equals [of "''success''" "''1''" a b] by auto

lemma no_mark_split:
  assumes "\<not> sublist success_mark a" "\<not> sublist success_mark b"
  shows "\<not> sublist success_mark (a @ '' '' @ b)" "\<not> sublist success_mark (a @ '','' @ b)"
  using sublist_around [of "CHR '' ''" success_mark a b] sublist_around [of "CHR '',''" success_mark a b] assms by auto

text \<open>The line of an unsuccessful response: the only equals sign after \<open>success\<close> is followed by a zero.\<close>

lemma no_mark_failure:
  assumes "CHR ''='' \<notin> set u" "CHR ''='' \<notin> set l" "CHR ''='' \<notin> set w" "CHR ''='' \<notin> set r" "CHR ''='' \<notin> set i" "CHR ''='' \<notin> set q" "CHR ''='' \<notin> set d"
  shows "\<not> sublist success_mark (u @ '' '' @ (''latency'' @ ''='' @ []) @ '' '' @ l @ '' '' @ (''success'' @ ''='' @ ''0'') @ '','' @ ('' from'' @ ''='' @ w)
    @ '','' @ ('' response'' @ ''='' @ r) @ '','' @ ('' client_id'' @ ''='' @ i) @ '','' @ ('' request_id'' @ ''='' @ q) @ '','' @ ('' leader_id'' @ ''='' @ d))"
  by (intro no_mark_split no_mark_key) (use assms in \<open>simp_all add: no_mark suffix_to_prefix\<close>)

lemma unsuccessful_unmarked:
  assumes "clean_line l" "\<not> succeeded l" "CHR ''='' \<notin> set u"
  shows "\<not> sublist success_mark (u @ client_message l @ [newline])"
proof (cases l)
  case (Received_ClientResponse latency r sender)
  let ?lat = "(case latency of None \<Rightarrow> [] | Some x \<Rightarrow> fixed3 x) @ '',''"
  have f: "cs_success r = False" using assms(2) Received_ClientResponse by simp
  have c: "clean sender" "clean (leader_text r)" using assms(1) clean_leader_text Received_ClientResponse by auto
  then have e: "CHR ''='' \<notin> set sender" "CHR ''='' \<notin> set (leader_text r)" "CHR ''='' \<notin> set (show_int n)" "CHR ''='' \<notin> set ?lat" for n
    using clean_show_int [of n] clean_fixed3 by (auto simp: clean_def split: option.splits)
  have "u @ client_message l @ [newline] = (u @ ''Received ClientResponse:'') @ '' '' @ (''latency'' @ ''='' @ []) @ '' '' @ ?lat @ '' '' @ (''success'' @ ''='' @ ''0'')
    @ '','' @ ('' from'' @ ''='' @ sender) @ '','' @ ('' response'' @ ''='' @ [CHR 34] @ response_text r @ [CHR 34])
    @ '','' @ ('' client_id'' @ ''='' @ show_int (cs_client_id r)) @ '','' @ ('' request_id'' @ ''='' @ show_int (cs_request_id r))
    @ '','' @ ('' leader_id'' @ ''='' @ leader_text r @ [newline])"
    by (simp add: Received_ClientResponse f)
  then show ?thesis using no_mark_failure [of "u @ ''Received ClientResponse:''" ?lat sender "[CHR 34] @ response_text r @ [CHR 34]"
      "show_int (cs_client_id r)" "show_int (cs_request_id r)" "leader_text r @ [newline]"] e assms(3)
    by (simp only:) (simp add: response_text_def f)
qed (use assms in \<open>auto simp: clean_def intro!: no_mark\<close>)

lemma unmarked_unread: "\<not> sublist success_mark s \<Longrightarrow> re_search thp_RE_LINE s = None"
  using re_search_rseq_lit [of "[Bos, lit ''I'', Cap 1 (rep 8 rdigit), plus rspace, Cap 2 clock_re, rspace, LStar rdot, lit ''Received ClientResponse:'', LStar rdot, Wordb, lit ''success=1'', Wordb]" s "''success=1''"]
  unfolding thp_RE_LINE_def str_in_sublist by (metis list.set_intros)

lemma glog_line:
  assumes "glog_format g"
  obtains u where "g t m = ''I'' @ glog_date t @ '' '' @ glog_time t @ '' '' @ u @ ''] '' @ m @ [newline]" "newline \<notin> set u" "CHR ''='' \<notin> set u"
  using assms unfolding glog_format_def by blast

lemma clock_text_glog: "clock_years t \<Longrightarrow> clock_text (glog_time t)"
  unfolding clock_text_def by (rule glog_parts(4))

lemma glog_time_clean: "clock_years t \<Longrightarrow> clean (glog_date t) \<and> clean (glog_time t)"
  using digits_clean [OF glog_parts(2)] glog_parts(4) [of t] digits_clean clean_literals(3,4) by (metis clean_append)

lemma thp_reads_success:
  assumes "glog_format g" "clock_years t" "clean_line l" "succeeded l"
  shows "re_search thp_RE_LINE (g t (client_message l)) = Some [(2, glog_time t), (1, glog_date t)]"
proof (cases l)
  case (Received_ClientResponse latency r sender)
  let ?lat = "'' latency= '' @ (case latency of None \<Rightarrow> [] | Some x \<Rightarrow> fixed3 x) @ '', ''"
  let ?from = "'', from='' @ sender @ '', response='' @ [CHR 34] @ response_text r @ [CHR 34] @ '', client_id='' @ show_int (cs_client_id r)
     @ '', request_id='' @ show_int (cs_request_id r) @ '', leader_id='' @ leader_text r @ [newline]"
  obtain u where u: "newline \<notin> set u"
    and g: "g t (client_message l) = ''I'' @ glog_date t @ '' '' @ glog_time t @ '' '' @ u @ ''] '' @ client_message l @ [newline]"
    using glog_line [OF assms(1)] by metis
  have "client_message l @ [newline] = ''Received ClientResponse:'' @ ?lat @ ''success=1'' @ ?from"
    using assms(4) by (simp add: Received_ClientResponse)
  then have eq: "g t (client_message l) = ''I'' @ glog_date t @ '' '' @ glog_time t @ '' '' @ (u @ ''] '') @ ''Received ClientResponse:'' @ ?lat @ ''success=1'' @ ?from"
    unfolding g by (simp only: append_assoc)
  have "newline \<notin> set ?lat" using clean_fixed3 by (auto simp: clean_def split: option.splits)
  then show ?thesis unfolding eq using u
    by (intro thp_success glog_parts(1,2) assms(2) clock_text_glog) (simp_all add: is_word_def is_digit_def code_def)
qed (use assms in simp_all)

lemma thp_skips_failure:
  assumes "glog_format g" "clock_years t" "clean_line l" "\<not> succeeded l"
  shows "re_search thp_RE_LINE (g t (client_message l)) = None"
proof -
  obtain u where u: "CHR ''='' \<notin> set u"
    and g: "g t (client_message l) = ''I'' @ glog_date t @ '' '' @ glog_time t @ '' '' @ u @ ''] '' @ client_message l @ [newline]"
    using glog_line [OF assms(1)] by metis
  have "CHR ''='' \<notin> set (''I'' @ glog_date t @ '' '' @ glog_time t @ '' '' @ u @ ''] '')" using glog_time_clean [OF assms(2)] u by (simp add: clean_def)
  from unsuccessful_unmarked [OF assms(3,4) this] show ?thesis unfolding g append_assoc by (rule unmarked_unread)
qed


definition glog_client :: "datetime \<Rightarrow> string \<Rightarrow> string" where
  "glog_client t m = ''I'' @ glog_date t @ '' '' @ glog_time t @ '' '' @ '' 4711 client.cpp:267'' @ ''] '' @ m @ [newline]"

definition answer :: "bool \<Rightarrow> client_response" where
  "answer ok = \<lparr>cs_success = ok, cs_client_id = 1, cs_request_id = 7, cs_leader_id = (if ok then None else Some (''10.0.0.2'', 7788))\<rparr>"

definition client_entries :: "(datetime \<times> client_line) list" where
  "client_entries =
     [(Datetime 2025 4 22 13 17 0 0, Received_ClientResponse (Some 3.25) (answer False) ''10.0.0.1''),
      (Datetime 2025 4 22 13 17 0 90, End_of_Leadership ''10.0.0.1''),
      (Datetime 2025 4 22 13 17 1 5, Begin_of_Leadership ''10.0.0.2''),
      (Datetime 2025 4 22 13 17 1 5, Received_ClientResponse (Some 12.0625) (answer True) ''10.0.0.2''),
      (Datetime 2025 4 22 13 17 2 0, Received_ClientResponse None (answer True) ''10.0.0.2'')]"


end
