(* ===== verification/Echo_Load.thy ===== *)
theory Echo_Load
  imports Remote_IO "HOL-Library.Word"
begin

text \<open>
  The load test of \<open>test/star_topology_load_test\<close>: an echo server, three senders that measure round-trip times over
  UDP, and the script that starts them; and \<open>loader.py\<close> with its kernel probe \<open>srtt.c\<close>.
  A sender's two threads meet in a dictionary of send times under a lock; a test is the sequence of their
  critical sections, in any order the network and the scheduler produce. The clock and the network are
  arguments: a sending thread gets its readings of \<open>time.time()\<close>, a receiving thread the datagrams that arrive.
\<close>

subsection \<open>struct\<close>

type_synonym bytes = "8 word list"

definition struct_error :: py_error where
  "struct_error = RemoteError ''struct.error''"

text \<open>\<open>struct.pack('!I', n)\<close>, and \<open>struct.unpack\<close> of its four bytes.\<close>

definition pack_be :: "int \<Rightarrow> bytes res" where
  "pack_be n = (if 0 \<le> n \<and> n < 2 ^ 32
     then Inr [word_of_int (n div 2 ^ 24), word_of_int (n div 2 ^ 16), word_of_int (n div 2 ^ 8), word_of_int n]
     else Inl struct_error)"

definition unpack_be :: "bytes \<Rightarrow> int" where
  "unpack_be bs = foldl (\<lambda>a b. 256 * a + uint b) 0 bs"

lemma unpack_pack:
  assumes "pack_be n = Inr bs"
  shows "length bs = 4" "unpack_be bs = n"
proof -
  have n: "0 \<le> n" "n < 2 ^ 32" and bs: "bs = [word_of_int (n div 2 ^ 24), word_of_int (n div 2 ^ 16), word_of_int (n div 2 ^ 8), word_of_int n]"
    using assms by (auto simp: pack_be_def split: if_splits)
  show "length bs = 4" by (simp add: bs)
  have byte: "uint (word_of_int x :: 8 word) = x mod 256" for x by (simp add: uint_word_of_int)
  have join: "256 * (x div 256) + x mod 256 = x" for x :: int by simp
  have d: "n div 2 ^ 16 = n div 2 ^ 8 div 256" "n div 2 ^ 24 = n div 2 ^ 8 div 256 div 256" by (simp_all add: div_mult2_eq [symmetric])
  have "0 \<le> n div 2 ^ 24" "n div 2 ^ 24 < 256" using n by simp_all
  then have top: "n div 2 ^ 24 mod 256 = n div 2 ^ 24" by (rule mod_pos_pos_trivial)
  have "unpack_be bs = 256 * (256 * (256 * (n div 2 ^ 24) + n div 2 ^ 16 mod 256) + n div 2 ^ 8 mod 256) + n mod 256"
    using top by (simp add: unpack_be_def bs byte)
  also have "\<dots> = 256 * (n div 2 ^ 8) + n mod 256" unfolding d join ..
  also have "\<dots> = n" by simp
  finally show "unpack_be bs = n" .
qed

subsection \<open>echo_server.py\<close>

type_synonym udp_addr = "string \<times> int"

text \<open>A datagram with its sender and whether the answer can be sent, or the key that ends the server.\<close>

datatype server_event = Datagram bytes udp_addr bool | Interrupted

fun echo_server :: "server_event list \<Rightarrow> (bytes \<times> udp_addr) list" where
  "echo_server [] = []"
| "echo_server (Datagram d a ok # es) =
     (if 4 \<le> length (take 2048 d) then (if ok then (take 4 d, a) # echo_server es else []) else echo_server es)"
| "echo_server (Interrupted # es) = []"

subsection \<open>echo_sender.py\<close>

text \<open>The pause between two packets; a rate of 0 raises.\<close>

definition delay_between :: "real \<Rightarrow> int \<Rightarrow> real res" where
  "delay_between rate_mbps packet_size =
     (let packets_per_sec = (rate_mbps * 1000000) / (real_of_int packet_size * 8)
      in if packets_per_sec = 0 then Inl ZeroDivisionError else Inr (1 / packets_per_sec))"

definition packet :: "int \<Rightarrow> nat \<Rightarrow> bytes res" where
  "packet seq packet_size = bind_res (pack_be seq) (\<lambda>h. Inr (h @ replicate (packet_size - 4) 0))"

text \<open>
  The loop of the sending thread on the readings of the clock: at the head of the loop, when the packet is noted
  and before the pause. One row per round: the number, the noted time, the packet and the pause. A number
  that does not fit into four bytes raises outside the \<open>try\<close> and ends the thread.
\<close>

fun sending_loop :: "real \<Rightarrow> real \<Rightarrow> real \<Rightarrow> nat \<Rightarrow> real \<Rightarrow> int \<Rightarrow> (real \<times> real \<times> real) list \<Rightarrow> (int \<times> real \<times> bytes res \<times> real) list" where
  "sending_loop start_time duration delay packet_size next_send_time seq [] = []"
| "sending_loop start_time duration delay packet_size next_send_time seq ((t, now, later) # clock) =
     (if t - start_time < duration
      then (case packet seq packet_size of
          Inl e \<Rightarrow> [(seq, now, Inl e, 0)]
        | Inr p \<Rightarrow> (seq, now, Inr p, max 0 (next_send_time + delay - later))
            # sending_loop start_time duration delay packet_size (next_send_time + delay) (seq + 1) clock)
      else [])"

definition sending_thread :: "real \<Rightarrow> real \<Rightarrow> nat \<Rightarrow> real \<Rightarrow> (real \<times> real \<times> real) list \<Rightarrow> (int \<times> real \<times> bytes res \<times> real) list res" where
  "sending_thread rate_mbps duration packet_size start_time clock =
     bind_res (delay_between rate_mbps (int packet_size)) (\<lambda>delay. Inr (sending_loop start_time duration delay packet_size start_time 0 clock))"

record echo_test =
  send_times :: "(int, real) dict"
  rtts_of :: "real list"

definition echo_init :: echo_test where
  "echo_init = \<lparr>send_times = [], rtts_of = []\<rparr>"

definition note_send :: "int \<Rightarrow> real \<Rightarrow> echo_test \<Rightarrow> echo_test" where
  "note_send seq now s = s\<lparr>send_times := AList.update seq now (send_times s)\<rparr>"

text \<open>One round of the receiving thread.\<close>

definition note_reply :: "bytes \<Rightarrow> real \<Rightarrow> echo_test \<Rightarrow> echo_test" where
  "note_reply d recv_time s =
     (if length d < 4 then s
      else let packet_id = unpack_be (take 4 d) in
        (case map_of (send_times s) packet_id of
           None \<Rightarrow> s
         | Some send_time \<Rightarrow> s\<lparr>send_times := AList.delete packet_id (send_times s), rtts_of := rtts_of s @ [recv_time - send_time]\<rparr>))"

datatype echo_event = Sent int real | Reply bytes real

text \<open>The receiving thread on what its socket gives: it ends for good at the first second without a datagram.\<close>

datatype recv_event = Data bytes real | Recv_timeout | Recv_error

fun receiving_thread :: "recv_event list \<Rightarrow> echo_event list" where
  "receiving_thread [] = []"
| "receiving_thread (Data d t # rs) = Reply (take 1024 d) t # receiving_thread rs"
| "receiving_thread (Recv_timeout # rs) = []"
| "receiving_thread (Recv_error # rs) = []"

fun echo_step :: "echo_event \<Rightarrow> echo_test \<Rightarrow> echo_test" where
  "echo_step (Sent seq now) s = note_send seq now s"
| "echo_step (Reply d t) s = note_reply d t s"

definition run_test :: "echo_event list \<Rightarrow> echo_test" where
  "run_test es = foldl (\<lambda>s e. echo_step e s) echo_init es"

text \<open>Number, mean, smallest and largest; nothing without data.\<close>

definition rtt_summary :: "real list \<Rightarrow> (nat \<times> real \<times> real \<times> real) option" where
  "rtt_summary rtts = (if rtts = [] then None else Some (length rtts, sum_list rtts / real (length rtts), Min (set rtts), Max (set rtts)))"

subsection \<open>echo_sender_multi.py\<close>

definition server_ips :: "string list" where
  "server_ips = [''10.0.4.2'', ''10.0.5.2'', ''10.0.1.2'', ''10.0.2.2'', ''10.0.3.2'']"

record multi_test =
  all_send_times :: "(string, (int, real) dict) dict"
  all_rtts :: "(string, real list) dict"

definition multi_init :: multi_test where
  "multi_init = \<lparr>all_send_times = map (\<lambda>ip. (ip, [])) server_ips, all_rtts = map (\<lambda>ip. (ip, [])) server_ips\<rparr>"

text \<open>Only the servers have sending threads: another address would raise a \<open>KeyError\<close> and change nothing.\<close>

definition multi_note_send :: "string \<Rightarrow> int \<Rightarrow> real \<Rightarrow> multi_test \<Rightarrow> multi_test" where
  "multi_note_send ip seq now s =
     (case map_of (all_send_times s) ip of
        None \<Rightarrow> s
      | Some sent_at \<Rightarrow> s\<lparr>all_send_times := AList.update ip (AList.update seq now sent_at) (all_send_times s)\<rparr>)"

text \<open>A reply from an address that is no server is looked up in an empty dictionary.\<close>

definition multi_note_reply :: "string \<Rightarrow> bytes \<Rightarrow> real \<Rightarrow> multi_test \<Rightarrow> multi_test" where
  "multi_note_reply ip d recv_time s =
     (if length d < 4 then s
      else let packet_id = unpack_be (take 4 d); sent_at = dict_get (all_send_times s) ip [] in
        (case map_of sent_at packet_id of
           None \<Rightarrow> s
         | Some send_time \<Rightarrow> s\<lparr>all_send_times := AList.update ip (AList.delete packet_id sent_at) (all_send_times s),
             all_rtts := AList.update ip (dict_get (all_rtts s) ip [] @ [recv_time - send_time]) (all_rtts s)\<rparr>))"

fun multi_step :: "string \<times> echo_event \<Rightarrow> multi_test \<Rightarrow> multi_test" where
  "multi_step (ip, Sent seq now) s = multi_note_send ip seq now s"
| "multi_step (ip, Reply d t) s = multi_note_reply ip d t s"

definition run_multi :: "(string \<times> echo_event) list \<Rightarrow> multi_test" where
  "run_multi es = foldl (\<lambda>s e. multi_step e s) multi_init es"

definition multi_report :: "(string \<times> echo_event) list \<Rightarrow> (string \<times> (nat \<times> real \<times> real \<times> real) option) list" where
  "multi_report es = (let s = run_multi es in map (\<lambda>ip. (ip, rtt_summary (dict_get (all_rtts s) ip []))) (sort (dict_keys (all_rtts s))))"

subsection \<open>echo_sender_concurrent_multi.py\<close>

text \<open>One test per server, with a socket, send times and a list of its own; the results are filed when a test ends.\<close>

definition run_server_test :: "string \<Rightarrow> (string \<times> echo_event) list \<Rightarrow> real list" where
  "run_server_test ip es = rtts_of (run_test (map snd (filter (\<lambda>e. fst e = ip) es)))"

definition concurrent_report :: "string list \<Rightarrow> (string \<times> echo_event) list \<Rightarrow> (string \<times> (nat \<times> real \<times> real \<times> real) option) list" where
  "concurrent_report finish_order es =
     (let results = foldl (\<lambda>d ip. AList.update ip (run_server_test ip es) d) [] finish_order
      in map (\<lambda>ip. (ip, rtt_summary (dict_get results ip []))) (sort (dict_keys results)))"

subsection \<open>The three mains\<close>

text \<open>
  What the sending threads do and the report. A thread gets its starting time and its readings of the clock; one that
  raises ends alone, and the report is printed all the same.
\<close>

type_synonym readings = "real \<times> (real \<times> real \<times> real) list"

definition echo_main :: "real \<Rightarrow> readings \<Rightarrow> echo_event list
    \<Rightarrow> (int \<times> real \<times> bytes res \<times> real) list res \<times> (nat \<times> real \<times> real \<times> real) option" where
  "echo_main rate r es = (sending_thread rate 120 1400 (fst r) (snd r), rtt_summary (rtts_of (run_test es)))"

definition multi_main :: "real \<Rightarrow> (string \<Rightarrow> readings) \<Rightarrow> (string \<times> echo_event) list
    \<Rightarrow> (int \<times> real \<times> bytes res \<times> real) list res list \<times> (string \<times> (nat \<times> real \<times> real \<times> real) option) list" where
  "multi_main rate r es = (map (\<lambda>ip. sending_thread rate 120 1400 (fst (r ip)) (snd (r ip))) server_ips, multi_report es)"

definition concurrent_main :: "real \<Rightarrow> (string \<Rightarrow> readings) \<Rightarrow> string list \<Rightarrow> (string \<times> echo_event) list
    \<Rightarrow> (int \<times> real \<times> bytes res \<times> real) list res list \<times> (string \<times> (nat \<times> real \<times> real \<times> real) option) list" where
  "concurrent_main rate r finish_order es =
     (map (\<lambda>ip. sending_thread rate 60 1400 (fst (r ip)) (snd (r ip))) server_ips, concurrent_report finish_order es)"

subsection \<open>run_remote.py\<close>

definition load_hosts :: "string list" where
  "load_hosts = [''PeterYao@c220g5-111004.wisc.cloudlab.us:32410'', ''PeterYao@c220g5-111012.wisc.cloudlab.us:32410'',
     ''PeterYao@c220g5-111004.wisc.cloudlab.us:32411'', ''PeterYao@c220g5-111004.wisc.cloudlab.us:32412'',
     ''PeterYao@c220g5-111012.wisc.cloudlab.us:32411'']"

definition files_to_upload :: "string list" where
  "files_to_upload = [''./echo_sender_concurrent_multi.py'']"

definition echo_server_cmd :: string where
  "echo_server_cmd = ''nohup python3 ~/echo_server.py 7788 > ~/echo_server.log 2>&1 &''"

definition echo_sender_cmd :: string where
  "echo_sender_cmd = ''python3 ~/echo_sender_concurrent_multi.py 7788 0.06 > ~/echo_sender.log''"

text \<open>\<open>conn.put(filename)\<close> names no remote path: the file goes to the home directory.\<close>

definition run_remote :: "'e outside \<Rightarrow> ('e, unit) io" where
  "run_remote out = block [
     foreach files_to_upload (\<lambda>filename. foreach load_hosts (\<lambda>conn. doio out (Put conn filename ''''))),
     doio out (Sleep 5),
     foreach load_hosts (\<lambda>conn. doio out (Run conn echo_server_cmd)),
     doio out (Sleep 5),
     foreach (take 1 load_hosts) (\<lambda>conn. doio out (Run conn echo_sender_cmd))]"

subsection \<open>srtt.c and loader.py\<close>

text \<open>
  The probe stores, for an IPv4 socket, the smoothed round-trip time of the socket's remote address. The two
  fields are read from memory as 32-bit numbers of a little-endian machine.
\<close>

definition load_le :: "bytes \<Rightarrow> int" where
  "load_le bs = foldr (\<lambda>b a. uint b + 256 * a) bs 0"

definition pack_le :: "int \<Rightarrow> bytes" where
  "pack_le n = [word_of_int n, word_of_int (n div 2 ^ 8), word_of_int (n div 2 ^ 16), word_of_int (n div 2 ^ 24)]"

fun inet_ntoa :: "bytes \<Rightarrow> string" where
  "inet_ntoa [] = []"
| "inet_ntoa [b] = show_int (uint b)"
| "inet_ntoa (b # bs) = show_int (uint b) @ ''.'' @ inet_ntoa bs"

record probe_hit =
  is_inet :: bool
  skc_daddr :: bytes
  srtt_us :: "32 word"

definition track_srtt :: "probe_hit \<Rightarrow> (int, 32 word) dict \<Rightarrow> (int, 32 word) dict" where
  "track_srtt h srtt_map = (if is_inet h then AList.update (load_le (skc_daddr h)) (drop_bit 3 (srtt_us h)) srtt_map else srtt_map)"

definition ljust :: "nat \<Rightarrow> string \<Rightarrow> string" where
  "ljust n s = s @ replicate (n - length s) CHR '' ''"

definition srtt_row :: "int \<times> 32 word \<Rightarrow> string" where
  "srtt_row kv = ljust 16 (inet_ntoa (pack_le (fst kv))) @ '' '' @ ljust 10 (show_int (uint (snd kv)))"

text \<open>
  A round of the loader: the probe runs while it sleeps, the table is printed, the probe runs on, and the table is
  cleared. The state is the table and the lines printed.
\<close>

definition clear_table :: "('k, 'v) dict \<Rightarrow> ('k, 'v) dict" where
  "clear_table d = fold AList.delete (dict_keys d) d"

definition loader_round :: "probe_hit list \<times> probe_hit list \<Rightarrow> (int, 32 word) dict \<times> string list \<Rightarrow> (int, 32 word) dict \<times> string list" where
  "loader_round hits st =
     (let slept = fold track_srtt (fst hits) (fst st);
          lines = map srtt_row slept;
          raced = fold track_srtt (snd hits) slept
      in (clear_table raced, snd st @ lines))"

definition loader :: "(probe_hit list \<times> probe_hit list) list \<Rightarrow> string list" where
  "loader rounds = snd (foldl (\<lambda>st hits. loader_round hits st) ([], [ljust 16 ''Destination IP'' @ '' '' @ ljust 10 ''SRTT(us)'']) rounds)"

subsection \<open>The sending rate\<close>

text \<open>The clock never goes back, and a pause lasts at least as long as asked for.\<close>

fun clock_ok :: "real \<Rightarrow> real \<Rightarrow> real \<Rightarrow> (real \<times> real \<times> real) list \<Rightarrow> bool" where
  "clock_ok delay next_send_time earliest [] = True"
| "clock_ok delay next_send_time earliest ((t, now, later) # clock) = (earliest \<le> t \<and> t \<le> now \<and> now \<le> later
     \<and> clock_ok delay (next_send_time + delay) (later + max 0 (next_send_time + delay - later)) clock)"

lemma sending_loop_paced:
  assumes "clock_ok delay next_t earliest clock" and "next_t \<le> earliest" and "sending_loop st dur delay sz next_t seq clock = rows" and "rows \<noteq> []"
  shows "next_t + (real (length rows) - 1) * delay < st + dur"
  using assms
proof (induction st dur delay sz next_t seq clock arbitrary: earliest rows rule: sending_loop.induct)
  case (2 st dur delay sz next_t seq t now later clock)
  have early: "next_t < st + dur" using "2.prems" by (auto split: if_splits)
  show ?case
  proof (cases "packet seq sz")
    case (Inl e)
    then show ?thesis using "2.prems"(3,4) early by (auto split: if_splits)
  next
    case (Inr p)
    let ?rest = "sending_loop st dur delay sz (next_t + delay) (seq + 1) clock"
    have t: "t - st < dur" using "2.prems"(3,4) by (auto split: if_splits)
    have rows: "rows = (seq, now, Inr p, max 0 (next_t + delay - later)) # ?rest" using "2.prems"(3) Inr t by simp
    have ok: "clock_ok delay (next_t + delay) (later + max 0 (next_t + delay - later)) clock" using "2.prems"(1) by simp
    show ?thesis
    proof (cases "?rest = []")
      case True
      then show ?thesis using early by (simp add: rows)
    next
      case False
      have "next_t + delay + (real (length ?rest) - 1) * delay < st + dur" by (rule "2.IH" [OF t Inr ok _ refl False]) simp
      then show ?thesis by (simp add: rows algebra_simps)
    qed
  qed
qed simp

lemma sending_loop_numbers:
  "map fst (sending_loop st dur delay sz next_t seq clock) = map (\<lambda>k. seq + int k) [0..<length (sending_loop st dur delay sz next_t seq clock)]"
proof (induction st dur delay sz next_t seq clock rule: sending_loop.induct)
  case (2 st dur delay sz next_t seq t now later clock)
  show ?case
  proof (cases "t - st < dur")
    case True
    show ?thesis
    proof (cases "packet seq sz")
      case (Inr p)
      from "2.IH" [OF True Inr] True Inr show ?thesis by (simp add: map_upt_Suc del: upt_Suc)
    qed (use True in simp)
  qed simp
qed simp



subsection \<open>Counting replies\<close>

definition sends :: "echo_event list \<Rightarrow> int list" where
  "sends es = List.map_filter (\<lambda>e. case e of Sent seq now \<Rightarrow> Some seq | Reply d t \<Rightarrow> None) es"

lemma run_test_snoc: "run_test (es @ [e]) = echo_step e (run_test es)"
  by (simp add: run_test_def)

lemma sends_simps [simp]:
  "sends [] = []" "sends (es @ [Sent seq now]) = sends es @ [seq]" "sends (es @ [Reply d t]) = sends es"
  by (simp_all add: sends_def map_filter_def)

lemma run_test_counts:
  assumes "distinct (sends es)"
  shows "wf_dict (send_times (run_test es)) \<and> set (dict_keys (send_times (run_test es))) \<subseteq> set (sends es)
    \<and> length (rtts_of (run_test es)) + length (send_times (run_test es)) = length (sends es)"
  using assms
proof (induction es rule: rev_induct)
  case Nil
  then show ?case by (simp add: run_test_def echo_init_def dict_keys_def)
next
  case (snoc e es)
  let ?s = "run_test es"
  show ?case
  proof (cases e)
    case (Sent seq now)
    then have IH: "wf_dict (send_times ?s)" "set (dict_keys (send_times ?s)) \<subseteq> set (sends es)"
      "length (rtts_of ?s) + length (send_times ?s) = length (sends es)" "seq \<notin> set (sends es)" using snoc by auto
    then have new: "seq \<notin> fst ` set (send_times ?s)" by (auto simp: dict_keys_def)
    have "length (AList.update seq now d) = Suc (length d)" if "seq \<notin> fst ` set d" for d :: "(int, real) dict" using that by (induction d) auto
    with new IH show ?thesis by (auto simp: run_test_snoc Sent note_send_def dict_keys_def dom_update)
  next
    case (Reply d t)
    then have IH: "wf_dict (send_times ?s)" "set (dict_keys (send_times ?s)) \<subseteq> set (sends es)"
      "length (rtts_of ?s) + length (send_times ?s) = length (sends es)" using snoc by auto
    show ?thesis
    proof (cases "length d < 4 \<or> map_of (send_times ?s) (unpack_be (take 4 d)) = None")
      case True
      then show ?thesis using IH by (auto simp: run_test_snoc Reply note_reply_def Let_def)
    next
      case False
      then obtain x where x: "\<not> length d < 4" "map_of (send_times ?s) (unpack_be (take 4 d)) = Some x" by auto
      have del: "length (AList.delete k d) = length d - 1 \<and> d \<noteq> []" if "map_of d k = Some v" "wf_dict d" for d :: "(int, real) dict" and k v
        using that
      proof (induction d)
        case (Cons p d)
        show ?case
        proof (cases "fst p = k")
          case True
          then show ?thesis using Cons.prems(2) by (simp add: wf_dict_def AList.delete_idem)
        next
          case False
          then show ?thesis using Cons by (cases d) (auto simp: wf_dict_def)
        qed
      qed simp
      have "wf_dict (AList.delete k d)" if "wf_dict d" for d :: "(int, real) dict" and k
        using that by (simp add: wf_dict_def distinct_delete)
      then have wf: "wf_dict (AList.delete (unpack_be (take 4 d)) (send_times ?s))" using IH(1) by blast
      have run: "run_test (es @ [Reply d t]) = ?s\<lparr>send_times := AList.delete (unpack_be (take 4 d)) (send_times ?s), rtts_of := rtts_of ?s @ [t - x]\<rparr>"
        using x by (simp add: run_test_snoc note_reply_def Let_def)
      have keys: "set (dict_keys (AList.delete (unpack_be (take 4 d)) (send_times ?s))) \<subseteq> set (dict_keys (send_times ?s))"
        by (auto simp: dict_keys_def AList.delete_keys)
      have "Suc (length (AList.delete (unpack_be (take 4 d)) (send_times ?s))) = length (send_times ?s)"
        using del [OF x(2) IH(1)] by simp
      then show ?thesis using IH(2,3) wf keys by (auto simp: Reply run)
    qed
  qed
qed

text \<open>A test is an interleaving of what the two threads do.\<close>

definition sent_events :: "(int \<times> real \<times> bytes res \<times> real) list \<Rightarrow> echo_event list" where
  "sent_events rows = map (\<lambda>(seq, now, p, pause). Sent seq now) rows"

lemma receiving_replies: "sends (receiving_thread rs) = []" "list_all (\<lambda>e. case e of Sent seq now \<Rightarrow> False | Reply d t \<Rightarrow> True) (receiving_thread rs)"
  by (induction rs rule: receiving_thread.induct) (simp_all add: sends_def map_filter_simps)

lemma sends_shuffle:
  assumes "es \<in> shuffles (sent_events rows) (receiving_thread rs)"
  shows "sends es = map fst rows"
proof -
  let ?P = "\<lambda>e. case e of Sent seq now \<Rightarrow> True | Reply d t \<Rightarrow> False"
  have "filter ?P (receiving_thread rs) = []" "filter ?P (sent_events rows) = sent_events rows"
    by (induction rs rule: receiving_thread.induct) (simp_all add: sent_events_def filter_id_conv split: prod.splits)
  then have "filter ?P es = sent_events rows" using assms filter_shuffles [of ?P "sent_events rows" "receiving_thread rs"] by auto
  moreover have "sends (filter ?P es) = sends es" by (induction es) (auto simp: sends_def map_filter_simps split: echo_event.splits)
  moreover have "sends (sent_events rows) = map fst rows" by (induction rows) (auto simp: sends_def sent_events_def map_filter_simps)
  ultimately show ?thesis by metis
qed

text \<open>
  C28: Every packet is accounted for: in any interleaving of a sending and a receiving thread, whatever the network loses, repeats,
  reorders or forges, each packet sent has given exactly one round-trip time or is still waited for.
\<close>

theorem echo_accounts:
  assumes "sending_thread rate duration psize start_time clock = Inr rows" and "es \<in> shuffles (sent_events rows) (receiving_thread rs)"
  shows "length (rtts_of (run_test es)) + length (send_times (run_test es)) = length rows
    \<and> distinct (dict_keys (send_times (run_test es))) \<and> set (dict_keys (send_times (run_test es))) \<subseteq> {0..<int (length rows)}"
proof -
  obtain delay where rows: "rows = sending_loop start_time duration delay psize start_time 0 clock"
    using assms(1) by (cases "delay_between rate (int psize)") (auto simp: sending_thread_def)
  have numbers: "sends es = map int [0..<length rows]"
    using sending_loop_numbers [of start_time duration delay psize start_time 0 clock] by (simp add: sends_shuffle [OF assms(2)] rows)
  then have "distinct (sends es)" by (simp add: distinct_map inj_on_def)
  from run_test_counts [OF this] show ?thesis by (auto simp: numbers wf_dict_def dict_keys_def)
qed

theorem echo_accounts_witness:
  "length (rtts_of (run_test [Sent 0 0, Reply [0, 0, 0, 0] 3])) + length (send_times (run_test [Sent 0 0, Reply [0, 0, 0, 0] 3])) = 1"
proof -
  obtain q where q: "packet 0 4 = Inr q" by (cases "packet 0 4") (simp_all add: packet_def pack_be_def)
  have rows: "sending_thread (32 / 1000000) 1 4 0 [(0, 0, 0), (1, 1, 1)] = Inr [(0, 0, Inr q, 1)]"
    by (simp add: sending_thread_def delay_between_def Let_def q)
  have "[Sent 0 0, Reply [0, 0, 0, 0] 3] \<in> shuffles (sent_events [(0, 0, Inr q, 1)]) (receiving_thread [Data [0, 0, 0, 0] 3])"
    by (simp add: sent_events_def)
  from echo_accounts [OF rows this] show ?thesis by simp
qed

subsection \<open>One socket or one per server\<close>

definition of_server :: "string \<Rightarrow> (string \<times> echo_event) list \<Rightarrow> echo_event list" where
  "of_server ip es = map snd (filter (\<lambda>e. fst e = ip) es)"

lemma of_server_snoc: "of_server ip (es @ [(ip', e)]) = (if ip' = ip then of_server ip es @ [e] else of_server ip es)"
  by (simp add: of_server_def)

lemma run_multi_snoc: "run_multi (es @ [e]) = multi_step e (run_multi es)"
  by (simp add: run_multi_def)

lemma multi_init_at:
  assumes "ip \<in> set server_ips"
  shows "map_of (all_send_times multi_init) ip = Some []" "map_of (all_rtts multi_init) ip = Some []"
  using assms by (auto simp: multi_init_def map_of_map_restrict restrict_map_def)

text \<open>What the shared dictionaries hold of a server is what a test of that server alone holds.\<close>

lemma run_multi_at:
  assumes ip: "ip \<in> set server_ips"
  shows "map_of (all_send_times (run_multi es)) ip = Some (send_times (run_test (of_server ip es)))
    \<and> map_of (all_rtts (run_multi es)) ip = Some (rtts_of (run_test (of_server ip es)))"
proof (induction es rule: rev_induct)
  case Nil
  show ?case using multi_init_at [OF ip] by (simp add: run_multi_def of_server_def run_test_def echo_init_def)
next
  case (snoc x es)
  obtain ip' e where x: "x = (ip', e)" by (cases x)
  show ?case
  proof (cases e)
    case (Sent seq now)
    then show ?thesis using snoc
      by (auto simp: x run_multi_snoc of_server_snoc run_test_snoc multi_note_send_def note_send_def update_conv' split: option.split)
  next
    case (Reply d t)
    then show ?thesis using snoc
      by (auto simp: x run_multi_snoc of_server_snoc run_test_snoc multi_note_reply_def note_reply_def Let_def dict_get_def update_conv' split: option.split)
  qed
qed

lemma update_known_keys: "k \<in> fst ` set d \<Longrightarrow> map fst (AList.update k v d) = map fst d"
  by (induction d) auto

lemma run_multi_keys:
  "dict_keys (all_send_times (run_multi es)) = server_ips \<and> dict_keys (all_rtts (run_multi es)) = server_ips"
proof (induction es rule: rev_induct)
  case Nil
  show ?case by (simp add: run_multi_def multi_init_def dict_keys_def comp_def)
next
  case (snoc x es)
  obtain ip e where x: "x = (ip, e)" by (cases x)
  let ?s = "run_multi es"
  have sends: "fst ` set (all_send_times ?s) = set server_ips" and rtts: "fst ` set (all_rtts ?s) = set server_ips"
    using snoc by (simp_all add: dict_keys_def flip: set_map)
  have known: "ip \<in> set server_ips" if "map_of (all_send_times ?s) ip = Some sent_at" for sent_at
    using map_of_SomeD [OF that] sends by force
  show ?case
  proof (cases e)
    case (Sent seq now)
    then show ?thesis using snoc known sends
      by (auto simp: x run_multi_snoc multi_note_send_def dict_keys_def update_known_keys split: option.split)
  next
    case (Reply d t)
    have "ip \<in> set server_ips" if "map_of (dict_get (all_send_times ?s) ip []) k = Some v" for k v
      using that known by (auto simp: dict_get_def split: option.splits)
    then show ?thesis using snoc sends rtts
      by (auto simp: x Reply run_multi_snoc multi_note_reply_def Let_def dict_keys_def update_known_keys split: option.split)
  qed
qed

lemma filed_results:
  "wf_dict (foldl (\<lambda>d ip. AList.update ip (f ip) d) [] ips)
   \<and> set (dict_keys (foldl (\<lambda>d ip. AList.update ip (f ip) d) [] ips)) = set ips
   \<and> (\<forall>ip \<in> set ips. map_of (foldl (\<lambda>d ip. AList.update ip (f ip) d) [] ips) ip = Some (f ip))"
  by (induction ips rule: rev_induct) (auto simp: wf_dict_def dict_keys_def distinct_update dom_update update_conv')

text \<open>
  The sender with one socket and shared dictionaries and the sender with a test of its own per server report the same:
  on the same critical sections, in any interleaving, and in whichever order the tests of the servers end.
\<close>

theorem multi_concurrent:
  assumes "set finish_order = set server_ips"
  shows "multi_report es = concurrent_report finish_order es"
proof -
  let ?results = "foldl (\<lambda>d ip. AList.update ip (run_server_test ip es) d) [] finish_order"
  have keys: "sort (dict_keys ?results) = sort server_ips"
  proof (rule sorted_distinct_set_unique)
    show "distinct (sort (dict_keys ?results))" using filed_results [of "\<lambda>ip. run_server_test ip es" finish_order] by (simp add: wf_dict_def dict_keys_def)
    show "distinct (sort server_ips)" by (simp add: server_ips_def)
    show "set (sort (dict_keys ?results)) = set (sort server_ips)" using filed_results [of "\<lambda>ip. run_server_test ip es" finish_order] assms by simp
  qed simp_all
  have "dict_get (all_rtts (run_multi es)) ip [] = dict_get ?results ip []" if "ip \<in> set server_ips" for ip
    using run_multi_at [OF that, of es] filed_results [of "\<lambda>ip. run_server_test ip es" finish_order] that assms
    by (simp add: dict_get_def run_server_test_def of_server_def)
  then show ?thesis by (auto simp: multi_report_def concurrent_report_def Let_def keys run_multi_keys)
qed

theorem multi_concurrent_witness:
  "multi_report [(''10.0.1.2'', Sent 0 1), (''10.0.1.2'', Reply [0, 0, 0, 0] 3)] = concurrent_report (rev server_ips) [(''10.0.1.2'', Sent 0 1), (''10.0.1.2'', Reply [0, 0, 0, 0] 3)]"
  using multi_concurrent [of "rev server_ips" "[(''10.0.1.2'', Sent 0 1), (''10.0.1.2'', Reply [0, 0, 0, 0] 3)]"] by simp

subsection \<open>A packet and its reply\<close>

lemma packet_head:
  assumes "packet seq psize = Inr p"
  obtains rest where "pack_be seq = Inr (take 4 p)" "p = take 4 p @ rest"
proof -
  from assms obtain h where h: "pack_be seq = Inr h" "p = h @ replicate (psize - 4) 0"
    by (auto simp: packet_def bind_res_def split: sum.splits)
  with unpack_pack(1) [OF h(1)] have "take 4 p = h" by simp
  with h that show ?thesis by auto
qed

text \<open>
  A packet finds its way back: the server answers a packet with its first four bytes, these are the number the sender noted
  the packet under, so the reply records the time since then and takes the number out; a second copy of the
  reply records nothing.
\<close>

theorem echo_round_trip:
  assumes "packet seq psize = Inr p"
  shows "\<exists>r. echo_server [Datagram p a True] = [(r, a)]
    \<and> note_reply r t (note_send seq now s) = s\<lparr>send_times := AList.delete seq (send_times s), rtts_of := rtts_of s @ [t - now]\<rparr>
    \<and> note_reply r t' (note_reply r t (note_send seq now s)) = note_reply r t (note_send seq now s)"
proof -
  obtain rest where p: "pack_be seq = Inr (take 4 p)" "p = take 4 p @ rest" by (rule packet_head [OF assms])
  let ?r = "take 4 p"
  have r: "length ?r = 4" "unpack_be ?r = seq" using unpack_pack [OF p(1)] by simp_all
  then have "4 \<le> length p" by (simp add: min_def split: if_splits)
  then have "echo_server [Datagram p a True] = [(?r, a)]" by (simp add: min_def)
  moreover have one: "note_reply ?r t (note_send seq now s) =
      s\<lparr>send_times := AList.delete seq (send_times s), rtts_of := rtts_of s @ [t - now]\<rparr>"
    using r by (simp add: note_reply_def note_send_def Let_def update_conv' delete_update_same)
  moreover have "note_reply ?r t' (note_reply ?r t (note_send seq now s)) = note_reply ?r t (note_send seq now s)"
    unfolding one using r by (simp add: note_reply_def Let_def delete_conv')
  ultimately show ?thesis by blast
qed

theorem echo_round_trip_witness:
  "\<exists>r. echo_server [Datagram [0, 0, 1, 2] (''10.0.1.2'', 7788) True] = [(r, (''10.0.1.2'', 7788))]
    \<and> note_reply r 5 (note_send 258 3 echo_init) = echo_init\<lparr>send_times := [], rtts_of := [2]\<rparr>"
proof -
  have "packet 258 4 = Inr [0, 0, 1, 2]" by code_simp
  from echo_round_trip [OF this, of "(''10.0.1.2'', 7788)" 5 3 echo_init] show ?thesis by (auto simp: echo_init_def)
qed

subsection \<open>What the loader prints\<close>

lemma clear_table_empty: "clear_table d = []"
proof -
  have "fst ` set (fold AList.delete ks d) = fst ` set d - set ks" for ks and d :: "('a, 'b) dict"
    by (induction ks arbitrary: d) (auto simp: AList.delete_eq)
  from this [of "dict_keys d" d] show ?thesis by (simp add: clear_table_def dict_keys_def)
qed

lemma pack_load: "pack_le (load_le [b0, b1, b2, b3]) = [b0, b1, b2, b3]"
proof -
  have b: "uint (x :: 8 word) \<in> {0..<256}" for x using uint_lt2p [of x] by simp
  have peel: "(uint (x :: 8 word) + 256 * m) div 256 = m" for x m using b [of x] by simp
  have byte: "word_of_int (uint (x :: 8 word) + 256 * m) = x" for x m
    unfolding word_uint_eq_iff uint_word_of_int using b [of x] by simp
  have shifts: "n div 2 ^ 8 = n div 256" "n div 2 ^ 16 = n div 256 div 256" "n div 2 ^ 24 = n div 256 div 256 div 256" for n :: int
    by (simp_all add: zdiv_zmult2_eq [symmetric])
  show ?thesis unfolding pack_le_def load_le_def foldr.simps comp_apply id_apply shifts peel byte ..
qed

lemma loader_state:
  "foldl (\<lambda>st hits. loader_round hits st) ([], ls) rounds = ([], ls @ concat (map (\<lambda>hits. map srtt_row (fold track_srtt (fst hits) [])) rounds))"
  by (induction rounds arbitrary: ls) (simp_all add: loader_round_def Let_def clear_table_empty)

text \<open>
  The loader prints, round by round, the destinations probed while it slept, each once with its last round-trip time
  in microseconds, an address as it stands in the socket; what the probe stores between the printing and the clearing of the table is never printed.
\<close>

theorem loader_prints:
  "loader rounds = (ljust 16 ''Destination IP'' @ '' '' @ ljust 10 ''SRTT(us)'') # concat (map (\<lambda>hits. map srtt_row (fold track_srtt (fst hits) [])) rounds)
   \<and> fold track_srtt (hs @ [\<lparr>is_inet = True, skc_daddr = [b0, b1, b2, b3], srtt_us = x\<rparr>]) []
     = AList.update (load_le [b0, b1, b2, b3]) (drop_bit 3 x) (fold track_srtt hs [])
   \<and> srtt_row (load_le [b0, b1, b2, b3], x) = ljust 16 (inet_ntoa [b0, b1, b2, b3]) @ '' '' @ ljust 10 (show_int (uint x))"
  by (simp add: loader_def loader_state track_srtt_def srtt_row_def pack_load del: inet_ntoa.simps)

lemma run_remote_follows:
  "follows (run_remote out) (concat [map (\<lambda>conn. Put conn ''./echo_sender_concurrent_multi.py'' '''') load_hosts, [Sleep 5],
     map (\<lambda>conn. Run conn echo_server_cmd) load_hosts, [Sleep 5], [Run (hd load_hosts) echo_sender_cmd]])"
proof -
  have each: "follows (foreach hs (\<lambda>conn. doio out (f conn))) (map f hs)" for f and hs :: "string list"
    using follows_foreach [of hs "\<lambda>conn. doio out (f conn)" "\<lambda>conn. [f conn]"] by (simp add: follows_doio concat_map_singleton)
  have one: "foreach [filename] f = f filename" for filename and f :: "string \<Rightarrow> ('a, unit) io" by simp
  have first: "take 1 load_hosts = [hd load_hosts]" by (simp add: load_hosts_def)
  show ?thesis unfolding run_remote_def files_to_upload_def first one
    by (rule follows_block) (simp only: list_all2_Cons list_all2_Nil follows_doio each simp_thms)
qed

end
