(* ===== verification/Spec2Isabelle.thy ===== *)
theory Spec2Isabelle
  imports Count_Timeouts Detect_Stats Throughput Consistency Plot_Log Analysis Elections Term_Length Log_Counts Timeouts
    Resp_Time Local_Tasks Batch_Tasks Tcp_Sim Traffic_Gen Failover_Cdf Ycsb_Compare
    Raft_Election Raft_Replication Raft_Progress Raft_Types Raft_Dump Raft_Timeout Raft_Client Client_Log Echo_Load
begin

text \<open>
  The frugal leader election repository: a Raft-like protocol in C++, and the Python scripts that deploy a cluster of
  its replicas, run experiments on it, and evaluate the logs and benchmark outputs it leaves behind.

  \<^bold>\<open>Parts and their theories.\<close> Paths of scripts are below \<^verbatim>\<open>src/scripts\<close>, those of the protocol below \<^verbatim>\<open>src/src\<close>.

  \<^item> The protocol. \<open>Raft_Log\<close> (\<^verbatim>\<open>raftLog.cpp\<close>): the replicated log and the loop that writes a message's entries into it.
    \<open>Raft_Node\<close> (\<^verbatim>\<open>node.cpp\<close>): the state of a replica, its timer callbacks and message handlers, each with the datagrams it
    sends. \<open>Raft_Cluster\<close>: replicas and a network that loses, delays, reorders and duplicates. On them: \<open>Raft_Election\<close>
    (one leader per term without hazards, two with any hazard), \<open>Raft_Replication\<close> (merging, committing, cutting into
    messages), \<open>Raft_Progress\<close> (terms and leaders' logs only grow; a cluster without a first leader never starts), \<open>Raft_Types\<close> (well-formed
    states), \<open>Raft_Dump\<close> (the dump a replica writes, with the script that reads it). \<open>Raft_Timeout\<close> (\<^verbatim>\<open>lib/tcp_stat_manager.cpp\<close> and
    \<open>start_election_timeout\<close>): the TCP statistics and how long a replica waits. \<open>Raft_Client\<close> (\<^verbatim>\<open>client.cpp\<close>): a client with its window of
    requests. \<open>Client_Log\<close>: the lines it logs, with the script that counts its successful responses.

  \<^item> Language and libraries. \<open>Py_Prelude\<close>: exceptions as a sum type (\<open>res\<close>), strings, dictionaries in
    insertion order, \<open>int\<close>, loops that may raise, grouping loops. \<open>Py_Regex\<close>: Python's \<open>re\<close> as a
    backtracking matcher, with its declarative reading. \<open>Py_Time\<close>: \<open>datetime\<close>, \<open>strptime\<close>, \<open>strftime\<close>. \<open>Py_Stats\<close>: mean and
    deviations over exact reals. \<open>Py_Float\<close>: \<open>float(s)\<close> on any string, infinities and NaN.
  \<^item> Log windows. \<open>Log_Window\<close> holds the contract of the time window that the analysers on the nodes
    share (locale \<open>window\<close>); \<open>Count_Timeouts\<close> (\<^verbatim>\<open>remote_count_timeouts.py\<close>) and \<open>Detect_Stats\<close>
    (\<^verbatim>\<open>remote_detect_stats.py\<close>) meet it.
  \<^item> Throughput. \<open>Throughput\<close>: \<^verbatim>\<open>remote_thp_summary.py\<close> on each node and \<^verbatim>\<open>merge_thp_summaries.py\<close>.
  \<^item> Consistency. \<open>Consistency\<close>: \<^verbatim>\<open>verify_consistency.py\<close>, the majority check on the log dumps.
  \<^item> Views of a node. \<open>Views\<close> is the machine shared by \<open>Extract_Failure\<close> (\<^verbatim>\<open>extract_failure.py\<close>) and
    \<open>Plot_Log\<close> (\<^verbatim>\<open>parse_plot_log.py\<close>); \<open>Analysis\<close> is \<^verbatim>\<open>analysis.py\<close>.
  \<^item> Elections and terms. \<open>Elections\<close> (\<^verbatim>\<open>election_analysis.py\<close>, \<^verbatim>\<open>rank_analysis.py\<close>), \<open>Term_Length\<close>
    (\<^verbatim>\<open>length_analysis.py\<close>), \<open>Failover_Cdf\<close> (\<^verbatim>\<open>time_cdf.ipynb\<close>).
  \<^item> Counters and times. \<open>Log_Counts\<close> (\<^verbatim>\<open>count_leader.py\<close>, \<^verbatim>\<open>quorum_analysis.py\<close>,
    \<^verbatim>\<open>concurrent_q_analysis.py\<close>), \<open>Timeouts\<close> (\<^verbatim>\<open>timeout_mean.py\<close>, \<^verbatim>\<open>safety_margin_analysis.py\<close>,
    \<^verbatim>\<open>detection_time_analysis.py\<close>), \<open>Resp_Time\<close> (\<^verbatim>\<open>analyze_resp_time.py\<close>, \<^verbatim>\<open>sum_all_clients.py\<close>).
  \<^item> Tasks. \<open>Remote_IO\<close> gives the effects (below); \<open>Tasks\<close>, \<open>Local_Tasks\<close> and \<open>Batch_Tasks\<close> are the invoke
    tasks of \<^verbatim>\<open>tasks.py\<close>: replicas on the cluster, local processes, clients and collection of results.
  \<^item> Network. \<open>Tcp_Sim\<close> (\<^verbatim>\<open>background_tcp_simulation/tcp_sim.py\<close>, \<^verbatim>\<open>local_tcp_sim.py\<close>) is the threaded
    background traffic; \<open>Threads\<close> is the pattern of a driver that starts a thread per node and joins them; \<open>Traffic_Gen\<close> (\<^verbatim>\<open>iperf_tcp_gen.py\<close>, \<^verbatim>\<open>auto_sim.py\<close>, \<^verbatim>\<open>auto_run_leader_election.py\<close>);
    \<open>Echo_Load\<close> (\<^verbatim>\<open>src/test/star_topology_load_test\<close>, \<^verbatim>\<open>src/loader.py\<close>): the load test and the kernel probe;
    \<open>Delay_Setup\<close> (\<^verbatim>\<open>delay_setup/delay_setup_asymmetric_topo.py\<close> and the switch functions of \<^verbatim>\<open>zookeeper_setup.py\<close>).
  \<^item> ZooKeeper. \<open>Zookeeper\<close> is \<^verbatim>\<open>zookeeper_setup.py\<close>: leader designation, workloads, quorum counts. \<open>Ycsb\<close>
    (\<^verbatim>\<open>ycsb_analysis.py\<close>, \<^verbatim>\<open>ycsb_analysis_auto.py\<close>) and \<open>Ycsb_Compare\<close> (\<^verbatim>\<open>ycsb_thread_analysis.py\<close>,
    \<^verbatim>\<open>ycsb_compare.py\<close>, \<^verbatim>\<open>ycsb_compare_both.py\<close>) evaluate the outputs.

  \<^bold>\<open>How code is modelled.\<close> A script is its \<open>main\<close> on the lines of its files, with the file system as a function
  argument; its result is what it writes, prints as values or draws, or the exception that ends it. A loop is a
  fold (\<open>foldl\<close>, or \<open>res_fold\<close> where a line may raise) over a record of the local variables, one definition per loop
  body. Everything outside the repository that a task talks to (Fabric, remote shells, the
  operating system, the clock, the random generator) is one parameter \<open>out\<close> that answers each action from a state of its
  own; a task is a function on worlds that records every attempted action, so a property about a task speaks of
  the sequence of actions under any answers. The threads of the traffic simulator are program counters interleaved by
  the step relation \<open>sim_step\<close>, in which every system call may fail; the threads of a driver are trees of remote actions
  that take turns in an arbitrary schedule (\<open>fan_run\<close>). A handler of a replica is a function from its state and a message to its new
  state and the datagrams it sends; a run of a cluster is a list of events (a timer, a task of the event loop, a datagram
  that arrives, is lost or duplicated, a client's request), applied by \<open>step\<close>. Three loops may run
  forever and are partial functions into \<open>option\<close>: that of \<open>designate_leader\<close>, \<open>chunks\<close>, which cuts log entries into messages, and
  \<open>refill\<close>, which sends a client's requests; \<open>designate_leader_ends\<close>, \<open>chunks_terminates\<close>, \<open>client_goes_on\<close> and \<open>client_stuck\<close> say
  when they return. A sender and a receiver of the load test are two sequences of critical sections, and a test is any shuffle of them. No other
  definition needs fuel: all loops run over finite lists.

  \<^bold>\<open>What is shown.\<close> For the protocol: election safety outside five hazards and a counterexample run for each of them; that the log
  handling refines the merge of logs; when entries are committed and messages end; invariants of every run; that
  the verdict of the consistency script is about the logs in memory; that the statistics are a sliding window, between which bounds a timeout lies
  and that ranks stagger the timeouts; that a client keeps its window, follows the leader and when it stops, and that its log is summarised as its successful responses. For the load test: the rate is kept,
  every packet is accounted for, and the two senders agree. For the analysers: the numbers are those of a reference definition over the log (counts of the
  lines in the window, maximal runs for views, last reported values, means and deviations of exactly the samples),
  on every branch, with the exceptions named. For pairs of scripts: round trips (\<open>Throughput\<close>: CSV;
  \<open>Ycsb_Compare\<close>: names of experiment files) and equivalences (\<open>Plot_Log\<close>, \<open>Ycsb_Compare\<close>). For the tasks: which
  actions are attempted, in which order, and what is skipped when something fails. For the simulator: sockets never leak
  and reconnection is bounded. For the drivers with threads: every schedule ends, and what was started does not depend on it. For delays: the rules left on the switches refine the requested configuration. In this
  theory: the two pipelines from the logs on the nodes to the merged results, which span the analysers and the tasks.

  \<^bold>\<open>Interfaces.\<close> Locales state what one part relies on: the time window (\<open>Log_Window\<close>), the view machine
  (\<open>Views\<close>), quorums (\<open>Consistency\<close>, met by the script and by the cluster), phases of a task that cannot fail (\<open>Remote_IO\<close>), full meshes
  (\<open>Tcp_Sim\<close>), drivers with one thread per node (\<open>Threads\<close>), invariants of all runs or of the runs without hazards
  (\<open>Raft_Cluster\<close>); each is interpreted on the definitions of the code.

  \<^bold>\<open>Not modelled.\<close> Of the protocol: the threads
  and queues between socket and handler (handlers run one at a time), protobuf's and netlink's encodings, overflow of 32-bit terms, indices and margins, the simulated
  links and the stand-alone \<^verbatim>\<open>lib/tcp_stats_aggregator.cpp\<close>, which no target of the build uses. Build
  and configuration files. Of the modelled scripts: text printed on the console, the drawing of figures
  (a figure is the data it is given), rounding of floats and the digits they print with, files that are not text,
  code points above 255, \<open>int\<close>'s limit on the number of digits. The statistics collected by \<open>sum_remote_detect\<close> are read
  as plain decimal numbers, which is what \<^verbatim>\<open>remote_detect_stats.py\<close> writes.
\<close>

subsection \<open>From the client logs to the merged throughput\<close>

text \<open>The successful responses of a log whose lines all parse.\<close>

definition responses :: "string list \<Rightarrow> datetime list" where
  "responses log_lines = (case parse_success_timestamps log_lines of Inl _ \<Rightarrow> [] | Inr ts \<Rightarrow> ts)"

definition summarisable :: "int \<Rightarrow> string list \<Rightarrow> bool" where
  "summarisable trim log_lines \<longleftrightarrow>
     (\<exists>ts rows. parse_success_timestamps log_lines = Inr ts \<and> recent ts \<and> thp_rows log_lines trim = Inr rows)"

definition rows_of :: "int \<Rightarrow> string list \<Rightarrow> (datetime, int) dict" where
  "rows_of trim log_lines = (case thp_rows log_lines trim of Inl _ \<Rightarrow> [] | Inr rows \<Rightarrow> map (\<lambda>r. (fst r, int (snd r))) rows)"

lemma list_all2_choice:
  assumes "\<And>x. x \<in> set xs \<Longrightarrow> \<exists>y. P x y"
  shows "\<exists>ys. list_all2 P xs ys"
proof -
  from assms obtain f where "\<forall>x \<in> set xs. P x (f x)" by metis
  then have "list_all2 P xs (map f xs)" by (simp add: list_all2_conv_all_nth)
  then show ?thesis ..
qed

lemma dict_get_int: "dict_get (map (\<lambda>r. (fst r, int (snd r))) d) k 0 = int (dict_get d k 0)"
  by (induction d) (auto simp: dict_get_def)

lemma summarisable_csv:
  assumes "summarisable trim log_lines"
  shows "\<exists>csv. thp_main log_lines trim = Inr csv \<and> read_summary csv = Inr (rows_of trim log_lines)"
    and "wf_dict (rows_of trim log_lines)" and "rows_of trim log_lines \<noteq> []"
    and "dict_get (rows_of trim log_lines) s 0 = int (length (filter (\<lambda>t. trunc_second t = s) (kept trim (responses log_lines))))"
    and "fst ` set (rows_of trim log_lines) = trunc_second ` set (kept trim (responses log_lines))"
proof -
  from assms obtain ts rows where r: "parse_success_timestamps log_lines = Inr ts" "recent ts" "thp_rows log_lines trim = Inr rows"
    unfolding summarisable_def by blast
  then have rows: "rows_of trim log_lines = map (\<lambda>r. (fst r, int (snd r))) rows" and ts: "responses log_lines = ts"
    by (simp_all add: rows_of_def responses_def)
  show "\<exists>csv. thp_main log_lines trim = Inr csv \<and> read_summary csv = Inr (rows_of trim log_lines)"
    using read_summary_written [OF r] r(3) unfolding thp_main_Inr rows by blast
  show "wf_dict (rows_of trim log_lines)" using thp_rows_keys(2) [OF r(1,3)] by (simp add: rows wf_dict_def o_def)
  show "dict_get (rows_of trim log_lines) s 0 = int (length (filter (\<lambda>t. trunc_second t = s) (kept trim (responses log_lines))))"
    unfolding rows ts dict_get_int thp_rows_count(1) [OF r(1,3)] ..
  show keys: "fst ` set (rows_of trim log_lines) = trunc_second ` set (kept trim (responses log_lines))"
    unfolding ts thp_rows_keys(1) [OF r(1,3), symmetric] by (auto simp: rows image_image)
  have "kept trim (responses log_lines) \<noteq> []" using thp_rows_Inr [OF r(1,3)] ts by simp
  with keys show "rows_of trim log_lines \<noteq> []" by auto
qed

text \<open>
  C3: the throughput pipeline as a whole. From at least two client logs that \<open>remote_thp_summary.py\<close> can
  summarise, the summaries it writes merge without error in \<open>merge_thp_summaries.py\<close>, and the
  combined series is in time order, has a row exactly for the seconds in which some node has a kept
  successful response, and shows there the number of kept successful responses of all
  nodes in that second.
\<close>

theorem throughput_pipeline:
  assumes "2 \<le> length logs" "\<forall>log_lines \<in> set logs. summarisable trim log_lines"
  shows "\<exists>csvs m. list_all2 (\<lambda>log_lines csv. thp_main log_lines trim = Inr csv) logs csvs \<and> merge_main csvs = Inr m
    \<and> sorted (map fst m) \<and> distinct (map fst m)
    \<and> set (map fst m) = (\<Union>log_lines \<in> set logs. trunc_second ` set (kept trim (responses log_lines)))
    \<and> (\<forall>s. dict_get m s 0 =
        (\<Sum>log_lines\<leftarrow>logs. int (length (filter (\<lambda>t. trunc_second t = s) (kept trim (responses log_lines))))))"
proof -
  have "\<exists>csvs. list_all2 (\<lambda>log_lines csv. thp_main log_lines trim = Inr csv \<and> read_summary csv = Inr (rows_of trim log_lines)) logs csvs"
    by (rule list_all2_choice) (simp add: assms(2) summarisable_csv(1))
  then obtain csvs where csvs:
    "list_all2 (\<lambda>log_lines csv. thp_main log_lines trim = Inr csv \<and> read_summary csv = Inr (rows_of trim log_lines)) logs csvs" ..
  have main: "list_all2 (\<lambda>log_lines csv. thp_main log_lines trim = Inr csv) logs csvs"
    using csvs by (rule list_all2_mono) simp
  have read: "list_all2 (\<lambda>f d. read_summary f = Inr d \<and> wf_dict d) csvs (map (rows_of trim) logs)"
    using csvs assms(2) summarisable_csv(2) by (fastforce simp: list_all2_conv_all_nth)
  have "2 \<le> length csvs" using csvs assms(1) by (simp add: list_all2_lengthD)
  moreover have "\<exists>d \<in> set (map (rows_of trim) logs). d \<noteq> []"
    using assms summarisable_csv(3) by (cases logs) auto
  ultimately obtain m where m: "merge_main csvs = Inr m" "sorted (map fst m)" "wf_dict m"
    "fst ` set m = (\<Union>d \<in> set (map (rows_of trim) logs). fst ` set d)"
    "\<forall>s. dict_get m s 0 = (\<Sum>d\<leftarrow>map (rows_of trim) logs. dict_get d s 0)"
    using merge_main_run [OF read] by blast
  have "(\<Sum>d\<leftarrow>map (rows_of trim) logs. dict_get d s 0) =
      (\<Sum>log_lines\<leftarrow>logs. int (length (filter (\<lambda>t. trunc_second t = s) (kept trim (responses log_lines)))))" for s
    using assms(2) summarisable_csv(4) by (auto intro!: arg_cong [where f = sum_list])
  moreover have "set (map fst m) = (\<Union>log_lines \<in> set logs. trunc_second ` set (kept trim (responses log_lines)))"
    using m(4) assms(2) summarisable_csv(5) by simp
  ultimately show ?thesis using main m by (intro exI [of _ csvs] exI [of _ m]) (simp add: wf_dict_def)
qed

lemma client_log_summarisable: "summarisable 10 client_log"
  unfolding summarisable_def using client_log_ts client_log_rows by (auto simp: recent_def)

theorem throughput_pipeline_witness:
  "\<exists>csv m. thp_main client_log 10 = Inr csv \<and> merge_main [csv, csv] = Inr m
    \<and> dict_get m (Datetime 2025 4 22 13 17 15 0) 0 = 4"
proof -
  have "\<forall>log_lines \<in> set [client_log, client_log]. summarisable 10 log_lines" by (simp add: client_log_summarisable)
  from throughput_pipeline [OF _ this] obtain csvs m where
    c: "list_all2 (\<lambda>log_lines csv. thp_main log_lines 10 = Inr csv) [client_log, client_log] csvs" "merge_main csvs = Inr m"
    and m: "dict_get m (Datetime 2025 4 22 13 17 15 0) 0 = (\<Sum>log_lines\<leftarrow>[client_log, client_log].
      int (length (filter (\<lambda>t. trunc_second t = Datetime 2025 4 22 13 17 15 0) (kept 10 (responses log_lines)))))"
    by auto
  from c(1) obtain csv where csv: "csvs = [csv, csv]" "thp_main client_log 10 = Inr csv"
    by (auto simp: list_all2_Cons1)
  have "length (filter (\<lambda>t. trunc_second t = Datetime 2025 4 22 13 17 15 0) (kept 10 (responses client_log))) = 2"
    by code_simp
  with csv c(2) m show ?thesis by auto
qed

subsection \<open>From the node logs to the grand total\<close>

text \<open>
  What \<open>remote_count_timeouts.py\<close> leaves in its output file for the log of node \<open>i\<close>: the count and a newline;
  no file when it fails.
\<close>

definition count_file :: "string list list \<Rightarrow> int \<Rightarrow> int \<Rightarrow> nat \<Rightarrow> string option" where
  "count_file logs skip_first skip_last i =
     (case count_main (logs ! i) skip_first skip_last of Inl _ \<Rightarrow> None | Inr n \<Rightarrow> Some (show_int (int n) @ [newline]))"

definition log_timeouts :: "int \<Rightarrow> int \<Rightarrow> string list \<Rightarrow> int" where
  "log_timeouts skip_first skip_last log_lines =
     (case count_main log_lines skip_first skip_last of Inl _ \<Rightarrow> 0 | Inr n \<Rightarrow> int n)"

lemma node_count_file:
  "node_count (count_file logs a b) i = (case count_main (logs ! i) a b of Inl _ \<Rightarrow> None | Inr n \<Rightarrow> Some (int n))"
proof -
  have "py_int (strip (show_int (int n) @ [newline])) = Inr (int n)" for n
    by (simp add: strip_show_int_newline py_int_show_int)
  then show ?thesis by (simp add: node_count_def count_file_def split: sum.splits)
qed

lemma total_count_file:
  assumes "length logs = 5"
  shows "total_count (count_file logs a b) = (\<Sum>log_lines\<leftarrow>logs. log_timeouts a b log_lines)"
proof -
  have "sum_list (List.map_filter (node_count (count_file logs a b)) is) = (\<Sum>i\<leftarrow>is. log_timeouts a b (logs ! i))" for "is"
    by (induction "is") (simp_all add: map_filter_simps node_count_file log_timeouts_def split: sum.splits)
  moreover have "map (\<lambda>i. log_timeouts a b (logs ! i)) [0..<5] = map (log_timeouts a b) logs"
    using assms by (metis map_map [unfolded o_def] map_nth)
  ultimately show ?thesis by (simp only: total_count_def)
qed


text \<open>Five logs, of which the first is empty; its node has no count to fetch.\<close>

definition one_lab :: "bool outside" where
  "one_lab c a = (case a of Read_file f \<Rightarrow> (Inr (Text (''1'' @ [newline])), c) | _ \<Rightarrow> lab c a)"

definition five_logs :: "string list list" where
  "five_logs = [] # replicate 4 sample_log"

lemma sample_count: "count_main sample_log 30 10 = Inr 1" "count_main [] 30 10 = Inl (SystemExit ''Empty log.'')"
  by code_simp+

lemma five_logs_nth: "i < 5 \<Longrightarrow> five_logs ! i = (if i = 0 then [] else sample_log)"
  by (simp add: five_logs_def nth_Cons' nth_replicate)

lemma five_logs_files: "i < 5 \<Longrightarrow> count_file five_logs 30 10 i = (if i = 0 then None else Some (''1'' @ [newline]))"
proof -
  have "show_int 1 = ''1''" by code_simp
  then show "i < 5 \<Longrightarrow> ?thesis" by (simp add: count_file_def five_logs_nth sample_count)
qed

lemma one_lab_serves: "serves one_lab (\<lambda>_. True) (count_file five_logs 30 10)"
proof -
  have "\<forall>p \<in> set five. fst p < 5 \<and> (fst p = 0 \<longleftrightarrow> host (snd p) = host (hd nodes))"
    by (simp add: nodes_def enumerate_eq_zip upt_rec)
  then show ?thesis by (auto simp: serves_def one_lab_def lab_def fetch_act_def five_logs_files split: option.splits)
qed


end
